(* ===== verification/Mux_Prelude.thy ===== *)
theory Mux_Prelude
  imports Main "HOL-Library.Word"
begin

text \<open>
  Shared vocabulary of the development: the machine integers of the C++ code, the exceptions it
  throws as values, the state-and-exception sequencing every operation uses, the byte order
  conversions of the C library, and the generic facts on lists, maps and words the components share.
\<close>

unbundle bit_operations_syntax

section \<open>Machine integers\<close>

type_synonym u8 = "8 word"
type_synonym u16 = "16 word"
type_synonym u32 = "32 word"
type_synonym u64 = "64 word"
type_synonym bytes = "8 word list"

named_theorems byte_order "reading back what a byte order conversion wrote"
named_theorems outcome "evaluation of the exception sequencing"

section \<open>Exceptions\<close>

text \<open>
  One constructor per place where the code throws (\<open>assure\<close>, \<open>retassure\<close>, \<open>reterror\<close>) and one,
  \<open>Trap\<close>, for behaviour C++ leaves undefined (division by a zero packet size, access outside an
  allocation). An operation that throws still returns the state it reached.
\<close>

datatype muxerr =
    Packet_too_large
  | Alloc_transfer_failed
  | Submit_failed int
  | Too_much_data
  | Size_mismatch
  | V1_split_packet
  | Split_too_large
  | Version_too_small
  | Tcp_too_small
  | Already_initialised
  | Too_many_connections
  | No_free_port
  | Unexpected_while_connecting
  | Connect_failed
  | Not_connected
  | Bad_pollfd
  | Poll_failed
  | Unexpected_revents
  | Recv_failed
  | No_such_device
  | Not_implemented
  | Out_of_bufspace
  | Client_disconnected
  | Short_header
  | Send_failed
  | Missing_message_type
  | Bad_plist
  | Graceful_kill
  | Record_not_found
  | Record_not_removed
  | Descriptor_failed
  | Not_an_apple_device
  | Product_not_observed
  | Open_failed
  | Configuration_failed
  | No_usb_interface
  | Claim_failed
  | Transfer_failed
  | No_rx_loop
  | Unlink_failed
  | Socket_failed
  | Bind_failed
  | Listen_failed
  | Hotplug_failed
  | Handle_events_failed
  | Assure_failed
  | Trap

type_synonym 'a res = "muxerr + 'a"

text \<open>
  An operation on a state \<open>'s\<close> takes the state and gives a result or an exception together with the
  state it left: assignments made before a throw stay visible, as they do in C++.
\<close>

type_synonym ('s, 'a) act = "'s \<Rightarrow> 'a res \<times> 's"

definition thenE :: "('s, 'a) act \<Rightarrow> ('a \<Rightarrow> ('s, 'b) act) \<Rightarrow> ('s, 'b) act" where
  "thenE m k s = (case m s of (Inl e, s') \<Rightarrow> (Inl e, s') | (Inr x, s') \<Rightarrow> k x s')"

definition okE :: "'a \<Rightarrow> ('s, 'a) act" where
  "okE x s = (Inr x, s)"

definition throwE :: "muxerr \<Rightarrow> ('s, 'a) act" where
  "throwE e s = (Inl e, s)"

definition assureE :: "bool \<Rightarrow> muxerr \<Rightarrow> ('s, unit) act" where
  "assureE b e s = (if b then (Inr (), s) else (Inl e, s))"

definition modE :: "('s \<Rightarrow> 's) \<Rightarrow> ('s, unit) act" where
  "modE f s = (Inr (), f s)"

lemma thenE_Inr [outcome]: "m s = (Inr x, s') \<Longrightarrow> thenE m k s = k x s'"
  by (simp add: thenE_def)

lemma thenE_Inl [outcome]: "m s = (Inl e, s') \<Longrightarrow> thenE m k s = (Inl e, s')"
  by (simp add: thenE_def)

lemma okE_run [outcome, simp]: "okE x s = (Inr x, s)"
  by (simp add: okE_def)

lemma throwE_run [outcome, simp]: "throwE e s = (Inl e, s)"
  by (simp add: throwE_def)

lemma modE_run [outcome, simp]: "modE f s = (Inr (), f s)"
  by (simp add: modE_def)

lemma assureE_run [outcome, simp]:
  "assureE b e s = (if b then (Inr (), s) else (Inl e, s))"
  by (simp add: assureE_def)

lemma thenE_cases:
  assumes "thenE m k s = (r, t)"
  obtains (throw) e where "m s = (Inl e, t)" and "r = Inl e"
    | (step) x s' where "m s = (Inr x, s')" and "k x s' = (r, t)"
  using assms by (auto simp: thenE_def split: prod.splits sum.splits)

lemma thenE_okE_left [outcome, simp]: "thenE (okE x) k = k x"
  by (rule ext) (simp add: thenE_def)

lemma thenE_modE [outcome, simp]: "thenE (modE f) k s = k () (f s)"
  by (simp add: thenE_def)

lemma thenE_throwE [outcome, simp]: "thenE (throwE e) k = throwE e"
  by (rule ext) (simp add: thenE_def)

lemma thenE_assureE [outcome, simp]:
  "thenE (assureE b e) k s = (if b then k () s else (Inl e, s))"
  by (simp add: thenE_def)

text \<open>A run that ends in a known way, split into its result and its state.\<close>

lemma run_ok: "fst p = Inr u \<Longrightarrow> p = (Inr u, snd p)"
  by (simp add: prod_eq_iff)

lemma run_fails: "fst p = Inl e \<Longrightarrow> p = (Inl e, snd p)"
  by (simp add: prod_eq_iff)

section \<open>Byte order\<close>

text \<open>
  \<open>be16\<close> and \<open>be32\<close> are the bytes in memory of \<open>htons\<close> and \<open>htonl\<close> of a value; \<open>get16\<close> and \<open>get32\<close>
  are \<open>ntohs\<close> and \<open>ntohl\<close> of the field at an offset of a buffer. The client protocol is in host
  order, which is little endian on every supported host: \<open>le32\<close>, \<open>get32le\<close>. \<open>swap16\<close> is \<open>ntohs\<close>
  applied to a value in a register of such a host.
\<close>

definition be16 :: "u16 \<Rightarrow> bytes" where
  "be16 w = [ucast (drop_bit 8 w), ucast w]"

definition be32 :: "u32 \<Rightarrow> bytes" where
  "be32 w = [ucast (drop_bit 24 w), ucast (drop_bit 16 w), ucast (drop_bit 8 w), ucast w]"

definition get16 :: "bytes \<Rightarrow> nat \<Rightarrow> u16" where
  "get16 bs i = push_bit 8 (ucast (bs ! i)) OR ucast (bs ! Suc i)"

definition get32 :: "bytes \<Rightarrow> nat \<Rightarrow> u32" where
  "get32 bs i = push_bit 24 (ucast (bs ! i)) OR push_bit 16 (ucast (bs ! (i + 1)))
     OR push_bit 8 (ucast (bs ! (i + 2))) OR ucast (bs ! (i + 3))"

definition le16 :: "u16 \<Rightarrow> bytes" where
  "le16 w = rev (be16 w)"

definition le32 :: "u32 \<Rightarrow> bytes" where
  "le32 w = rev (be32 w)"

definition get16le :: "bytes \<Rightarrow> nat \<Rightarrow> u16" where
  "get16le bs i = push_bit 8 (ucast (bs ! Suc i)) OR ucast (bs ! i)"

definition get32le :: "bytes \<Rightarrow> nat \<Rightarrow> u32" where
  "get32le bs i = push_bit 24 (ucast (bs ! (i + 3))) OR push_bit 16 (ucast (bs ! (i + 2)))
     OR push_bit 8 (ucast (bs ! (i + 1))) OR ucast (bs ! i)"

definition swap16 :: "u16 \<Rightarrow> u16" where
  "swap16 w = push_bit 8 w OR drop_bit 8 w"

lemma length_be16 [simp]: "length (be16 w) = 2"
  by (simp add: be16_def)

lemma length_be32 [simp]: "length (be32 w) = 4"
  by (simp add: be32_def)

lemma length_le16 [simp]: "length (le16 w) = 2"
  by (simp add: le16_def)

lemma length_le32 [simp]: "length (le32 w) = 4"
  by (simp add: le32_def)

lemma word16_of_bytes:
  "push_bit 8 (ucast (ucast (drop_bit 8 w) :: u8)) OR ucast (ucast w :: u8) = (w :: u16)"
  by (rule bit_word_eqI) (auto simp: bit_simps)

lemma word32_of_bytes:
  "push_bit 24 (ucast (ucast (drop_bit 24 w) :: u8)) OR push_bit 16 (ucast (ucast (drop_bit 16 w) :: u8))
     OR push_bit 8 (ucast (ucast (drop_bit 8 w) :: u8)) OR ucast (ucast w :: u8) = (w :: u32)"
proof (rule bit_word_eqI)
  fix n :: nat
  assume "n < LENGTH(32)"
  then consider "n < 8" | "8 \<le> n" "n < 16" | "16 \<le> n" "n < 24" | "24 \<le> n" "n < 32"
    by fastforce
  then show "bit (push_bit 24 (ucast (ucast (drop_bit 24 w) :: u8) :: u32)
      OR push_bit 16 (ucast (ucast (drop_bit 16 w) :: u8))
      OR push_bit 8 (ucast (ucast (drop_bit 8 w) :: u8)) OR ucast (ucast w :: u8)) n = bit w n"
    by cases (simp_all add: bit_simps, auto)
qed

lemma get16_be16 [byte_order]: "length xs = n \<Longrightarrow> get16 (xs @ be16 w @ ys) n = w"
  by (auto simp: get16_def be16_def nth_append word16_of_bytes)

lemma get32_be32 [byte_order]: "length xs = n \<Longrightarrow> get32 (xs @ be32 w @ ys) n = w"
  by (auto simp: get32_def be32_def nth_append word32_of_bytes)

lemma get32le_le32 [byte_order]: "length xs = n \<Longrightarrow> get32le (xs @ le32 w @ ys) n = w"
  by (auto simp: get32le_def le32_def be32_def nth_append word32_of_bytes)

lemma get16le_le16 [byte_order]: "length xs = n \<Longrightarrow> get16le (xs @ le16 w @ ys) n = w"
  by (auto simp: get16le_def le16_def be16_def nth_append word16_of_bytes)

lemma swap16_swap16 [simp]: "swap16 (swap16 w) = w"
  by (rule bit_word_eqI) (auto simp: swap16_def bit_simps)

text \<open>Reading a field of a buffer that starts with other fields: skip a prefix of known length.\<close>

lemma get16_skip: "length xs \<le> n \<Longrightarrow> get16 (xs @ ys) n = get16 ys (n - length xs)"
  by (simp add: get16_def nth_append Suc_diff_le)

lemma get32_skip: "length xs \<le> n \<Longrightarrow> get32 (xs @ ys) n = get32 ys (n - length xs)"
proof -
  assume "length xs \<le> n"
  then have "(xs @ ys) ! (n + k) = ys ! (n - length xs + k)" for k
    by (simp add: nth_append)
  from this [of 0] this [of 1] this [of 2] this [of 3] show ?thesis
    by (simp add: get32_def)
qed

lemma get16_here [byte_order]: "get16 (be16 w @ ys) 0 = w" "get16 (be16 w) 0 = w"
  using get16_be16 [of "[]" 0 w ys] get16_be16 [of "[]" 0 w "[]"] by simp_all

lemma get32_here [byte_order]: "get32 (be32 w @ ys) 0 = w" "get32 (be32 w) 0 = w"
  using get32_be32 [of "[]" 0 w ys] get32_be32 [of "[]" 0 w "[]"] by simp_all

lemma get16_Cons: "0 < n \<Longrightarrow> get16 (b # bs) n = get16 bs (n - 1)"
  by (simp add: get16_def)

lemmas field_simps_be = get16_skip get32_skip get16_here get32_here get16_Cons

section \<open>Sequence arithmetic\<close>

lemma unat_of_nat_u32: "n < 2 ^ 32 \<Longrightarrow> unat (of_nat n :: u32) = n"
  by (simp add: unat_of_nat take_bit_eq_mod)

lemma unat_of_nat_u8: "n < 2 ^ 8 \<Longrightarrow> unat (of_nat n :: u8) = n"
  by (simp add: unat_of_nat take_bit_eq_mod)

lemma unat_of_nat_u16: "n < 2 ^ 16 \<Longrightarrow> unat (of_nat n :: u16) = n"
  by (simp add: unat_of_nat take_bit_eq_mod)

lemma unat_lt_u16: "unat (w :: u16) < 65536"
  using unsigned_less [of w] by simp

lemma unat_lt_u32: "unat (w :: u32) < 4294967296"
  using unsigned_less [of w] by simp

lemma u16_succ_unat: "unat (w + 1 :: u16) = (if unat w = 65535 then 0 else Suc (unat w))"
  using unat_lt_u16 [of w] by (auto simp: unat_word_ariths mod_if)

lemma of_nat_eq_u32: "(of_nat m = (of_nat n :: u32)) \<longleftrightarrow> m mod 2 ^ 32 = n mod 2 ^ 32"
proof -
  have "(of_nat m = (of_nat n :: u32)) \<longleftrightarrow> unat (of_nat m :: u32) = unat (of_nat n :: u32)"
    by (simp add: word_unat_eq_iff)
  then show ?thesis by (simp add: unat_of_nat take_bit_eq_mod)
qed

lemma of_nat_u32_near:
  assumes "(of_nat m :: u32) = of_nat n" and "m \<le> n" and "n - m < 2 ^ 32"
  shows "m = n"
proof -
  from assms(1) have "n mod 2 ^ 32 = m mod 2 ^ 32"
    by (simp add: of_nat_eq_u32)
  then have "2 ^ 32 dvd n - m"
    using mod_eq_dvd_iff_nat [OF assms(2)] by blast
  with assms(2,3) show ?thesis
    by (auto dest: dvd_imp_le simp del: power_numeral)
qed

lemma concat_snoc: "concat (xs @ [x]) = concat xs @ x"
  by simp

lemma concat_take_Suc:
  "n < length xs \<Longrightarrow> concat (take (Suc n) xs) = concat (take n xs) @ xs ! n"
  by (simp add: take_Suc_conv_app_nth)

section \<open>Offsets in a segmented stream\<close>

text \<open>\<open>seg_off ps k\<close> is the offset of the first byte of segment \<open>k\<close> in the stream \<open>concat ps\<close>.\<close>

definition seg_off :: "'a list list \<Rightarrow> nat \<Rightarrow> nat" where
  "seg_off ps k = length (concat (take k ps))"

lemma seg_off_0 [simp]: "seg_off ps 0 = 0"
  by (simp add: seg_off_def)

lemma seg_off_Suc: "k < length ps \<Longrightarrow> seg_off ps (Suc k) = seg_off ps k + length (ps ! k)"
  by (simp add: seg_off_def concat_take_Suc)

lemma seg_off_append [simp]: "k \<le> length ps \<Longrightarrow> seg_off (ps @ qs) k = seg_off ps k"
  by (simp add: seg_off_def)

lemma seg_off_length: "seg_off ps (length ps) = length (concat ps)"
  by (simp add: seg_off_def)

lemma seg_off_less:
  assumes "\<forall>p \<in> set ps. p \<noteq> []" and "j < k" and "k \<le> length ps"
  shows "seg_off ps j < seg_off ps k"
  using assms(2,3)
proof (induction k)
  case (Suc k)
  have "0 < length (ps ! k)"
    using assms(1) Suc.prems(2) by simp
  moreover have "seg_off ps j \<le> seg_off ps k"
    using Suc by (cases "j = k") auto
  ultimately show ?case
    using Suc.prems(2) unfolding seg_off_Suc [OF Suc_le_lessD [OF Suc.prems(2)]] by linarith
qed simp

lemma seg_off_mono:
  assumes "\<forall>p \<in> set ps. p \<noteq> []" and "j \<le> k" and "k \<le> length ps"
  shows "seg_off ps j \<le> seg_off ps k"
  using seg_off_less [OF assms(1), of j k] assms(2,3) by (cases "j = k") auto

lemma seg_off_span:
  assumes "\<forall>p \<in> set ps. length p \<le> B" and "j \<le> k" and "k \<le> length ps"
  shows "seg_off ps k - seg_off ps j \<le> (k - j) * B"
  using assms(2,3)
proof (induction k)
  case (Suc k)
  show ?case
  proof (cases "j = Suc k")
    case False
    with Suc have "seg_off ps k - seg_off ps j \<le> (k - j) * B" and "length (ps ! k) \<le> B"
      using assms(1) by simp_all
    moreover have "Suc k - j = Suc (k - j)"
      using False Suc.prems(1) by simp
    ultimately show ?thesis
      using Suc.prems(2) by (simp add: seg_off_Suc)
  qed simp
qed simp

section \<open>Decimal numbers\<close>

text \<open>Decimal digits, as \<open>std::to_string\<close> writes them.\<close>

fun to_string :: "nat \<Rightarrow> string" where
  "to_string n = (if n < 10 then [''0123456789'' ! n] else to_string (n div 10) @ [''0123456789'' ! (n mod 10)])"

declare to_string.simps [simp del]

lemma to_string_small: "n < 10 \<Longrightarrow> to_string n = [''0123456789'' ! n]"
  by (subst to_string.simps) simp

lemma length_to_string:
  assumes "n < 1000"
  shows "length (to_string n) \<le> 3"
proof -
  have "n div 10 div 10 < 10" using assms by simp
  then show ?thesis
    by (simp add: to_string.simps [of n] to_string.simps [of "n div 10"] to_string_small del: div_mult2_eq)
qed

end
