(* ===== verification/Wire_Format.thy ===== *)
theory Wire_Format
  imports Mux_Prelude
begin

text \<open>
  The structures the daemon puts on its two wires: towards a device the mux headers of
  \<^verbatim>\<open>Devices/USBDevice.hpp\<close> and the C library's \<open>tcphdr\<close>, towards a client the structures of
  \<^verbatim>\<open>usbmuxd2-proto.h\<close>; each with its layout in memory (an \<open>encode\<close> function, what \<open>memcpy\<close> of the
  structure writes) and the reading of its fields at an offset of a buffer (a \<open>decode\<close> function).
  A field that the code keeps in network order holds its host value here; the conversion is part of
  the layout.
\<close>

section \<open>Device side\<close>

datatype mux_protocol = MUX_PROTO_VERSION | MUX_PROTO_CONTROL | MUX_PROTO_SETUP | MUX_PROTO_TCP

fun proto_code :: "mux_protocol \<Rightarrow> u32" where
  "proto_code MUX_PROTO_VERSION = 0"
| "proto_code MUX_PROTO_CONTROL = 1"
| "proto_code MUX_PROTO_SETUP = 2"
| "proto_code MUX_PROTO_TCP = 6"

definition USB_MTU :: nat where "USB_MTU = 3 * 16384"
definition USB_MRU :: nat where "USB_MRU = USB_MTU"
definition NUM_RX_LOOPS :: nat where "NUM_RX_LOOPS = 3"
definition DEV_MRU :: nat where "DEV_MRU = 65535"

lemmas usb_limits = USB_MTU_def USB_MRU_def DEV_MRU_def

record mux_version_header =
  vh_major :: u32
  vh_minor :: u32
  vh_padding :: u32

record mux_header_v1 =
  h1_protocol :: u32
  h1_length :: u32

record mux_header_v2 = mux_header_v1 +
  h2_magic :: u32
  h2_tx_seq :: u16
  h2_rx_seq :: u16

definition sizeof_mux_header_v1 :: nat where "sizeof_mux_header_v1 = 8"
definition sizeof_mux_header_v2 :: nat where "sizeof_mux_header_v2 = 16"
definition sizeof_mux_header :: nat where "sizeof_mux_header = 16"
definition sizeof_mux_version_header :: nat where "sizeof_mux_version_header = 12"
definition sizeof_tcphdr :: nat where "sizeof_tcphdr = 20"

lemmas struct_sizes = sizeof_mux_header_v1_def sizeof_mux_header_v2_def sizeof_mux_header_def
  sizeof_mux_version_header_def sizeof_tcphdr_def

definition MUX_MAGIC :: u32 where "MUX_MAGIC = 0xfeedface"

definition encode_version_header :: "mux_version_header \<Rightarrow> bytes" where
  "encode_version_header h = be32 (vh_major h) @ be32 (vh_minor h) @ be32 (vh_padding h)"

definition decode_version_header :: "bytes \<Rightarrow> nat \<Rightarrow> mux_version_header" where
  "decode_version_header bs i =
     \<lparr>vh_major = get32 bs i, vh_minor = get32 bs (i + 4), vh_padding = get32 bs (i + 8)\<rparr>"

definition encode_mux_v1 :: "mux_header_v1 \<Rightarrow> bytes" where
  "encode_mux_v1 h = be32 (h1_protocol h) @ be32 (h1_length h)"

definition encode_mux_v2 :: "mux_header_v2 \<Rightarrow> bytes" where
  "encode_mux_v2 h = be32 (h1_protocol h) @ be32 (h1_length h)
     @ be32 (h2_magic h) @ be16 (h2_tx_seq h) @ be16 (h2_rx_seq h)"

definition decode_mux_v1 :: "bytes \<Rightarrow> mux_header_v1" where
  "decode_mux_v1 bs = \<lparr>h1_protocol = get32 bs 0, h1_length = get32 bs 4\<rparr>"

definition decode_mux_v2 :: "bytes \<Rightarrow> mux_header_v2" where
  "decode_mux_v2 bs = \<lparr>h1_protocol = get32 bs 0, h1_length = get32 bs 4,
     h2_magic = get32 bs 8, h2_tx_seq = get16 bs 12, h2_rx_seq = get16 bs 14\<rparr>"

text \<open>The TCP header of \<^verbatim>\<open>netinet/tcp.h\<close>: 20 bytes, the nibbles \<open>th_x2\<close> and \<open>th_off\<close> in byte 12.\<close>

record tcphdr =
  th_sport :: u16
  th_dport :: u16
  th_seq :: u32
  th_ack :: u32
  th_x2 :: "4 word"
  th_off :: "4 word"
  th_flags :: u8
  th_win :: u16
  th_sum :: u16
  th_urp :: u16

definition TH_FIN :: u8 where "TH_FIN = 0x01"
definition TH_SYN :: u8 where "TH_SYN = 0x02"
definition TH_RST :: u8 where "TH_RST = 0x04"
definition TH_ACK :: u8 where "TH_ACK = 0x10"

lemmas tcp_flags = TH_FIN_def TH_SYN_def TH_RST_def TH_ACK_def

definition encode_tcphdr :: "tcphdr \<Rightarrow> bytes" where
  "encode_tcphdr h = be16 (th_sport h) @ be16 (th_dport h) @ be32 (th_seq h) @ be32 (th_ack h)
     @ [push_bit 4 (ucast (th_off h)) OR ucast (th_x2 h), th_flags h]
     @ be16 (th_win h) @ be16 (th_sum h) @ be16 (th_urp h)"

definition decode_tcphdr :: "bytes \<Rightarrow> nat \<Rightarrow> tcphdr" where
  "decode_tcphdr bs i = \<lparr>th_sport = get16 bs i, th_dport = get16 bs (i + 2),
     th_seq = get32 bs (i + 4), th_ack = get32 bs (i + 8),
     th_x2 = ucast (bs ! (i + 12)), th_off = ucast (drop_bit 4 (bs ! (i + 12))),
     th_flags = bs ! (i + 13), th_win = get16 bs (i + 14), th_sum = get16 bs (i + 16),
     th_urp = get16 bs (i + 18)\<rparr>"

text \<open>\<open>tcphdr tcp_header{}\<close>: a header value-initialised to zero.\<close>

definition tcphdr_zero :: tcphdr where
  "tcphdr_zero = \<lparr>th_sport = 0, th_dport = 0, th_seq = 0, th_ack = 0, th_x2 = 0, th_off = 0,
     th_flags = 0, th_win = 0, th_sum = 0, th_urp = 0\<rparr>"

section \<open>Client side\<close>

datatype usbmuxd_result =
  RESULT_OK | RESULT_BADCOMMAND | RESULT_BADDEV | RESULT_CONNREFUSED | RESULT_BADVERSION

fun result_code :: "usbmuxd_result \<Rightarrow> u32" where
  "result_code RESULT_OK = 0"
| "result_code RESULT_BADCOMMAND = 1"
| "result_code RESULT_BADDEV = 2"
| "result_code RESULT_CONNREFUSED = 3"
| "result_code RESULT_BADVERSION = 6"

datatype usbmuxd_msgtype =
  MESSAGE_RESULT | MESSAGE_CONNECT | MESSAGE_LISTEN | MESSAGE_DEVICE_ADD | MESSAGE_DEVICE_REMOVE
| MESSAGE_DEVICE_PAIRED | MESSAGE_PLIST

fun msgtype_code :: "usbmuxd_msgtype \<Rightarrow> u32" where
  "msgtype_code MESSAGE_RESULT = 1"
| "msgtype_code MESSAGE_CONNECT = 2"
| "msgtype_code MESSAGE_LISTEN = 3"
| "msgtype_code MESSAGE_DEVICE_ADD = 4"
| "msgtype_code MESSAGE_DEVICE_REMOVE = 5"
| "msgtype_code MESSAGE_DEVICE_PAIRED = 6"
| "msgtype_code MESSAGE_PLIST = 8"

record usbmuxd_header =
  uh_length :: u32
  uh_version :: u32
  uh_message :: u32
  uh_tag :: u32

definition sizeof_usbmuxd_header :: nat where "sizeof_usbmuxd_header = 16"

record usbmuxd_connect_request =
  cr_header :: usbmuxd_header
  cr_device_id :: u32
  cr_port :: u16
  cr_reserved :: u16

definition encode_usbmuxd_header :: "usbmuxd_header \<Rightarrow> bytes" where
  "encode_usbmuxd_header h =
     le32 (uh_length h) @ le32 (uh_version h) @ le32 (uh_message h) @ le32 (uh_tag h)"

definition decode_usbmuxd_header :: "bytes \<Rightarrow> usbmuxd_header" where
  "decode_usbmuxd_header bs = \<lparr>uh_length = get32le bs 0, uh_version = get32le bs 4,
     uh_message = get32le bs 8, uh_tag = get32le bs 12\<rparr>"

definition decode_connect_request :: "bytes \<Rightarrow> usbmuxd_connect_request" where
  "decode_connect_request bs = \<lparr>cr_header = decode_usbmuxd_header bs,
     cr_device_id = get32le bs 16, cr_port = get16le bs 20, cr_reserved = get16le bs 22\<rparr>"

section \<open>Layouts read back\<close>

lemma length_encode_version_header [simp]:
  "length (encode_version_header h) = sizeof_mux_version_header"
  by (simp add: encode_version_header_def struct_sizes)

lemma length_encode_mux_v1 [simp]: "length (encode_mux_v1 h) = sizeof_mux_header_v1"
  by (simp add: encode_mux_v1_def struct_sizes)

lemma length_encode_mux_v2 [simp]: "length (encode_mux_v2 h) = sizeof_mux_header_v2"
  by (simp add: encode_mux_v2_def struct_sizes)

lemma length_encode_tcphdr [simp]: "length (encode_tcphdr h) = sizeof_tcphdr"
  by (simp add: encode_tcphdr_def struct_sizes)

lemma length_encode_usbmuxd_header [simp]:
  "length (encode_usbmuxd_header h) = sizeof_usbmuxd_header"
  by (simp add: encode_usbmuxd_header_def sizeof_usbmuxd_header_def)

lemma nibbles [byte_order]:
  "ucast (push_bit 4 (ucast (a :: 4 word)) OR ucast (b :: 4 word) :: u8) = b"
  "ucast (drop_bit 4 (push_bit 4 (ucast (a :: 4 word))) OR drop_bit 4 (ucast (b :: 4 word)) :: u8) = a"
  by (rule bit_word_eqI; auto simp: bit_simps dest: bit_imp_le_length)+

lemma decode_version_header_at [byte_order]:
  "length xs = n \<Longrightarrow> decode_version_header (xs @ encode_version_header h @ ys) n = h"
  by (simp add: decode_version_header_def encode_version_header_def field_simps_be)

lemma decode_mux_v1_encode [byte_order]:
  "decode_mux_v1 (encode_mux_v1 h @ ys) = h"
  by (simp add: decode_mux_v1_def encode_mux_v1_def field_simps_be)

lemma decode_mux_v2_encode [byte_order]:
  "decode_mux_v2 (encode_mux_v2 h @ ys) = h"
  by (simp add: decode_mux_v2_def encode_mux_v2_def field_simps_be)

lemma decode_tcphdr_at [byte_order]:
  assumes "length xs = n"
  shows "decode_tcphdr (xs @ encode_tcphdr h @ ys) n = h"
  using assms
  by (simp add: decode_tcphdr_def encode_tcphdr_def field_simps_be nibbles nth_append)

end
