(* ===== verification/Link_Interface.thy ===== *)
theory Link_Interface
  imports Wire_Format
begin

text \<open>
  What a TCP connection asks of the device it lives on: \<open>dev_send\<close> is
  \<open>_dev->send_packet(MUX_PROTO_TCP, data, len, &hdr)\<close> and \<open>dev_close\<close> is \<open>_dev->closeConnection\<close>.
  The locale states the contract: which segments reach the device, and that a send that fails
  condemns the device. \<^verbatim>\<open>USB_Link\<close> provides it, \<^verbatim>\<open>TCP_Conn\<close> relies on it.
\<close>

record 'd tcp_dev_ops =
  dev_send :: "bytes \<Rightarrow> tcphdr \<Rightarrow> ('d, unit) act"
  dev_close :: "u16 \<Rightarrow> 'd \<Rightarrow> 'd"

locale tcp_link =
  fixes ops :: "'d tcp_dev_ops"
    and sent :: "'d \<Rightarrow> (tcphdr \<times> bytes) list"
    and condemned :: "'d \<Rightarrow> bool"
    and closing :: "'d \<Rightarrow> u16 list"
  assumes send_ok: "dev_send ops data h d = (Inr u, d') \<Longrightarrow> sent d' = sent d @ [(h, data)]"
    and send_err: "dev_send ops data h d = (Inl e, d') \<Longrightarrow>
      sent d' = sent d \<or> sent d' = sent d @ [(h, data)]"
    and send_err_condemned:
      "dev_send ops data h d = (Inl e, d') \<Longrightarrow>
       sizeof_mux_header + sizeof_tcphdr + length data \<le> USB_MTU \<Longrightarrow> condemned d'"
    and send_closing: "dev_send ops data h d = (r, d') \<Longrightarrow> closing d' = closing d"
    and send_condemned: "dev_send ops data h d = (r, d') \<Longrightarrow> condemned d \<Longrightarrow> condemned d'"
    and close_condemned: "condemned (dev_close ops p d) = condemned d"
    and close_sent: "sent (dev_close ops p d) = sent d"
    and close_posted: "closing (dev_close ops p d) = closing d @ [p]"
begin

text \<open>
  A send never takes back what was sent: the segments sent before it stay a prefix.
\<close>

lemma send_extends:
  assumes "dev_send ops data h d = (r, d')"
  shows "\<exists>extra. sent d' = sent d @ extra \<and> extra \<in> {[], [(h, data)]}"
proof (cases r)
  case (Inl e)
  with assms have "sent d' = sent d \<or> sent d' = sent d @ [(h, data)]"
    by (simp add: send_err)
  then show ?thesis by auto
next
  case (Inr u)
  with assms have "sent d' = sent d @ [(h, data)]"
    by (simp add: send_ok)
  then show ?thesis by auto
qed

end

end
