(* ===== verification/USB_Link.thy ===== *)
theory USB_Link
  imports Link_Interface
begin

text \<open>
  The sending half of \<^verbatim>\<open>Devices/USBDevice.cpp\<close>: \<open>send_packet\<close> frames a packet with the mux header of
  the negotiated version, \<open>usb_send\<close> hands it to libusb and adds a zero length packet where the
  transfer would otherwise end on a packet boundary, \<open>tx_callback\<close> retires a transfer.
  libusb is a parameter: \<open>lib_alloc n\<close> says whether the \<open>n\<close>-th \<open>libusb_alloc_transfer\<close> succeeds and
  \<open>lib_submit n\<close> is the return code of \<open>libusb_submit_transfer\<close> on that transfer. Transfers are
  numbered in the order they are allocated; the number stands for the pointer.
\<close>

section \<open>State\<close>

record libusb_env =
  lib_alloc :: "nat \<Rightarrow> bool"
  lib_submit :: "nat \<Rightarrow> int"

record mux_device =
  md_version :: int
  md_pktbuf :: bytes
  md_pktlen :: u32
  md_tx_seq :: u16
  md_rx_seq :: u16

record usblink =
  ul_muxdev :: mux_device
  ul_wMaxPacketSize :: nat
  ul_tx_xfers :: "nat set"
  ul_next_xfer :: nat
  ul_usb_out :: "(nat \<times> bytes) list"
  ul_reapConnections :: "u16 list"
  ul_killed :: nat

text \<open>
  \<open>ul_usb_out\<close> is the sequence of transfers libusb accepted, \<open>ul_reapConnections\<close> the ports posted
  to the connection reaper and \<open>ul_killed\<close> how often the device was posted to its manager's reaper.
\<close>

definition INT_MAX :: nat where "INT_MAX = 2 ^ 31 - 1"

section \<open>Operations\<close>

definition usbdev_kill :: "'a usblink_scheme \<Rightarrow> 'a usblink_scheme" where
  "usbdev_kill l = l\<lparr>ul_killed := Suc (ul_killed l)\<rparr>"

definition closeConnection :: "u16 \<Rightarrow> 'a usblink_scheme \<Rightarrow> 'a usblink_scheme" where
  "closeConnection sport l = l\<lparr>ul_reapConnections := ul_reapConnections l @ [sport]\<rparr>"

definition submit_transfer :: "libusb_env \<Rightarrow> bytes \<Rightarrow> ('a usblink_scheme, unit) act" where
  "submit_transfer env buf l =
     (let x = ul_next_xfer l; l1 = l\<lparr>ul_next_xfer := Suc x\<rparr> in
      if \<not> lib_alloc env x then (Inl Alloc_transfer_failed, l1)
      else
        let l2 = l1\<lparr>ul_tx_xfers := insert x (ul_tx_xfers l1)\<rparr>; ret = lib_submit env x in
        if \<not> 0 \<le> ret
        then (Inl (Submit_failed ret), l2\<lparr>ul_tx_xfers := Set.remove x (ul_tx_xfers l2)\<rparr>)
        else (Inr (), l2\<lparr>ul_usb_out := ul_usb_out l2 @ [(x, buf)]\<rparr>))"

definition usb_send :: "libusb_env \<Rightarrow> bytes \<Rightarrow> ('a usblink_scheme, unit) act" where
  "usb_send env buf =
     thenE (assureE (length buf \<le> INT_MAX) Assure_failed) (\<lambda>_.
     thenE (submit_transfer env buf) (\<lambda>_ l.
       if ul_wMaxPacketSize l = 0 then (Inl Trap, l)
       else if length buf mod ul_wMaxPacketSize l = 0 \<and> ul_wMaxPacketSize l \<le> length buf
       then submit_transfer env [] l
       else (Inr (), l)))"

definition mux_header_size :: "int \<Rightarrow> nat" where
  "mux_header_size version =
     (if version < 2 then sizeof_mux_header_v1 else sizeof_mux_header_v2)"

definition packet_length :: "int \<Rightarrow> bytes \<Rightarrow> tcphdr option \<Rightarrow> nat" where
  "packet_length version data header =
     mux_header_size version + length data
       + (case header of None \<Rightarrow> 0 | Some _ \<Rightarrow> sizeof_tcphdr)"

text \<open>The mux header \<open>send_packet\<close> writes, and its effect on the sequence numbers.\<close>

definition stamp_header :: "mux_protocol \<Rightarrow> nat \<Rightarrow> mux_device \<Rightarrow> bytes \<times> mux_device" where
  "stamp_header proto buflen m =
     (if md_version m \<ge> 2
      then let m1 = (if proto = MUX_PROTO_SETUP then m\<lparr>md_tx_seq := 0, md_rx_seq := 0xffff\<rparr> else m)
           in (encode_mux_v2 \<lparr>h1_protocol = proto_code proto, h1_length = of_nat buflen,
                 h2_magic = MUX_MAGIC, h2_tx_seq = md_tx_seq m1, h2_rx_seq = md_rx_seq m1\<rparr>,
               m1\<lparr>md_tx_seq := md_tx_seq m1 + 1\<rparr>)
      else (encode_mux_v1 \<lparr>h1_protocol = proto_code proto, h1_length = of_nat buflen\<rparr>, m))"

definition send_packet ::
    "libusb_env \<Rightarrow> mux_protocol \<Rightarrow> bytes \<Rightarrow> tcphdr option \<Rightarrow> ('a usblink_scheme, unit) act" where
  "send_packet env proto data header l =
     (let buflen = packet_length (md_version (ul_muxdev l)) data header in
      if \<not> length data < buflen then (Inl Assure_failed, l)
      else if \<not> buflen \<le> USB_MTU then (Inl Packet_too_large, l)
      else
        let (mhdr, m1) = stamp_header proto buflen (ul_muxdev l);
            buf = mhdr @ (case header of None \<Rightarrow> [] | Some h \<Rightarrow> encode_tcphdr h) @ data
        in (case usb_send env buf (l\<lparr>ul_muxdev := m1\<rparr>) of
              (Inl e, l') \<Rightarrow> (Inl e, usbdev_kill l')
            | (Inr u, l') \<Rightarrow> (Inr u, l')))"

definition mux_init :: "libusb_env \<Rightarrow> ('a usblink_scheme, unit) act" where
  "mux_init env =
     send_packet env MUX_PROTO_VERSION
       (encode_version_header \<lparr>vh_major = 2, vh_minor = 0, vh_padding = 0\<rparr>) None"

datatype libusb_transfer_status =
  TRANSFER_COMPLETED | TRANSFER_ERROR | TRANSFER_TIMED_OUT | TRANSFER_CANCELLED
| TRANSFER_STALL | TRANSFER_NO_DEVICE | TRANSFER_OVERFLOW

definition tx_callback ::
    "nat \<Rightarrow> libusb_transfer_status \<Rightarrow> 'a usblink_scheme \<Rightarrow> 'a usblink_scheme" where
  "tx_callback xfer status l =
     (let l1 = (if status \<noteq> TRANSFER_COMPLETED then usbdev_kill l else l)
      in l1\<lparr>ul_tx_xfers := Set.remove xfer (ul_tx_xfers l1)\<rparr>)"

definition usb_ops :: "libusb_env \<Rightarrow> 'a usblink_scheme tcp_dev_ops" where
  "usb_ops env = \<lparr>dev_send = (\<lambda>data h. send_packet env MUX_PROTO_TCP data (Some h)),
                  dev_close = closeConnection\<rparr>"

section \<open>What a submission leaves behind\<close>

definition needs_zlp :: "nat \<Rightarrow> nat \<Rightarrow> bool" where
  "needs_zlp w n \<longleftrightarrow> n mod w = 0 \<and> w \<le> n"

text \<open>The fields a transfer does not touch.\<close>

definition same_link :: "'a usblink_scheme \<Rightarrow> 'a usblink_scheme \<Rightarrow> bool" where
  "same_link l l' \<longleftrightarrow> ul_muxdev l' = ul_muxdev l \<and> ul_wMaxPacketSize l' = ul_wMaxPacketSize l
     \<and> ul_reapConnections l' = ul_reapConnections l \<and> ul_killed l' = ul_killed l
     \<and> usblink.more l' = usblink.more l"

lemma same_link_trans: "same_link a b \<Longrightarrow> same_link b c \<Longrightarrow> same_link a c"
  by (simp add: same_link_def)

lemma submit_transfer_same: "submit_transfer env buf l = (r, l') \<Longrightarrow> same_link l l'"
  by (auto simp: submit_transfer_def same_link_def Let_def split: if_splits)

lemma submit_transfer_ok:
  "submit_transfer env buf l = (Inr u, l') \<Longrightarrow>
   ul_usb_out l' = ul_usb_out l @ [(ul_next_xfer l, buf)]
   \<and> ul_tx_xfers l' = insert (ul_next_xfer l) (ul_tx_xfers l)
   \<and> ul_next_xfer l' = Suc (ul_next_xfer l)"
  by (auto simp: submit_transfer_def Let_def split: if_splits)

lemma submit_transfer_err:
  "submit_transfer env buf l = (Inl e, l') \<Longrightarrow>
   ul_usb_out l' = ul_usb_out l \<and> ul_tx_xfers l' \<subseteq> ul_tx_xfers l
   \<and> ul_next_xfer l' = Suc (ul_next_xfer l)"
  by (auto simp: submit_transfer_def Let_def split: if_splits)

lemma usb_send_same: "usb_send env buf l = (r, l') \<Longrightarrow> same_link l l'"
  by (auto simp: usb_send_def thenE_def split: if_splits prod.splits sum.splits
      dest!: submit_transfer_same intro: same_link_trans)
    (auto simp: same_link_def)

lemma usb_send_ok:
  assumes "usb_send env buf l = (Inr u, l')"
  shows "\<exists>zs. ul_usb_out l' = ul_usb_out l @ (ul_next_xfer l, buf) # zs
    \<and> map snd zs = (if needs_zlp (ul_wMaxPacketSize l) (length buf) then [[]] else [])"
proof -
  from assms obtain l1 where s: "submit_transfer env buf l = (Inr (), l1)"
    and w: "ul_wMaxPacketSize l1 \<noteq> 0"
    and rest: "(if length buf mod ul_wMaxPacketSize l1 = 0 \<and> ul_wMaxPacketSize l1 \<le> length buf
        then submit_transfer env [] l1 else (Inr (), l1)) = (Inr u, l')"
    by (auto simp: usb_send_def thenE_def split: if_splits prod.splits sum.splits)
  from s have "ul_wMaxPacketSize l1 = ul_wMaxPacketSize l"
    using submit_transfer_same same_link_def by blast
  with submit_transfer_ok [OF s] rest show ?thesis
    by (cases "needs_zlp (ul_wMaxPacketSize l) (length buf)")
      (auto simp: needs_zlp_def dest!: submit_transfer_ok split: if_splits)
qed

lemma usb_send_err:
  assumes "usb_send env buf l = (Inl e, l')"
  shows "ul_usb_out l' = ul_usb_out l \<or> ul_usb_out l' = ul_usb_out l @ [(ul_next_xfer l, buf)]"
  using assms
  by (auto simp: usb_send_def thenE_def split: if_splits prod.splits sum.splits
      dest!: submit_transfer_ok submit_transfer_err)

section \<open>The packet on the wire\<close>

definition packet_bytes :: "mux_protocol \<Rightarrow> bytes \<Rightarrow> tcphdr option \<Rightarrow> mux_device \<Rightarrow> bytes" where
  "packet_bytes proto data header m =
     fst (stamp_header proto (packet_length (md_version m) data header) m)
       @ (case header of None \<Rightarrow> [] | Some h \<Rightarrow> encode_tcphdr h) @ data"

lemma stamp_header_version [simp]: "md_version (snd (stamp_header proto n m)) = md_version m"
  by (simp add: stamp_header_def Let_def)

lemma stamp_header_pktlen [simp]: "md_pktlen (snd (stamp_header proto n m)) = md_pktlen m"
  by (simp add: stamp_header_def Let_def)

lemma length_stamp_header [simp]:
  "length (fst (stamp_header proto n m)) = mux_header_size (md_version m)"
  by (simp add: stamp_header_def mux_header_size_def Let_def)

lemma length_packet_bytes [simp]:
  "length (packet_bytes proto data header m) = packet_length (md_version m) data header"
  by (simp add: packet_bytes_def packet_length_def split: option.splits)

lemma send_packet_cases:
  assumes "send_packet env proto data header l = (r, l')"
  obtains (large) "USB_MTU < packet_length (md_version (ul_muxdev l)) data header"
      "r = Inl Packet_too_large" "l' = l"
    | (failed) e l1 where "r = Inl e" "l' = usbdev_kill l1"
      "packet_length (md_version (ul_muxdev l)) data header \<le> USB_MTU"
      "usb_send env (packet_bytes proto data header (ul_muxdev l))
         (l\<lparr>ul_muxdev := snd (stamp_header proto
              (packet_length (md_version (ul_muxdev l)) data header) (ul_muxdev l))\<rparr>) = (Inl e, l1)"
    | (sent) "r = Inr ()"
      "packet_length (md_version (ul_muxdev l)) data header \<le> USB_MTU"
      "usb_send env (packet_bytes proto data header (ul_muxdev l))
         (l\<lparr>ul_muxdev := snd (stamp_header proto
              (packet_length (md_version (ul_muxdev l)) data header) (ul_muxdev l))\<rparr>) = (Inr (), l')"
proof -
  let ?n = "packet_length (md_version (ul_muxdev l)) data header"
  have pos: "length data < ?n"
    by (simp add: packet_length_def mux_header_size_def struct_sizes)
  show thesis
  proof (cases "?n \<le> USB_MTU")
    case False
    with assms pos show thesis
      by (intro large) (auto simp: send_packet_def Let_def)
  next
    case True
    obtain r1 l1 where run: "usb_send env (packet_bytes proto data header (ul_muxdev l))
         (l\<lparr>ul_muxdev := snd (stamp_header proto ?n (ul_muxdev l))\<rparr>) = (r1, l1)"
      by fastforce
    show thesis
    proof (cases r1)
      case (Inl e)
      with run assms pos True have "r = Inl e" "l' = usbdev_kill l1"
        by (auto simp: send_packet_def Let_def packet_bytes_def split: prod.splits)
      with run True Inl show thesis by (intro failed) auto
    next
      case (Inr u)
      with run assms pos True have "r = Inr ()" "l' = l1"
        by (auto simp: send_packet_def Let_def packet_bytes_def split: prod.splits)
      with run True Inr show thesis by (intro sent) auto
    qed
  qed
qed

text \<open>
  C4: what \<open>send_packet\<close> puts on the bus is one transfer, of at most the maximal packet size, whose
  mux header, TCP header and payload read back as the ones that were sent, with the sequence numbers
  the version asks for; a zero length transfer follows it exactly where its length is a multiple of
  the endpoint's packet size.
\<close>

theorem send_packet_wire:
  assumes "send_packet env proto data header l = (Inr u, l')"
  shows "\<exists>x pkt zs. ul_usb_out l' = ul_usb_out l @ (x, pkt) # zs
    \<and> map snd zs = (if needs_zlp (ul_wMaxPacketSize l) (length pkt) then [[]] else [])
    \<and> length pkt \<le> USB_MTU
    \<and> (if md_version (ul_muxdev l) < 2
       then decode_mux_v1 pkt = \<lparr>h1_protocol = proto_code proto, h1_length = of_nat (length pkt)\<rparr>
       else decode_mux_v2 pkt = \<lparr>h1_protocol = proto_code proto, h1_length = of_nat (length pkt),
         h2_magic = MUX_MAGIC,
         h2_tx_seq = (if proto = MUX_PROTO_SETUP then 0 else md_tx_seq (ul_muxdev l)),
         h2_rx_seq = (if proto = MUX_PROTO_SETUP then 0xffff else md_rx_seq (ul_muxdev l))\<rparr>)
    \<and> (let hs = mux_header_size (md_version (ul_muxdev l)) in
       case header of
         None \<Rightarrow> drop hs pkt = data
       | Some h \<Rightarrow> decode_tcphdr pkt hs = h \<and> drop (hs + sizeof_tcphdr) pkt = data)"
proof -
  let ?m = "ul_muxdev l"
  let ?p = "packet_bytes proto data header ?m"
  let ?n = "packet_length (md_version ?m) data header"
  from assms have mtu: "?n \<le> USB_MTU"
    and sent: "usb_send env ?p (l\<lparr>ul_muxdev := snd (stamp_header proto ?n ?m)\<rparr>) = (Inr (), l')"
    by (auto elim: send_packet_cases)
  have head: "if md_version ?m < 2
     then decode_mux_v1 ?p = \<lparr>h1_protocol = proto_code proto, h1_length = of_nat ?n\<rparr>
     else decode_mux_v2 ?p = \<lparr>h1_protocol = proto_code proto, h1_length = of_nat ?n,
       h2_magic = MUX_MAGIC,
       h2_tx_seq = (if proto = MUX_PROTO_SETUP then 0 else md_tx_seq ?m),
       h2_rx_seq = (if proto = MUX_PROTO_SETUP then 0xffff else md_rx_seq ?m)\<rparr>"
    by (simp add: packet_bytes_def stamp_header_def byte_order Let_def)
  have body: "case header of None \<Rightarrow> drop (mux_header_size (md_version ?m)) ?p = data
     | Some h \<Rightarrow> decode_tcphdr ?p (mux_header_size (md_version ?m)) = h
         \<and> drop (mux_header_size (md_version ?m) + sizeof_tcphdr) ?p = data"
    by (simp add: packet_bytes_def byte_order split: option.splits)
  from usb_send_ok [OF sent] show ?thesis
    using mtu head body by (fastforce simp: Let_def)
qed

section \<open>The link a TCP connection sees\<close>

text \<open>
  The device's reading of the transfers: a transfer is a TCP segment where it is long enough for both
  headers and its protocol field says TCP. \<open>tcp_sent\<close> is the sequence of segments on the bus.
\<close>

definition decode_tcp_packet :: "int \<Rightarrow> bytes \<Rightarrow> (tcphdr \<times> bytes) option" where
  "decode_tcp_packet version p =
     (let hs = mux_header_size version in
      if hs + sizeof_tcphdr \<le> length p \<and> get32 p 0 = proto_code MUX_PROTO_TCP
      then Some (decode_tcphdr p hs, drop (hs + sizeof_tcphdr) p) else None)"

definition tcp_segments :: "int \<Rightarrow> (nat \<times> bytes) list \<Rightarrow> (tcphdr \<times> bytes) list" where
  "tcp_segments version out =
     concat (map (\<lambda>(x, p). case decode_tcp_packet version p of None \<Rightarrow> [] | Some s \<Rightarrow> [s]) out)"

definition tcp_sent :: "'a usblink_scheme \<Rightarrow> (tcphdr \<times> bytes) list" where
  "tcp_sent l = tcp_segments (md_version (ul_muxdev l)) (ul_usb_out l)"

definition link_condemned :: "'a usblink_scheme \<Rightarrow> bool" where
  "link_condemned l \<longleftrightarrow> 0 < ul_killed l"

lemma tcp_segments_append [simp]:
  "tcp_segments v (xs @ ys) = tcp_segments v xs @ tcp_segments v ys"
  by (simp add: tcp_segments_def)

lemma tcp_segments_Nil [simp]: "tcp_segments v [] = []"
  by (simp add: tcp_segments_def)

lemma tcp_segments_Cons:
  "tcp_segments v ((x, p) # ys) =
     (case decode_tcp_packet v p of None \<Rightarrow> [] | Some s \<Rightarrow> [s]) @ tcp_segments v ys"
  by (simp add: tcp_segments_def)

lemma decode_tcp_packet_Nil [simp]: "decode_tcp_packet v [] = None"
  by (simp add: decode_tcp_packet_def struct_sizes Let_def)

lemma get32_packet_proto: "get32 (packet_bytes proto data header m) 0 = proto_code proto"
  by (simp add: packet_bytes_def stamp_header_def encode_mux_v1_def encode_mux_v2_def
      field_simps_be Let_def)

lemma decode_tcp_packet_bytes [simp]:
  "decode_tcp_packet (md_version m) (packet_bytes MUX_PROTO_TCP data (Some h) m) = Some (h, data)"
proof -
  let ?p = "packet_bytes MUX_PROTO_TCP data (Some h) m"
  have "decode_tcphdr ?p (mux_header_size (md_version m)) = h"
    and "drop (mux_header_size (md_version m) + sizeof_tcphdr) ?p = data"
    by (simp_all add: packet_bytes_def byte_order)
  then show ?thesis
    by (simp add: decode_tcp_packet_def get32_packet_proto packet_length_def Let_def)
qed

lemma tcp_segments_zlps:
  "map snd zs = (if b then [[]] else []) \<Longrightarrow> tcp_segments v zs = []"
  by (cases zs) (auto simp: tcp_segments_Cons split: if_splits)

lemma send_tcp_sent:
  assumes "send_packet env MUX_PROTO_TCP data (Some h) l = (Inr u, l')"
  shows "tcp_sent l' = tcp_sent l @ [(h, data)]"
  using assms
proof (cases rule: send_packet_cases)
  case sent
  from usb_send_ok [OF sent(3)] usb_send_same [OF sent(3)] show ?thesis
    by (auto simp: tcp_sent_def same_link_def tcp_segments_Cons tcp_segments_zlps)
qed simp_all

lemma send_tcp_failed:
  assumes "send_packet env MUX_PROTO_TCP data (Some h) l = (Inl e, l')"
  shows "tcp_sent l' = tcp_sent l \<or> tcp_sent l' = tcp_sent l @ [(h, data)]"
  using assms
proof (cases rule: send_packet_cases)
  case (failed e' l1)
  from usb_send_err [OF failed(4)] usb_send_same [OF failed(4)] failed(2) show ?thesis
    by (auto simp: tcp_sent_def same_link_def usbdev_kill_def tcp_segments_Cons)
qed simp_all

lemma send_packet_reap:
  "send_packet env proto data header l = (r, l') \<Longrightarrow> ul_reapConnections l' = ul_reapConnections l"
  by (erule send_packet_cases) (auto simp: usbdev_kill_def same_link_def dest!: usb_send_same)

lemma send_packet_more:
  "send_packet env proto data header l = (r, l') \<Longrightarrow> usblink.more l' = usblink.more l"
  by (erule send_packet_cases) (auto simp: usbdev_kill_def same_link_def dest!: usb_send_same)

lemma send_packet_condemned:
  assumes "send_packet env proto data header l = (Inl e, l')"
    and "packet_length (md_version (ul_muxdev l)) data header \<le> USB_MTU"
  shows "link_condemned l'"
  using assms(1)
  by (cases rule: send_packet_cases)
    (use assms(2) in \<open>auto simp: link_condemned_def usbdev_kill_def\<close>)

lemma send_packet_keeps_condemned:
  "send_packet env proto data header l = (r, l') \<Longrightarrow> link_condemned l \<Longrightarrow> link_condemned l'"
  by (erule send_packet_cases)
    (auto simp: usbdev_kill_def link_condemned_def same_link_def dest!: usb_send_same)

interpretation usb: tcp_link "usb_ops env" tcp_sent link_condemned ul_reapConnections
  for env :: libusb_env
proof
  fix data h u e and d d' :: "'a usblink_scheme"
  show "dev_send (usb_ops env) data h d = (Inr u, d') \<Longrightarrow> tcp_sent d' = tcp_sent d @ [(h, data)]"
    by (simp add: usb_ops_def send_tcp_sent)
  show "dev_send (usb_ops env) data h d = (Inl e, d') \<Longrightarrow>
      tcp_sent d' = tcp_sent d \<or> tcp_sent d' = tcp_sent d @ [(h, data)]"
    by (simp add: usb_ops_def send_tcp_failed)
  show "dev_send (usb_ops env) data h d = (Inl e, d') \<Longrightarrow>
      sizeof_mux_header + sizeof_tcphdr + length data \<le> USB_MTU \<Longrightarrow> link_condemned d'"
    by (auto simp: usb_ops_def packet_length_def mux_header_size_def struct_sizes
        elim!: send_packet_condemned)
next
  fix data h r p and d d' :: "'a usblink_scheme"
  show "dev_send (usb_ops env) data h d = (r, d') \<Longrightarrow> ul_reapConnections d' = ul_reapConnections d"
    by (simp add: usb_ops_def send_packet_reap)
  show "dev_send (usb_ops env) data h d = (r, d') \<Longrightarrow> link_condemned d \<Longrightarrow> link_condemned d'"
    by (auto simp: usb_ops_def dest: send_packet_keeps_condemned)
  show "link_condemned (dev_close (usb_ops env) p d) = link_condemned d"
    by (simp add: usb_ops_def closeConnection_def link_condemned_def)
  show "tcp_sent (dev_close (usb_ops env) p d) = tcp_sent d"
    by (simp add: usb_ops_def closeConnection_def tcp_sent_def)
  show "ul_reapConnections (dev_close (usb_ops env) p d) = ul_reapConnections d @ [p]"
    by (simp add: usb_ops_def closeConnection_def)
qed

section \<open>Sequence numbers and transfer bookkeeping\<close>

lemma send_packet_muxdev:
  assumes "send_packet env proto data header l = (r, l')"
  shows "ul_muxdev l' \<in> {ul_muxdev l,
    snd (stamp_header proto (packet_length (md_version (ul_muxdev l)) data header) (ul_muxdev l))}"
  using assms
  by (cases rule: send_packet_cases) (auto simp: usbdev_kill_def same_link_def dest!: usb_send_same)

lemma send_packet_muxdev_ok:
  assumes "send_packet env proto data header l = (Inr u, l')"
  shows "ul_muxdev l' =
    snd (stamp_header proto (packet_length (md_version (ul_muxdev l)) data header) (ul_muxdev l))"
  using assms by (cases rule: send_packet_cases) (auto simp: same_link_def dest!: usb_send_same)

text \<open>A run of TCP packets, as a connection sends them one after the other.\<close>

fun send_run :: "libusb_env \<Rightarrow> (bytes \<times> tcphdr) list \<Rightarrow> ('a usblink_scheme, unit) act" where
  "send_run env [] l = (Inr (), l)"
| "send_run env ((data, h) # ps) l =
     thenE (send_packet env MUX_PROTO_TCP data (Some h)) (\<lambda>_. send_run env ps) l"

definition tx_seqs :: "(nat \<times> bytes) list \<Rightarrow> u16 list" where
  "tx_seqs out = map (\<lambda>p. h2_tx_seq (decode_mux_v2 p)) (filter (\<lambda>p. p \<noteq> []) (map snd out))"

lemma tx_seqs_append [simp]: "tx_seqs (xs @ ys) = tx_seqs xs @ tx_seqs ys"
  by (simp add: tx_seqs_def)

lemma send_packet_tx_seqs:
  assumes "send_packet env MUX_PROTO_TCP data (Some h) l = (Inr u, l')"
    and "2 \<le> md_version (ul_muxdev l)"
  shows "tx_seqs (ul_usb_out l') = tx_seqs (ul_usb_out l) @ [md_tx_seq (ul_muxdev l)]
    \<and> md_tx_seq (ul_muxdev l') = md_tx_seq (ul_muxdev l) + 1
    \<and> md_version (ul_muxdev l') = md_version (ul_muxdev l)"
  using assms(1)
proof (cases rule: send_packet_cases)
  case sent
  let ?p = "packet_bytes MUX_PROTO_TCP data (Some h) (ul_muxdev l)"
  have "h2_tx_seq (decode_mux_v2 ?p) = md_tx_seq (ul_muxdev l)"
    using assms(2) by (simp add: packet_bytes_def stamp_header_def byte_order Let_def)
  moreover have "?p \<noteq> []"
    by (simp add: packet_bytes_def encode_tcphdr_def)
  ultimately have "tx_seqs (ul_usb_out l') = tx_seqs (ul_usb_out l) @ [md_tx_seq (ul_muxdev l)]"
    using usb_send_ok [OF sent(3)] by (auto simp: tx_seqs_def)
  then show ?thesis
    using send_packet_muxdev_ok [OF assms(1)] assms(2) by (simp add: stamp_header_def Let_def)
qed simp_all

text \<open>
  C5: on a version 2 link the packets of a run carry consecutive transmit sequence numbers, counting
  on from the link's counter and wrapping at 16 bits; zero length transfers carry none.
\<close>

theorem tx_seq_consecutive:
  assumes "send_run env ps l = (Inr u, l')" and "2 \<le> md_version (ul_muxdev l)"
  shows "tx_seqs (ul_usb_out l') =
    tx_seqs (ul_usb_out l) @ map (\<lambda>k. md_tx_seq (ul_muxdev l) + of_nat k) [0..<length ps]"
  using assms
proof (induction env ps l rule: send_run.induct)
  case (1 env l)
  then show ?case by simp
next
  case (2 env data h ps l)
  from 2(2) obtain l1 where s: "send_packet env MUX_PROTO_TCP data (Some h) l = (Inr (), l1)"
    and rest: "send_run env ps l1 = (Inr u, l')"
    by (auto elim: thenE_cases)
  note step = send_packet_tx_seqs [OF s 2(3)]
  then have "tx_seqs (ul_usb_out l') =
      tx_seqs (ul_usb_out l1) @ map (\<lambda>k. md_tx_seq (ul_muxdev l1) + of_nat k) [0..<length ps]"
    using 2(1) rest 2(3) s by (metis)
  then show ?case
    using step by (simp add: upt_conv_Cons map_Suc_upt [symmetric] ac_simps del: upt_Suc)
qed

text \<open>
  The transfers the device holds are transfers libusb accepted and has not called back: a transfer
  whose submission failed is never in the set. Every accepted transfer has a pointer of its own.
\<close>

definition link_ok :: "'a usblink_scheme \<Rightarrow> bool" where
  "link_ok l \<longleftrightarrow> 0 < ul_wMaxPacketSize l \<and> ul_tx_xfers l \<subseteq> fst ` set (ul_usb_out l)
     \<and> distinct (map fst (ul_usb_out l)) \<and> (\<forall>p \<in> set (ul_usb_out l). fst p < ul_next_xfer l)"

lemma submit_transfer_link_ok:
  assumes "submit_transfer env buf l = (r, l')" and "link_ok l"
  shows "link_ok l'"
proof -
  have fresh: "ul_next_xfer l \<notin> fst ` set (ul_usb_out l)"
    using assms(2) by (auto simp: link_ok_def)
  with assms show ?thesis
    by (cases r) (fastforce simp: link_ok_def submit_transfer_def Let_def less_Suc_eq split: if_splits)+
qed

lemma usb_send_link_ok: "usb_send env buf l = (r, l') \<Longrightarrow> link_ok l \<Longrightarrow> link_ok l'"
  by (auto simp: usb_send_def thenE_def split: if_splits prod.splits sum.splits
      dest: submit_transfer_link_ok)

lemma link_ok_frame [simp]:
  "link_ok (l\<lparr>ul_muxdev := m\<rparr>) = link_ok l"
  "link_ok (l\<lparr>ul_killed := k\<rparr>) = link_ok l"
  "link_ok (l\<lparr>ul_reapConnections := ps\<rparr>) = link_ok l"
  by (simp_all add: link_ok_def)

lemma send_packet_link_ok:
  "send_packet env proto data header l = (r, l') \<Longrightarrow> link_ok l \<Longrightarrow> link_ok l'"
  by (erule send_packet_cases) (auto simp: usbdev_kill_def dest!: usb_send_link_ok)

lemma tx_callback_link_ok: "link_ok l \<Longrightarrow> link_ok (tx_callback xfer status l)"
  by (auto simp: tx_callback_def link_ok_def usbdev_kill_def Let_def)

text \<open>The life of a link: packets sent and transfers called back, in any order.\<close>

datatype link_event =
    Send mux_protocol bytes "tcphdr option"
  | Completed nat libusb_transfer_status
  | Close u16

fun link_step :: "libusb_env \<Rightarrow> link_event \<Rightarrow> 'a usblink_scheme \<Rightarrow> 'a usblink_scheme" where
  "link_step env (Send proto data header) l = snd (send_packet env proto data header l)"
| "link_step env (Completed xfer status) l = tx_callback xfer status l"
| "link_step env (Close sport) l = closeConnection sport l"

lemma link_step_ok: "link_ok l \<Longrightarrow> link_ok (link_step env ev l)"
proof (cases ev)
  case (Send proto data header)
  moreover assume "link_ok l"
  ultimately show ?thesis
    by (cases "send_packet env proto data header l") (auto dest: send_packet_link_ok)
qed (auto simp: tx_callback_link_ok closeConnection_def)

text \<open>
  After any history of sends, completions and closes, successful or not, the transfers the device
  still holds are exactly accounted for, as \<open>link_ok\<close> says; what was ever put on the bus stays there.
\<close>

theorem link_history_ok:
  assumes "link_ok l"
  shows "link_ok (fold (link_step env) evs l)"
  using assms by (induction evs arbitrary: l) (auto intro: link_step_ok)

section \<open>Concrete runs\<close>

text \<open>A libusb that accepts everything, a version 2 link, and the facts that evaluate a send on them.\<close>

definition ex_env :: libusb_env where
  "ex_env = \<lparr>lib_alloc = (\<lambda>_. True), lib_submit = (\<lambda>_. 0)\<rparr>"

definition ex_link :: usblink where
  "ex_link = \<lparr>ul_muxdev = \<lparr>md_version = 2, md_pktbuf = [], md_pktlen = 0, md_tx_seq = 7, md_rx_seq = 3\<rparr>,
     ul_wMaxPacketSize = 512, ul_tx_xfers = {}, ul_next_xfer = 0, ul_usb_out = [],
     ul_reapConnections = [], ul_killed = 0\<rparr>"

lemmas send_packet_eval = send_packet_def packet_length_def mux_header_size_def struct_sizes usb_limits
  usb_send_def submit_transfer_def stamp_header_def thenE_def INT_MAX_def encode_mux_v2_def
  encode_mux_v1_def encode_tcphdr_def be32_def be16_def Let_def

lemma send_packet_wire_witness:
  "\<exists>x pkt zs. ul_usb_out (snd (send_packet ex_env MUX_PROTO_TCP [1, 2] (Some tcphdr_zero) ex_link))
      = (x, pkt) # zs \<and> length pkt \<le> USB_MTU \<and> h2_tx_seq (decode_mux_v2 pkt) = 7
    \<and> decode_tcphdr pkt 16 = tcphdr_zero \<and> drop 36 pkt = [1, 2]"
proof -
  have "fst (send_packet ex_env MUX_PROTO_TCP [1, 2] (Some tcphdr_zero) ex_link) = Inr ()"
    by (simp add: send_packet_eval ex_env_def ex_link_def)
  from send_packet_wire [OF run_ok [OF this]] show ?thesis
    by (auto simp: ex_link_def mux_header_size_def struct_sizes Let_def)
qed

lemma tx_seq_consecutive_witness:
  "tx_seqs (ul_usb_out (snd (send_run ex_env [([1], tcphdr_zero), ([], tcphdr_zero)] ex_link))) = [7, 8]"
proof -
  have "fst (send_run ex_env [([1], tcphdr_zero), ([], tcphdr_zero)] ex_link) = Inr ()"
    by (simp add: send_packet_eval ex_env_def ex_link_def)
  from tx_seq_consecutive [OF run_ok [OF this]] show ?thesis
    by (simp add: ex_link_def tx_seqs_def)
qed

lemma link_history_ok_witness:
  "link_ok (fold (link_step ex_env)
     [Send MUX_PROTO_SETUP [7] None, Completed 0 TRANSFER_ERROR, Close 5] ex_link)"
  by (rule link_history_ok) (simp add: link_ok_def ex_link_def)

end
