(* ===== verification/TCP_Conn.thy ===== *)
theory TCP_Conn
  imports USB_Link
begin

text \<open>
  One TCP connection, \<^verbatim>\<open>TCP.hpp\<close> and \<^verbatim>\<open>TCP.cpp\<close>: its state and every section of its methods between
  two points where the code takes or gives up a lock or waits for an event. A method that waits is a
  machine over program counters; a section runs without interference, and what other threads do
  happens between two sections (theory \<^verbatim>\<open>TCP_System\<close>). The device is reached through the operations
  of \<^verbatim>\<open>Link_Interface\<close>; the client's socket is a parameter.
\<close>

section \<open>State\<close>

datatype mux_conn_state = CONN_CONNECTING | CONN_CONNECTED | CONN_REFUSED | CONN_DYING

record tcp_sender_state =
  stx_seq :: u32
  stx_seqAcked :: u32
  stx_ack :: u32
  stx_acked :: u32
  stx_inWin :: u32
  stx_win :: u32
  stx_pktForwarded :: u32

text \<open>
  \<open>tc_fd\<close> is \<open>_pfd.fd\<close>; \<open>tc_lockStx\<close> says that a thread left \<open>_lockStx\<close> locked for good;
  \<open>tc_payloadBuf\<close> is the memory of the ring buffer, by offset; \<open>tc_to_client\<close> is what the client's
  socket has taken; \<open>tc_running\<close> says that \<open>startLoop\<close> was called.
\<close>

record tcp =
  tc_state :: mux_conn_state
  tc_stx :: tcp_sender_state
  tc_sPort :: u16
  tc_dPort :: u16
  tc_fd :: int
  tc_lockStx :: bool
  tc_payloadBuf :: "nat \<Rightarrow> u8"
  tc_to_client :: bytes
  tc_running :: bool

definition TCP_bufsize :: nat where "TCP_bufsize = 0x80000"

definition TCP_MTU :: nat where
  "TCP_MTU = (USB_MTU - sizeof_tcphdr - sizeof_mux_header) AND 0xff00"

lemma TCP_MTU_eq: "TCP_MTU = 48896"
  by (simp add: TCP_MTU_def usb_limits struct_sizes)

definition new_tcp :: "(nat \<Rightarrow> u8) \<Rightarrow> u32 \<Rightarrow> u16 \<Rightarrow> u16 \<Rightarrow> tcp" where
  "new_tcp mem rnd sPort dPort = \<lparr>tc_state = CONN_CONNECTING,
     tc_stx = \<lparr>stx_seq = rnd, stx_seqAcked = rnd, stx_ack = 0, stx_acked = 0, stx_inWin = 0,
               stx_win = 0x80000, stx_pktForwarded = 0\<rparr>,
     tc_sPort = sPort, tc_dPort = dPort, tc_fd = -1, tc_lockStx = False, tc_payloadBuf = mem,
     tc_to_client = [], tc_running = False\<rparr>"

text \<open>The macro \<open>unacked\<close>, with its casts.\<close>

definition unacked :: "tcp_sender_state \<Rightarrow> u64" where
  "unacked s = (if stx_seqAcked s \<le> stx_seq s then ucast (stx_seq s - stx_seqAcked s)
     else ucast (ucast (0x100000000 + ucast (stx_seq s) - ucast (stx_seqAcked s) :: u64) :: u32))"

section \<open>Sending headers\<close>

definition upd_stx :: "(tcp_sender_state \<Rightarrow> tcp_sender_state) \<Rightarrow> tcp \<Rightarrow> tcp" where
  "upd_stx f t = t\<lparr>tc_stx := f (tc_stx t)\<rparr>"

definition tcp_header :: "tcp \<Rightarrow> u8 \<Rightarrow> u32 \<Rightarrow> tcphdr" where
  "tcp_header t flags seq = tcphdr_zero\<lparr>th_sport := tc_sPort t, th_dport := tc_dPort t,
     th_seq := seq, th_ack := stx_ack (tc_stx t), th_flags := flags,
     th_off := of_nat (sizeof_tcphdr div 4),
     th_win := ucast (drop_bit 8 (stx_win (tc_stx t)))\<rparr>"

definition tcp_emit :: "'d tcp_dev_ops \<Rightarrow> bytes \<Rightarrow> tcphdr \<Rightarrow> (tcp \<times> 'd, unit) act" where
  "tcp_emit ops data h = (\<lambda>(t, d). case dev_send ops data h d of (r, d') \<Rightarrow> (r, (t, d')))"

definition send_tcp :: "'d tcp_dev_ops \<Rightarrow> u8 \<Rightarrow> (tcp \<times> 'd, unit) act" where
  "send_tcp ops flags = (\<lambda>(t, d).
     let h = tcp_header t flags (stx_seq (tc_stx t));
         t' = upd_stx (\<lambda>s. s\<lparr>stx_acked := stx_ack s\<rparr>) t
     in tcp_emit ops [] h (t', d))"

definition send_ack_nolock :: "'d tcp_dev_ops \<Rightarrow> (tcp \<times> 'd, unit) act" where
  "send_ack_nolock ops = (\<lambda>(t, d).
     if stx_acked (tc_stx t) \<noteq> stx_ack (tc_stx t)
     then let h = tcp_header t TH_ACK (stx_seq (tc_stx t));
              t' = upd_stx (\<lambda>s. s\<lparr>stx_acked := stx_ack s\<rparr>) t
          in tcp_emit ops [] h (t', d)
     else (Inr (), (t, d)))"

definition send_rst_nolock :: "'d tcp_dev_ops \<Rightarrow> (tcp \<times> 'd, unit) act" where
  "send_rst_nolock ops = (\<lambda>(t, d).
     tcp_emit ops [] (tcp_header t TH_RST (stx_seq (tc_stx t))) (t, d))"

definition send_rst :: "'d tcp_dev_ops \<Rightarrow> (tcp \<times> 'd, unit) act" where
  "send_rst ops = send_rst_nolock ops"

definition send_fin :: "'d tcp_dev_ops \<Rightarrow> (tcp \<times> 'd, unit) act" where
  "send_fin ops = (\<lambda>(t, d).
     tcp_emit ops [] (tcp_header t TH_RST (stx_seq (tc_stx t))) (t, d))"

text \<open>\<open>TCP::send_RST\<close>: the answer to a segment no connection claims.\<close>

definition send_RST :: "'d tcp_dev_ops \<Rightarrow> tcphdr \<Rightarrow> ('d, unit) act" where
  "send_RST ops hdr =
     dev_send ops [] (tcphdr_zero\<lparr>th_sport := th_dport hdr, th_dport := th_sport hdr,
       th_seq := th_ack hdr, th_ack := th_seq hdr, th_flags := TH_RST,
       th_off := of_nat (sizeof_tcphdr div 4), th_win := th_win hdr\<rparr>)"

definition tcp_kill :: "'d tcp_dev_ops \<Rightarrow> tcp \<times> 'd \<Rightarrow> tcp \<times> 'd" where
  "tcp_kill ops = (\<lambda>(t, d). (t, dev_close ops (tc_sPort t) d))"

definition tcp_deconstruct :: "tcp \<Rightarrow> tcp" where
  "tcp_deconstruct t = t\<lparr>tc_state := CONN_DYING\<rparr>"

section \<open>Sending data\<close>

text \<open>
  \<open>send_data\<close>: \<open>SD_retry\<close> is the label \<open>retry\<close> (the fast path), \<open>SD_slow\<close> the section after it,
  \<open>SD_wait\<close> the return from \<open>_canSendEvent.waitForEvent\<close>. A step goes on at another counter, returns
  the number of bytes sent, or throws. A throw out of \<open>send_packet\<close> happens between \<open>_lockStx.lock()\<close>
  and \<open>_lockStx.unlock()\<close>, which no destructor makes up for.
\<close>

datatype sd_pc = SD_retry | SD_slow | SD_wait

datatype sd_next = SD_goto sd_pc | SD_return nat

definition sd_transmit :: "'d tcp_dev_ops \<Rightarrow> bytes \<Rightarrow> nat \<Rightarrow> (tcp \<times> 'd, sd_next) act" where
  "sd_transmit ops buf len = (\<lambda>(t, d).
     let len' = (if len > TCP_MTU then TCP_MTU else len);
         h = tcp_header t TH_ACK (stx_seq (tc_stx t));
         t' = upd_stx (\<lambda>s. s\<lparr>stx_acked := stx_ack s, stx_seq := stx_seq s + of_nat len'\<rparr>) t
     in case dev_send ops (take len' buf) h d of
          (Inl e, d') \<Rightarrow> (Inl e, (t'\<lparr>tc_lockStx := True\<rparr>, d'))
        | (Inr u, d') \<Rightarrow> (Inr (SD_return len'), (t', d')))"

definition rembytes :: "tcp_sender_state \<Rightarrow> int" where
  "rembytes s = uint (stx_inWin s) - uint (unacked s)"

fun send_data_step :: "'d tcp_dev_ops \<Rightarrow> bytes \<Rightarrow> sd_pc \<Rightarrow> (tcp \<times> 'd, sd_next) act" where
  "send_data_step ops buf SD_retry (t, d) =
     (if length buf = 0 then (Inr (SD_return 0), (t, d))
      else if unat (unacked (tc_stx t)) + length buf > unat (stx_inWin (tc_stx t))
      then (Inr (SD_goto SD_slow), (t, d))
      else sd_transmit ops buf (length buf) (t, d))"
| "send_data_step ops buf SD_slow (t, d) =
     (let rem = rembytes (tc_stx t) in
      if rem \<le> 0 then (Inr (SD_goto SD_wait), (t, d))
      else sd_transmit ops buf (if rem > int (length buf) then length buf else nat rem) (t, d))"
| "send_data_step ops buf SD_wait (t, d) =
     (if tc_state t = CONN_CONNECTED then (Inr (SD_goto SD_retry), (t, d))
      else (Inl Not_connected, (t, d)))"

definition ring_offset :: "u32 \<Rightarrow> nat" where
  "ring_offset seq = (unat seq + TCP_bufsize) mod TCP_bufsize"

definition flush_data :: "'d tcp_dev_ops \<Rightarrow> (tcp \<times> 'd, unit) act" where
  "flush_data ops = (\<lambda>(t, d).
     let lseqAck = ring_offset (stx_seqAcked (tc_stx t));
         lseq = ring_offset (stx_seq (tc_stx t));
         buflen = (if lseqAck \<le> lseq then lseq - lseqAck else TCP_bufsize - lseqAck);
         buflen' = (if buflen > TCP_MTU then TCP_MTU else buflen)
     in if buflen' = 0 then (Inr (), (t, d))
        else tcp_emit ops (map (tc_payloadBuf t) [lseqAck ..< lseqAck + buflen'])
               (tcp_header t (TH_ACK OR TH_FIN) (stx_seqAcked (tc_stx t))) (t, d))"

section \<open>Receiving a segment\<close>

text \<open>
  \<open>handle_input\<close>: \<open>HI_enter\<close> is the section under \<open>_lockStx\<close> up to the first wait, \<open>HI_ackwait\<close> the
  return from \<open>_canSendEvent.waitForEvent\<close>, \<open>HI_acklock\<close> the loop test after the lock is taken
  again, \<open>HI_payload\<close> the section under \<open>_lockClientSend\<close> and \<open>HI_paywait\<close> the return from
  \<open>_canClientSendEvent.waitForEvent\<close>. \<open>members\<close> is the number of threads waiting on
  \<open>_canSendEvent\<close>; \<open>sock fd taken data\<close> is the result of \<open>send(fd, data, len, 0)\<close> on the client's
  socket after it took the bytes \<open>taken\<close>.
\<close>

datatype hi_pc = HI_enter | HI_ackwait | HI_acklock | HI_payload | HI_paywait | HI_done

type_synonym client_sock = "int \<Rightarrow> bytes \<Rightarrow> bytes \<Rightarrow> int"

definition scaled_window :: "tcphdr \<Rightarrow> u32" where
  "scaled_window h = push_bit 8 (ucast (th_win h))"

definition payload_len :: "bytes \<Rightarrow> u32" where
  "payload_len payload = of_nat (length payload)"

definition hi_handshake :: "'d tcp_dev_ops \<Rightarrow> tcphdr \<Rightarrow> (tcp \<times> 'd, hi_pc) act" where
  "hi_handshake ops hdr = (\<lambda>(t, d).
     if th_flags hdr = (TH_SYN OR TH_ACK)
     then let t1 = upd_stx (\<lambda>s. s\<lparr>stx_seq := stx_seq s + 1, stx_ack := th_seq hdr + 1,
                stx_inWin := scaled_window hdr, stx_pktForwarded := th_seq hdr + 1\<rparr>) t
          in (case send_ack_nolock ops (t1, d) of
                (Inl e, s') \<Rightarrow> (Inl e, s')
              | (Inr u, (t2, d2)) \<Rightarrow> (Inr HI_payload, (t2\<lparr>tc_state := CONN_CONNECTED\<rparr>, d2)))
     else if th_flags hdr AND TH_RST = 0 then (Inl Unexpected_while_connecting, (t, d))
     else (Inr HI_payload, tcp_kill ops (t\<lparr>tc_state := CONN_REFUSED\<rparr>, d)))"

definition hi_ack_section ::
    "'d tcp_dev_ops \<Rightarrow> nat \<Rightarrow> tcphdr \<Rightarrow> bytes \<Rightarrow> (tcp \<times> 'd, hi_pc) act" where
  "hi_ack_section ops members hdr payload = (\<lambda>(t, d).
     if stx_ack (tc_stx t) \<noteq> th_seq hdr then (Inr HI_ackwait, (t, d))
     else
       let t1 = upd_stx (\<lambda>s. s\<lparr>stx_inWin := scaled_window hdr, stx_seqAcked := th_ack hdr,
              stx_ack := stx_ack s + payload_len payload\<rparr>) t
       in if payload_len payload \<noteq> 0 \<and> members = 0
          then thenE (send_ack_nolock ops) (\<lambda>_. okE HI_payload) (t1, d)
          else (Inr HI_payload, (t1, d)))"

definition hi_forward ::
    "'d tcp_dev_ops \<Rightarrow> client_sock \<Rightarrow> bytes \<Rightarrow> (tcp \<times> 'd, hi_pc) act" where
  "hi_forward ops sock payload = (\<lambda>(t, d).
     let didSend = sock (tc_fd t) (tc_to_client t) payload;
         t1 = t\<lparr>tc_to_client := tc_to_client t @ take (nat didSend) payload\<rparr>;
         (t2, d2) = (if didSend \<noteq> int (length payload) then tcp_kill ops (t1, d) else (t1, d))
     in (Inr HI_done,
         (upd_stx (\<lambda>s. s\<lparr>stx_pktForwarded := stx_pktForwarded s + payload_len payload\<rparr>) t2, d2)))"

fun handle_input_step ::
    "'d tcp_dev_ops \<Rightarrow> client_sock \<Rightarrow> nat \<Rightarrow> tcphdr \<Rightarrow> bytes \<Rightarrow> hi_pc \<Rightarrow> (tcp \<times> 'd, hi_pc) act" where
  "handle_input_step ops sock members hdr payload HI_enter (t, d) =
     (case tc_state t of
        CONN_CONNECTING \<Rightarrow> hi_handshake ops hdr (t, d)
      | CONN_CONNECTED \<Rightarrow>
          if th_flags hdr = TH_ACK then hi_ack_section ops members hdr payload (t, d)
          else if th_flags hdr = TH_RST then (Inr HI_done, tcp_kill ops (t, d))
          else (Inr HI_payload, (t, d))
      | CONN_REFUSED \<Rightarrow> (Inr HI_done, (t, d))
      | CONN_DYING \<Rightarrow> (Inr HI_done, (t, d)))"
| "handle_input_step ops sock members hdr payload HI_ackwait (t, d) =
     (if tc_state t \<noteq> CONN_CONNECTED then (Inr HI_done, (t, d)) else (Inr HI_acklock, (t, d)))"
| "handle_input_step ops sock members hdr payload HI_acklock (t, d) =
     hi_ack_section ops members hdr payload (t, d)"
| "handle_input_step ops sock members hdr payload HI_payload (t, d) =
     (if payload_len payload = 0 then (Inr HI_done, (t, d))
      else if th_seq hdr \<noteq> stx_pktForwarded (tc_stx t) then (Inr HI_paywait, (t, d))
      else if tc_state t \<noteq> CONN_CONNECTED then (Inr HI_done, (t, d))
      else hi_forward ops sock payload (t, d))"
| "handle_input_step ops sock members hdr payload HI_paywait (t, d) =
     (if tc_state t \<noteq> CONN_CONNECTED then (Inr HI_done, (t, d)) else (Inr HI_payload, (t, d)))"
| "handle_input_step ops sock members hdr payload HI_done (t, d) = (Inr HI_done, (t, d))"

section \<open>Connecting\<close>

text \<open>
  \<open>connect\<close> uses the client for two things: the reply \<open>send_result(_connectTag, RESULT_OK)\<close> and the
  hand-over of its file descriptor. \<open>CN_check\<close> is the return from \<open>_connStateDidChange.waitForEvent\<close>.
\<close>

record 'c client_ops =
  cl_result_ok :: "('c, unit) act"
  cl_take_fd :: "'c \<Rightarrow> int \<times> 'c"

datatype cn_pc = CN_start | CN_check | CN_result | CN_handoff | CN_done

fun connect_step ::
    "'d tcp_dev_ops \<Rightarrow> 'c client_ops \<Rightarrow> cn_pc \<Rightarrow> (tcp \<times> 'd \<times> 'c, cn_pc) act" where
  "connect_step ops cops CN_start (t, d, c) =
     (case send_tcp ops TH_SYN (t, d) of
        (Inl e, (t', d')) \<Rightarrow> (Inl e, (t', d', c))
      | (Inr u, (t', d')) \<Rightarrow> (Inr CN_check, (t', d', c)))"
| "connect_step ops cops CN_check (t, d, c) =
     (if tc_state t = CONN_CONNECTED then (Inr CN_result, (t, d, c))
      else (Inl Connect_failed, (t, d, c)))"
| "connect_step ops cops CN_result (t, d, c) =
     (case cl_result_ok cops c of
        (Inl e, c') \<Rightarrow> (Inl e, (t, d, c'))
      | (Inr u, c') \<Rightarrow> (Inr CN_handoff, (t, d, c')))"
| "connect_step ops cops CN_handoff (t, d, c) =
     (case cl_take_fd cops c of
        (fd, c') \<Rightarrow> (Inr CN_done, (t\<lparr>tc_fd := fd, tc_running := True\<rparr>, d, c')))"
| "connect_step ops cops CN_done (t, d, c) = (Inr CN_done, (t, d, c))"

section \<open>The client's side: the event loop\<close>

text \<open>
  \<open>loopEvent\<close>: \<open>LE_start\<close> computes the free region of the ring buffer, \<open>LE_poll\<close> polls the socket,
  \<open>LE_recv\<close> reads from it into the buffer, \<open>LE_send\<close> is the loop that hands the bytes read to
  \<open>send_data\<close>, \<open>LE_after\<close> the end of the method. \<open>LE_return b\<close> is its result. The poll and receive
  results are inputs. A receive that writes past the buffer is a \<open>Trap\<close>.
\<close>

definition POLLIN :: u16 where "POLLIN = 0x01"
definition POLLHUP :: u16 where "POLLHUP = 0x10"

datatype le_pc =
    LE_start
  | LE_poll nat nat
  | LE_recv bool nat nat
  | LE_send bool nat nat nat sd_pc
  | LE_after bool
  | LE_return bool

datatype le_input = In_none | In_poll "u16 option" | In_recv "bytes option"

definition free_region :: "tcp_sender_state \<Rightarrow> nat \<times> nat" where
  "free_region s =
     (let lseqAck = ring_offset (stx_seqAcked s); lseq = ring_offset (stx_seq s)
      in (lseq, if lseqAck \<le> lseq then TCP_bufsize - lseq else lseqAck - lseq))"

definition write_mem :: "(nat \<Rightarrow> u8) \<Rightarrow> nat \<Rightarrow> bytes \<Rightarrow> nat \<Rightarrow> u8" where
  "write_mem m off bs i = (if off \<le> i \<and> i < off + length bs then bs ! (i - off) else m i)"

fun loopEvent_step :: "'d tcp_dev_ops \<Rightarrow> le_pc \<Rightarrow> le_input \<Rightarrow> (tcp \<times> 'd, le_pc) act" where
  "loopEvent_step ops LE_start inp (t, d) =
     (let (bufstart, maxRCV) = free_region (tc_stx t) in (Inr (LE_poll bufstart maxRCV), (t, d)))"
| "loopEvent_step ops (LE_poll bufstart maxRCV) inp (t, d) =
     (if tc_fd t = -1 then (Inl Bad_pollfd, (t, d))
      else case inp of
        In_poll (Some revents) \<Rightarrow>
          if revents AND NOT (POLLIN OR POLLHUP) \<noteq> 0
          then (Inl Unexpected_revents, tcp_kill ops (t, d))
          else if revents AND POLLIN = 0 then (Inr (LE_return True), (t, d))
          else (Inr (LE_recv (revents AND POLLHUP \<noteq> 0) bufstart maxRCV), (t, d))
      | _ \<Rightarrow> (Inl Poll_failed, (t, d)))"
| "loopEvent_step ops (LE_recv remoteDidClose bufstart maxRCV) inp (t, d) =
     (case inp of
        In_recv (Some data) \<Rightarrow>
          if TCP_bufsize < bufstart + length data then (Inl Trap, (t, d))
          else if data = [] then (Inr (LE_after remoteDidClose), (t, d))
          else (Inr (LE_send remoteDidClose bufstart maxRCV (length data) SD_retry),
                (t\<lparr>tc_payloadBuf := write_mem (tc_payloadBuf t) bufstart data\<rparr>, d))
      | _ \<Rightarrow> (Inl Recv_failed, tcp_kill ops (t, d)))"
| "loopEvent_step ops (LE_send remoteDidClose bufstart maxRCV cnt pc) inp (t, d) =
     (let doSend = (if cnt > TCP_MTU then TCP_MTU else cnt);
          buf = map (tc_payloadBuf t) [bufstart ..< bufstart + doSend]
      in case send_data_step ops buf pc (t, d) of
           (Inl e, s') \<Rightarrow> (Inl e, s')
         | (Inr (SD_goto pc'), s') \<Rightarrow> (Inr (LE_send remoteDidClose bufstart maxRCV cnt pc'), s')
         | (Inr (SD_return didSend), s') \<Rightarrow>
             (Inr (if cnt - didSend > 0
                   then LE_send remoteDidClose (bufstart + didSend) maxRCV (cnt - didSend) SD_retry
                   else if remoteDidClose then LE_recv remoteDidClose (bufstart + didSend) maxRCV
                   else LE_after remoteDidClose), s'))"
| "loopEvent_step ops (LE_after remoteDidClose) inp (t, d) =
     (if remoteDidClose then thenE (send_fin ops) (\<lambda>_. okE (LE_return False)) (t, d)
      else (Inr (LE_return True), (t, d)))"
| "loopEvent_step ops (LE_return b) inp (t, d) = (Inr (LE_return b), (t, d))"

section \<open>Facts\<close>

lemma ring_offset_bound: "ring_offset seq < TCP_bufsize"
  by (simp add: ring_offset_def TCP_bufsize_def)

lemma upd_stx_simps [simp]:
  "tc_stx (upd_stx f t) = f (tc_stx t)" "tc_state (upd_stx f t) = tc_state t"
  "tc_sPort (upd_stx f t) = tc_sPort t" "tc_dPort (upd_stx f t) = tc_dPort t"
  "tc_fd (upd_stx f t) = tc_fd t" "tc_lockStx (upd_stx f t) = tc_lockStx t"
  "tc_payloadBuf (upd_stx f t) = tc_payloadBuf t" "tc_to_client (upd_stx f t) = tc_to_client t"
  "tc_running (upd_stx f t) = tc_running t"
  by (simp_all add: upd_stx_def)

lemma tcp_header_simps [simp]:
  "th_sport (tcp_header t fl q) = tc_sPort t" "th_dport (tcp_header t fl q) = tc_dPort t"
  "th_seq (tcp_header t fl q) = q" "th_ack (tcp_header t fl q) = stx_ack (tc_stx t)"
  "th_flags (tcp_header t fl q) = fl"
  by (simp_all add: tcp_header_def)

lemma truncated_difference:
  "(ucast (0x100000000 + ucast a - ucast b :: u64) :: u32) = a - b"
proof -
  have "(ucast (0x100000000 + ucast a - ucast b :: u64) :: u32)
      = ucast (0x100000000 :: u64) + ucast (ucast a :: u64) - ucast (ucast b :: u64)"
    by (transfer; simp add: take_bit_eq_mod mod_simps)
  moreover have "ucast (ucast x :: u64) = x" for x :: u32
    by (rule bit_word_eqI) (simp add: bit_simps)
  moreover have "(ucast (0x100000000 :: u64) :: u32) = 0"
    by simp
  ultimately show ?thesis by (simp only: add_0)
qed

lemma unacked_eq: "unat (unacked s) = unat (stx_seq s - stx_seqAcked s)"
  by (simp add: unacked_def truncated_difference unsigned_ucast_eq take_bit_eq_mod
      less_imp_le order_less_le_trans [OF unat_lt_u32])

lemma rembytes_eq: "rembytes s = int (unat (stx_inWin s)) - int (unat (unacked s))"
  by (simp only: rembytes_def uint_nat)

lemma unacked_advance:
  assumes "unat (unacked s) + n \<le> unat (stx_inWin s)"
  shows "unat (unacked (s\<lparr>stx_acked := a, stx_seq := stx_seq s + of_nat n\<rparr>)) = unat (unacked s) + n"
proof -
  let ?u = "stx_seq s - stx_seqAcked s"
  have bound: "unat ?u + n < 4294967296"
    using assms unat_lt_u32 [of "stx_inWin s"] by (simp add: unacked_eq)
  then have n: "unat (of_nat n :: u32) = n"
    by (intro unat_of_nat_u32) simp
  have "unat (?u + of_nat n) = unat ?u + n"
    using bound n by (simp add: unat_word_ariths)
  then show ?thesis
    by (simp add: unacked_eq add_diff_eq diff_add_eq)
qed

context tcp_link
begin

lemma tcp_emit_ok:
  "tcp_emit ops data h (t, d) = (Inr u, (t', d')) \<Longrightarrow> t' = t \<and> sent d' = sent d @ [(h, data)]"
  by (auto simp: tcp_emit_def send_ok split: prod.splits)

lemma tcp_emit_any:
  "tcp_emit ops data h (t, d) = (r, (t', d')) \<Longrightarrow>
   t' = t \<and> closing d' = closing d \<and> (\<exists>ex. sent d' = sent d @ ex \<and> ex \<in> {[], [(h, data)]})"
  by (auto simp: tcp_emit_def dest: send_extends send_closing split: prod.splits)

lemma sd_transmit_ok:
  assumes "sd_transmit ops buf len (t, d) = (Inr nx, (t', d'))"
  shows "nx = SD_return (min len TCP_MTU)
    \<and> sent d' = sent d @ [(tcp_header t TH_ACK (stx_seq (tc_stx t)), take (min len TCP_MTU) buf)]
    \<and> t' = upd_stx (\<lambda>s. s\<lparr>stx_acked := stx_ack s, stx_seq := stx_seq s + of_nat (min len TCP_MTU)\<rparr>) t"
proof -
  have "(if len > TCP_MTU then TCP_MTU else len) = min len TCP_MTU"
    by simp
  with assms show ?thesis
    by (auto simp: sd_transmit_def Let_def dest: send_ok split: prod.splits sum.splits)
qed

lemma sd_transmit_err:
  assumes "sd_transmit ops buf len (t, d) = (Inl e, (t', d'))"
  shows "tc_lockStx t'
    \<and> t' = (upd_stx (\<lambda>s. s\<lparr>stx_acked := stx_ack s, stx_seq := stx_seq s + of_nat (min len TCP_MTU)\<rparr>) t)
        \<lparr>tc_lockStx := True\<rparr>
    \<and> condemned d' \<and> closing d' = closing d
    \<and> (\<exists>ex. sent d' = sent d @ ex
        \<and> ex \<in> {[], [(tcp_header t TH_ACK (stx_seq (tc_stx t)), take (min len TCP_MTU) buf)]})"
proof -
  let ?n = "min len TCP_MTU"
  have mtu: "sizeof_mux_header + sizeof_tcphdr + length (take ?n buf) \<le> USB_MTU"
    by (simp add: struct_sizes TCP_MTU_eq usb_limits)
  from assms have run: "dev_send ops (take ?n buf) (tcp_header t TH_ACK (stx_seq (tc_stx t))) d
      = (Inl e, d')"
    and t': "t' = (upd_stx (\<lambda>s. s\<lparr>stx_acked := stx_ack s, stx_seq := stx_seq s + of_nat ?n\<rparr>) t)
        \<lparr>tc_lockStx := True\<rparr>"
    by (auto simp: sd_transmit_def Let_def min_def split: prod.splits sum.splits if_splits)
  with send_err_condemned [OF run mtu] send_extends [OF run] send_closing [OF run] show ?thesis
    by simp
qed

text \<open>Where \<open>send_data\<close> transmits: on the fast path the whole buffer, on the slow one what the window leaves.\<close>

lemma send_data_step_transmits:
  assumes "send_data_step ops buf pc (t, d) = (r, s')" and "buf \<noteq> []"
  obtains (moves) pc' where "r = Inr (SD_goto pc')" "s' = (t, d)"
    | (dead) "r = Inl Not_connected" "s' = (t, d)" "tc_state t \<noteq> CONN_CONNECTED" "pc = SD_wait"
    | (transmits) len where "sd_transmit ops buf len (t, d) = (r, s')" "0 < len" "len \<le> length buf"
        "unat (unacked (tc_stx t)) + len \<le> unat (stx_inWin (tc_stx t))" "pc \<noteq> SD_wait"
proof (cases pc)
  case SD_retry
  with assms show thesis
    by (cases "unat (unacked (tc_stx t)) + length buf > unat (stx_inWin (tc_stx t))")
      (auto intro: moves transmits)
next
  case SD_slow
  show thesis
  proof (cases "rembytes (tc_stx t) \<le> 0")
    case True
    with SD_slow assms show thesis by (auto intro: moves)
  next
    case False
    let ?len = "if rembytes (tc_stx t) > int (length buf) then length buf else nat (rembytes (tc_stx t))"
    from False have pos: "0 < rembytes (tc_stx t)" by simp
    have "sd_transmit ops buf ?len (t, d) = (r, s')"
      using SD_slow assms False by (simp add: Let_def)
    moreover have "0 < ?len" "?len \<le> length buf"
      using pos assms(2) by auto
    moreover have "unat (unacked (tc_stx t)) + ?len \<le> unat (stx_inWin (tc_stx t))"
      using pos unfolding rembytes_eq by (split if_split) linarith
    ultimately show thesis using SD_slow by (intro transmits) auto
  qed
next
  case SD_wait
  with assms show thesis by (auto intro: moves dead split: if_splits)
qed

lemma send_data_step_ok:
  assumes "send_data_step ops buf pc (t, d) = (Inr (SD_return n), (t', d'))" and "buf \<noteq> []"
  shows "0 < n \<and> n \<le> length buf \<and> n \<le> TCP_MTU
    \<and> unat (unacked (tc_stx t)) + n \<le> unat (stx_inWin (tc_stx t))
    \<and> unat (unacked (tc_stx t')) = unat (unacked (tc_stx t)) + n
    \<and> sent d' = sent d @ [(tcp_header t TH_ACK (stx_seq (tc_stx t)), take n buf)]
    \<and> t' = upd_stx (\<lambda>s. s\<lparr>stx_acked := stx_ack s, stx_seq := stx_seq s + of_nat n\<rparr>) t"
  using assms
proof (cases rule: send_data_step_transmits)
  case (transmits len)
  have "0 < TCP_MTU" by (simp add: TCP_MTU_eq)
  with sd_transmit_ok [OF transmits(1)] transmits(2-4)
    unacked_advance [of "tc_stx t" "min len TCP_MTU" "stx_ack (tc_stx t)"] show ?thesis
    by auto
qed simp_all

lemma send_data_step_throws:
  assumes "send_data_step ops buf pc (t, d) = (Inl e, (t', d'))" and "buf \<noteq> []"
  shows "(pc = SD_wait \<and> e = Not_connected \<and> t' = t \<and> d' = d)
    \<or> (pc \<noteq> SD_wait \<and> tc_lockStx t' \<and> condemned d')"
  using assms by (cases rule: send_data_step_transmits) (auto dest: sd_transmit_err)

end

text \<open>
  C3: a call of \<open>send_data\<close> that sends never overruns the peer: it sends a non-empty prefix of the buffer
  of at most one maximal segment, the bytes in flight stay within the advertised window, and exactly
  one segment with the right sequence number and the acknowledgement flag goes on the bus.
\<close>

theorem send_data_respects_window:
  fixes d d' :: "'a usblink_scheme"
  assumes "send_data_step (usb_ops env) buf pc (t, d) = (Inr (SD_return n), (t', d'))" and "buf \<noteq> []"
  shows "0 < n \<and> n \<le> length buf \<and> n \<le> TCP_MTU
    \<and> unat (unacked (tc_stx t')) = unat (unacked (tc_stx t)) + n
    \<and> unat (unacked (tc_stx t')) \<le> unat (stx_inWin (tc_stx t))
    \<and> tcp_sent d' = tcp_sent d @ [(tcp_header t TH_ACK (stx_seq (tc_stx t)), take n buf)]
    \<and> stx_seq (tc_stx t') = stx_seq (tc_stx t) + of_nat n"
  using usb.send_data_step_ok [OF assms] by (elim conjE) (simp only: upd_stx_simps, simp)

text \<open>
  A \<open>send_data\<close> that throws because the device did not take the segment leaves \<open>_lockStx\<close> locked;
  only the throw for a connection that is no longer up leaves the connection as it was.
\<close>

theorem send_data_leaks_lock:
  fixes d d' :: "'a usblink_scheme"
  assumes "send_data_step (usb_ops env) buf pc (t, d) = (Inl e, (t', d'))" and "buf \<noteq> []"
    and "pc \<noteq> SD_wait"
  shows "tc_lockStx t' \<and> link_condemned d'"
  using usb.send_data_step_throws [OF assms(1,2)] assms(3) by blast

section \<open>Concrete runs\<close>

definition ex_tcp :: tcp where
  "ex_tcp = (new_tcp (\<lambda>_. 0) 10 5 22)\<lparr>tc_state := CONN_CONNECTED,
     tc_stx := \<lparr>stx_seq = 11, stx_seqAcked = 11, stx_ack = 1, stx_acked = 1, stx_inWin = 2,
       stx_win = 0x80000, stx_pktForwarded = 1\<rparr>\<rparr>"

lemma send_data_respects_window_witness:
  "\<exists>n t' d'. send_data_step (usb_ops ex_env) [1, 2, 3] SD_slow (ex_tcp, ex_link) = (Inr (SD_return n), (t', d'))
    \<and> n = 2 \<and> unat (unacked (tc_stx t')) = unat (unacked (tc_stx ex_tcp)) + n"
proof -
  obtain t' d' where run: "send_data_step (usb_ops ex_env) [1, 2, 3] SD_slow (ex_tcp, ex_link)
      = (Inr (SD_return 2), (t', d'))"
    by (simp add: rembytes_def unacked_def ex_tcp_def new_tcp_def sd_transmit_def usb_ops_def TCP_MTU_eq
       send_packet_eval ex_env_def ex_link_def tcp_header_def tcphdr_zero_def)
  from send_data_respects_window [OF run] show ?thesis using run by auto
qed

definition ex_full :: libusb_env where
  "ex_full = \<lparr>lib_alloc = (\<lambda>_. False), lib_submit = (\<lambda>_. 0)\<rparr>"

lemma send_data_leaks_lock_witness:
  "\<exists>e t' d'. send_data_step (usb_ops ex_full) [1, 2, 3] SD_slow (ex_tcp, ex_link) = (Inl e, (t', d'))
    \<and> tc_lockStx t' \<and> link_condemned d'"
proof -
  obtain t' d' where run: "send_data_step (usb_ops ex_full) [1, 2, 3] SD_slow (ex_tcp, ex_link)
      = (Inl Alloc_transfer_failed, (t', d'))"
    by (simp add: rembytes_def unacked_def ex_tcp_def new_tcp_def sd_transmit_def usb_ops_def TCP_MTU_eq
       send_packet_eval ex_full_def ex_link_def tcp_header_def tcphdr_zero_def)
  from send_data_leaks_lock [OF run] show ?thesis using run by auto
qed

end
