(* ===== verification/TCP_System.thy ===== *)
theory TCP_System
  imports TCP_Conn
begin

text \<open>
  A connection with all its threads: the receivers of the device (\<^verbatim>\<open>USBDevice_receiver.cpp\<close>, one per
  RX loop) inside \<open>handle_input\<close>, the connection's own event loop inside \<open>loopEvent\<close>, the thread inside
  \<open>connect\<close> and the reaper that calls \<open>deconstruct\<close>. A step is one section of one thread; a section
  under \<open>_lockStx\<close> needs that lock to be obtainable. The environment is a device that numbers its
  bytes consecutively, an arbitrary client and arbitrary other traffic.
\<close>

section \<open>The system\<close>

text \<open>
  A receiver is idle, inside \<open>handle_input\<close> on a segment, or gone: an exception ends its loop.
  Segments of the stream carry their number, which only the proofs look at.
\<close>

datatype rx_thread =
    RX_idle
  | RX_busy "nat option" tcphdr bytes hi_pc
  | RX_dead "nat option"

record ('d, 'c) conn_sys =
  cs_tcp :: tcp
  cs_dev :: 'd
  cs_cli :: 'c
  cs_cn :: "cn_pc option"
  cs_snd :: "le_pc option"
  cs_rx :: "nat \<Rightarrow> rx_thread"
  cs_stream :: "bytes list"
  cs_taken :: bytes

text \<open>\<open>cs_stream\<close>: the payloads the device sent so far; \<open>cs_taken\<close>: the bytes read from the client.\<close>

definition init_sys :: "(nat \<Rightarrow> u8) \<Rightarrow> u32 \<Rightarrow> u16 \<Rightarrow> u16 \<Rightarrow> 'd \<Rightarrow> 'c \<Rightarrow> ('d, 'c) conn_sys" where
  "init_sys mem rnd sPort dPort d c = \<lparr>cs_tcp = new_tcp mem rnd sPort dPort, cs_dev = d, cs_cli = c,
     cs_cn = Some CN_start, cs_snd = Some LE_start, cs_rx = (\<lambda>_. RX_idle), cs_stream = [],
     cs_taken = []\<rparr>"

fun rx_after :: "nat option \<Rightarrow> tcphdr \<Rightarrow> bytes \<Rightarrow> hi_pc res \<Rightarrow> rx_thread" where
  "rx_after k hdr p (Inl e) = RX_dead k"
| "rx_after k hdr p (Inr HI_done) = RX_idle"
| "rx_after k hdr p (Inr pc) = RX_busy k hdr p pc"

fun snd_after :: "le_pc res \<Rightarrow> le_pc option" where
  "snd_after (Inl e) = None"
| "snd_after (Inr (LE_return b)) = (if b then Some LE_start else None)"
| "snd_after (Inr pc) = Some pc"

fun rx_takes_lock :: "hi_pc \<Rightarrow> bool" where
  "rx_takes_lock HI_enter = True"
| "rx_takes_lock HI_acklock = True"
| "rx_takes_lock _ = False"

fun le_takes_lock :: "le_pc \<Rightarrow> bool" where
  "le_takes_lock LE_start = True"
| "le_takes_lock (LE_send _ _ _ _ pc) = (pc \<noteq> SD_wait)"
| "le_takes_lock (LE_after b) = b"
| "le_takes_lock _ = False"

fun input_ok :: "le_pc \<Rightarrow> le_input \<Rightarrow> bool" where
  "input_ok (LE_recv hup bufstart maxRCV) (In_recv (Some data)) = (length data \<le> maxRCV)"
| "input_ok _ _ = True"

fun received :: "le_pc \<Rightarrow> le_input \<Rightarrow> bytes" where
  "received (LE_recv hup bufstart maxRCV) (In_recv (Some data)) = data"
| "received _ _ = []"

text \<open>
  What the rest of the program may do to the device between two sections of this connection: it sends
  no segment from this connection's port, takes back no posted close and revives no condemned device.
\<close>

definition own_segments :: "u16 \<Rightarrow> (tcphdr \<times> bytes) list \<Rightarrow> (tcphdr \<times> bytes) list" where
  "own_segments sport segs = filter (\<lambda>(h, p). th_sport h = sport) segs"

definition rely_on ::
    "('d \<Rightarrow> (tcphdr \<times> bytes) list) \<Rightarrow> ('d \<Rightarrow> u16 list) \<Rightarrow> ('d \<Rightarrow> bool) \<Rightarrow> u16 \<Rightarrow> 'd \<Rightarrow> 'd \<Rightarrow> bool" where
  "rely_on sent closing condemned sport d d' \<longleftrightarrow>
     own_segments sport (sent d') = own_segments sport (sent d)
     \<and> set (closing d) \<subseteq> set (closing d') \<and> (condemned d \<longrightarrow> condemned d')"

inductive conn_step ::
    "'d tcp_dev_ops \<Rightarrow> client_sock \<Rightarrow> 'c client_ops \<Rightarrow> ('d \<Rightarrow> 'd \<Rightarrow> bool) \<Rightarrow> u32
     \<Rightarrow> ('d, 'c) conn_sys \<Rightarrow> ('d, 'c) conn_sys \<Rightarrow> bool"
  for ops sock cops rely isn where
  arrive_data: "i < NUM_RX_LOOPS \<Longrightarrow> cs_rx s i = RX_idle \<Longrightarrow> p \<noteq> [] \<Longrightarrow> length p \<le> USB_MRU \<Longrightarrow>
     th_flags hdr = TH_ACK \<Longrightarrow> th_seq hdr = isn + 1 + of_nat (length (concat (cs_stream s))) \<Longrightarrow>
     conn_step ops sock cops rely isn s
       (s\<lparr>cs_rx := (cs_rx s)(i := RX_busy (Some (length (cs_stream s))) hdr p HI_enter),
          cs_stream := cs_stream s @ [p]\<rparr>)"
| arrive_ctl: "i < NUM_RX_LOOPS \<Longrightarrow> cs_rx s i = RX_idle \<Longrightarrow>
     (th_flags hdr = (TH_SYN OR TH_ACK) \<longrightarrow> th_seq hdr = isn) \<Longrightarrow>
     conn_step ops sock cops rely isn s
       (s\<lparr>cs_rx := (cs_rx s)(i := RX_busy None hdr [] HI_enter)\<rparr>)"
| receive: "cs_rx s i = RX_busy k hdr p pc \<Longrightarrow> (rx_takes_lock pc \<longrightarrow> \<not> tc_lockStx (cs_tcp s)) \<Longrightarrow>
     handle_input_step ops sock members hdr p pc (cs_tcp s, cs_dev s) = (r, (t', d')) \<Longrightarrow>
     conn_step ops sock cops rely isn s
       (s\<lparr>cs_tcp := t', cs_dev := d', cs_rx := (cs_rx s)(i := rx_after k hdr p r)\<rparr>)"
| connect: "cs_cn s = Some pc \<Longrightarrow> (pc = CN_start \<longrightarrow> \<not> tc_lockStx (cs_tcp s)) \<Longrightarrow>
     (pc = CN_check \<longrightarrow> tc_state (cs_tcp s) \<noteq> CONN_CONNECTING) \<Longrightarrow>
     connect_step ops cops pc (cs_tcp s, cs_dev s, cs_cli s) = (r, (t', d', c')) \<Longrightarrow>
     conn_step ops sock cops rely isn s
       (s\<lparr>cs_tcp := t', cs_dev := d', cs_cli := c',
          cs_cn := (case r of Inl e \<Rightarrow> None | Inr pc' \<Rightarrow> Some pc')\<rparr>)"
| loop: "cs_snd s = Some pc \<Longrightarrow> tc_running (cs_tcp s) \<Longrightarrow> input_ok pc inp \<Longrightarrow>
     (le_takes_lock pc \<longrightarrow> \<not> tc_lockStx (cs_tcp s)) \<Longrightarrow>
     loopEvent_step ops pc inp (cs_tcp s, cs_dev s) = (r, (t', d')) \<Longrightarrow>
     conn_step ops sock cops rely isn s
       (s\<lparr>cs_tcp := t', cs_dev := d', cs_snd := snd_after r,
          cs_taken := cs_taken s @ received pc inp\<rparr>)"
| reap: "\<not> tc_lockStx (cs_tcp s) \<Longrightarrow>
     conn_step ops sock cops rely isn s (s\<lparr>cs_tcp := tcp_deconstruct (cs_tcp s)\<rparr>)"
| elsewhere: "rely (cs_dev s) d' \<Longrightarrow> conn_step ops sock cops rely isn s (s\<lparr>cs_dev := d'\<rparr>)"

inductive conn_reach ::
    "'d tcp_dev_ops \<Rightarrow> client_sock \<Rightarrow> 'c client_ops \<Rightarrow> ('d \<Rightarrow> 'd \<Rightarrow> bool) \<Rightarrow> u32
     \<Rightarrow> ('d, 'c) conn_sys \<Rightarrow> ('d, 'c) conn_sys \<Rightarrow> bool"
  for ops sock cops rely isn where
  here: "conn_reach ops sock cops rely isn s s"
| more: "conn_reach ops sock cops rely isn s s' \<Longrightarrow> conn_step ops sock cops rely isn s' s'' \<Longrightarrow>
     conn_reach ops sock cops rely isn s s''"

section \<open>The stream to the client\<close>

fun rx_index :: "rx_thread \<Rightarrow> nat option" where
  "rx_index RX_idle = None"
| "rx_index (RX_busy k hdr p pc) = k"
| "rx_index (RX_dead k) = k"

fun before_ack :: "hi_pc \<Rightarrow> bool" where
  "before_ack HI_enter = True"
| "before_ack HI_ackwait = True"
| "before_ack HI_acklock = True"
| "before_ack _ = False"

definition stream_ok :: "bytes list \<Rightarrow> bool" where
  "stream_ok D \<longleftrightarrow> (\<forall>p \<in> set D. p \<noteq> [] \<and> length p \<le> USB_MRU)"

text \<open>What a segment in a receiver is: a piece of the stream at its place, or a segment without data.\<close>

definition job_ok :: "u32 \<Rightarrow> bytes list \<Rightarrow> nat option \<Rightarrow> tcphdr \<Rightarrow> bytes \<Rightarrow> bool" where
  "job_ok isn D k hdr p = (case k of
       None \<Rightarrow> p = [] \<and> (th_flags hdr = (TH_SYN OR TH_ACK) \<longrightarrow> th_seq hdr = isn)
     | Some j \<Rightarrow> j < length D \<and> p = D ! j \<and> th_flags hdr = TH_ACK
         \<and> th_seq hdr = isn + 1 + of_nat (seg_off D j))"

definition slots_ok :: "u32 \<Rightarrow> bytes list \<Rightarrow> (nat \<Rightarrow> rx_thread) \<Rightarrow> bool" where
  "slots_ok isn D rx \<longleftrightarrow>
     (\<forall>i. NUM_RX_LOOPS \<le> i \<longrightarrow> rx i = RX_idle)
     \<and> (\<forall>i k. rx_index (rx i) = Some k \<longrightarrow> k < length D)
     \<and> (\<forall>i j k. rx_index (rx i) = Some k \<longrightarrow> rx_index (rx j) = Some k \<longrightarrow> i = j)
     \<and> (\<forall>i k hdr p pc. rx i = RX_busy k hdr p pc \<longrightarrow> pc \<noteq> HI_done \<and> job_ok isn D k hdr p)"

text \<open>No segment after the first \<open>n\<close> is lost: a receiver holds it.\<close>

definition covered :: "bytes list \<Rightarrow> (nat \<Rightarrow> rx_thread) \<Rightarrow> nat \<Rightarrow> bool" where
  "covered D rx n \<longleftrightarrow> (\<forall>k. n \<le> k \<longrightarrow> k < length D \<longrightarrow> (\<exists>i. rx_index (rx i) = Some k))"

definition phases_ok :: "(nat \<Rightarrow> rx_thread) \<Rightarrow> nat \<Rightarrow> nat \<Rightarrow> bool" where
  "phases_ok rx n a \<longleftrightarrow> (\<forall>i k hdr p pc. rx i = RX_busy (Some k) hdr p pc \<longrightarrow>
     (if before_ack pc then a \<le> k else n \<le> k \<and> k < a))"

definition all_entering :: "(nat \<Rightarrow> rx_thread) \<Rightarrow> bool" where
  "all_entering rx \<longleftrightarrow> (\<forall>i k hdr p pc. rx i = RX_busy (Some k) hdr p pc \<longrightarrow> pc = HI_enter)"

text \<open>\<open>n\<close> segments are forwarded, \<open>a\<close> are acknowledged.\<close>

definition rx_progress :: "u32 \<Rightarrow> bytes list \<Rightarrow> (nat \<Rightarrow> rx_thread) \<Rightarrow> tcp \<Rightarrow> nat \<Rightarrow> nat \<Rightarrow> bool" where
  "rx_progress isn D rx t n a = (case tc_state t of
       CONN_CONNECTING \<Rightarrow> n = 0 \<and> a = 0 \<and> covered D rx 0 \<and> all_entering rx
     | CONN_CONNECTED \<Rightarrow> stx_ack (tc_stx t) = isn + 1 + of_nat (seg_off D a)
         \<and> stx_pktForwarded (tc_stx t) = isn + 1 + of_nat (seg_off D n)
         \<and> covered D rx n \<and> phases_ok rx n a
     | _ \<Rightarrow> True)"

definition rx_inv :: "u32 \<Rightarrow> u16 list \<Rightarrow> bytes list \<Rightarrow> (nat \<Rightarrow> rx_thread) \<Rightarrow> tcp \<Rightarrow> bool" where
  "rx_inv isn closing D rx t \<longleftrightarrow> stream_ok D \<and> slots_ok isn D rx
     \<and> (\<exists>n a. n \<le> a \<and> a \<le> length D
          \<and> (tc_sPort t \<in> set closing \<or> tc_to_client t = concat (take n D))
          \<and> rx_progress isn D rx t n a)"

text \<open>At most as many segments are in flight as there are receivers.\<close>

lemma covered_bound:
  assumes "slots_ok isn D rx" and "covered D rx n"
  shows "length D - n \<le> NUM_RX_LOOPS"
proof -
  have "Some ` {n ..< length D} \<subseteq> (rx_index \<circ> rx) ` {..< NUM_RX_LOOPS}"
  proof
    fix x assume "x \<in> Some ` {n ..< length D}"
    then obtain k where "x = Some k" "n \<le> k" "k < length D" by auto
    with assms(2) obtain i where i: "rx_index (rx i) = x" "x \<noteq> None" by (auto simp: covered_def)
    moreover have "i < NUM_RX_LOOPS"
      using assms(1) i by (metis slots_ok_def not_le rx_index.simps(1))
    ultimately show "x \<in> (rx_index \<circ> rx) ` {..< NUM_RX_LOOPS}" by auto
  qed
  then have "card (Some ` {n ..< length D}) \<le> card ((rx_index \<circ> rx) ` {..< NUM_RX_LOOPS})"
    by (intro card_mono) auto
  also have "\<dots> \<le> NUM_RX_LOOPS"
    using card_image_le [of "{..< NUM_RX_LOOPS}" "rx_index \<circ> rx"] by simp
  finally show ?thesis
    by (simp add: card_image)
qed

text \<open>Within that distance equal sequence numbers mean equal segments.\<close>

lemma same_place:
  assumes "stream_ok D" and "slots_ok isn D rx" and "covered D rx n"
    and "n \<le> j" "j \<le> length D" "n \<le> k" "k \<le> length D"
    and "isn + 1 + of_nat (seg_off D j) = isn + 1 + (of_nat (seg_off D k) :: u32)"
  shows "j = k"
proof -
  have ne: "\<forall>p \<in> set D. p \<noteq> []" and B: "\<forall>p \<in> set D. length p \<le> USB_MRU"
    using assms(1) by (auto simp: stream_ok_def)
  have near: "x = y" if xy: "n \<le> x" "x \<le> y" "y \<le> length D"
    and eq: "(of_nat (seg_off D x) :: u32) = of_nat (seg_off D y)" for x y
  proof -
    have "y - x \<le> NUM_RX_LOOPS"
      using covered_bound [OF assms(2,3)] xy by simp
    then have "(y - x) * USB_MRU \<le> NUM_RX_LOOPS * USB_MRU"
      by (intro mult_le_mono1)
    then have "seg_off D y - seg_off D x < 2 ^ 32"
      using seg_off_span [OF B xy(2,3)] by (simp add: NUM_RX_LOOPS_def usb_limits)
    with eq seg_off_mono [OF ne xy(2,3)] have "seg_off D x = seg_off D y"
      by (intro of_nat_u32_near)
    then show "x = y"
      using seg_off_less [OF ne, of x y] xy by (cases "x = y") auto
  qed
  show ?thesis
    using near [of j k] near [of k j] assms(4-) by (cases "j \<le> k") auto
qed

section \<open>How one receiver's step changes the invariant\<close>

text \<open>The slot of a receiver after a step: the same segment at another counter, gone, or idle.\<close>

definition next_slot :: "nat option \<Rightarrow> tcphdr \<Rightarrow> bytes \<Rightarrow> rx_thread \<Rightarrow> bool" where
  "next_slot k hdr p v \<longleftrightarrow> v = RX_idle \<or> v = RX_dead k \<or> (\<exists>pc. pc \<noteq> HI_done \<and> v = RX_busy k hdr p pc)"

lemma rx_after_next: "next_slot k hdr p (rx_after k hdr p r)"
  by (cases "(k, hdr, p, r)" rule: rx_after.cases) (auto simp: next_slot_def)

lemma slots_ok_upd:
  assumes "slots_ok isn D rx" and "rx i = RX_busy k hdr p pc" and "next_slot k hdr p v"
  shows "slots_ok isn D (rx(i := v))"
proof -
  have i: "\<not> NUM_RX_LOOPS \<le> i" and job: "job_ok isn D k hdr p"
    using assms(1,2) by (auto simp: slots_ok_def)
  have idx: "rx_index v = Some j \<Longrightarrow> k = Some j" for j
    using assms(3) by (auto simp: next_slot_def)
  have old: "rx_index (rx i) = k"
    by (simp add: assms(2))
  from assms(1) have at: "\<And>i. NUM_RX_LOOPS \<le> i \<Longrightarrow> rx i = RX_idle"
    and lt: "\<And>i k. rx_index (rx i) = Some k \<Longrightarrow> k < length D"
    and inj: "\<And>i j k. rx_index (rx i) = Some k \<Longrightarrow> rx_index (rx j) = Some k \<Longrightarrow> i = j"
    and jobs: "\<And>i k hdr p pc. rx i = RX_busy k hdr p pc \<Longrightarrow> pc \<noteq> HI_done \<and> job_ok isn D k hdr p"
    unfolding slots_ok_def by blast+
  show ?thesis
    unfolding slots_ok_def
  proof (intro conjI allI impI)
    fix x :: nat
    assume "NUM_RX_LOOPS \<le> x"
    with i at show "(rx(i := v)) x = RX_idle" by auto
  next
    fix x j
    assume "rx_index ((rx(i := v)) x) = Some j"
    with idx old lt show "j < length D" by (auto split: if_splits)
  next
    fix x y j
    assume "rx_index ((rx(i := v)) x) = Some j" and "rx_index ((rx(i := v)) y) = Some j"
    with idx old inj show "x = y" by (auto split: if_splits)
  next
    fix x k' hdr' p' pc'
    assume "(rx(i := v)) x = RX_busy k' hdr' p' pc'"
    with assms(3) jobs job show "pc' \<noteq> HI_done" and "job_ok isn D k' hdr' p'"
      by (auto simp: next_slot_def split: if_splits)
  qed
qed

lemma covered_keep: "covered D rx n \<Longrightarrow> rx_index v = rx_index (rx i) \<Longrightarrow> covered D (rx(i := v)) n"
  unfolding covered_def by (metis fun_upd_apply)

lemma covered_next:
  assumes "covered D rx n" and "rx_index (rx i) = Some n"
  shows "covered D (rx(i := v)) (Suc n)"
  unfolding covered_def
proof (intro allI impI)
  fix k assume "Suc n \<le> k" "k < length D"
  with assms(1) obtain j where j: "rx_index (rx j) = Some k"
    by (metis covered_def Suc_leD)
  with assms(2) \<open>Suc n \<le> k\<close> have "j \<noteq> i" by auto
  with j show "\<exists>j. rx_index ((rx(i := v)) j) = Some k" by (metis fun_upd_apply)
qed

text \<open>The slot of a receiver whose step left the connection's counters alone.\<close>

definition quiet_slot :: "mux_conn_state \<Rightarrow> nat option \<Rightarrow> tcphdr \<Rightarrow> bytes \<Rightarrow> hi_pc \<Rightarrow> rx_thread \<Rightarrow> bool" where
  "quiet_slot st k hdr p pc v \<longleftrightarrow>
     v = RX_dead k
     \<or> (v = RX_idle \<and> k = None)
     \<or> (\<exists>pc'. v = RX_busy k hdr p pc' \<and> pc' \<noteq> HI_done
          \<and> (k = None \<or> (before_ack pc' = before_ack pc \<and> (st = CONN_CONNECTING \<longrightarrow> pc' = HI_enter))))"

lemma quiet_slot_next: "quiet_slot st k hdr p pc v \<Longrightarrow> next_slot k hdr p v"
  by (auto simp: quiet_slot_def next_slot_def)

lemma quiet_slot_index:
  "quiet_slot st k hdr p pc v \<Longrightarrow> rx i = RX_busy k hdr p pc \<Longrightarrow> rx_index v = rx_index (rx i)"
  by (auto simp: quiet_slot_def)

lemma rx_progress_quiet:
  assumes "rx_progress isn D rx t n a" and "rx i = RX_busy k hdr p pc"
    and "quiet_slot (tc_state t) k hdr p pc v"
    and "tc_state t' = tc_state t"
      "tc_state t = CONN_CONNECTED \<longrightarrow> stx_ack (tc_stx t') = stx_ack (tc_stx t)
        \<and> stx_pktForwarded (tc_stx t') = stx_pktForwarded (tc_stx t)"
  shows "rx_progress isn D (rx(i := v)) t' n a"
proof -
  have cov: "covered D rx m \<Longrightarrow> covered D (rx(i := v)) m" for m
    using covered_keep quiet_slot_index [OF assms(3), of rx i] assms(2) by blast
  have ph: "phases_ok (rx(i := v)) n a" if "phases_ok rx n a"
    unfolding phases_ok_def
  proof (intro allI impI)
    fix x j hdr' p' pc'
    assume x: "(rx(i := v)) x = RX_busy (Some j) hdr' p' pc'"
    show "if before_ack pc' then a \<le> j else n \<le> j \<and> j < a"
    proof (cases "x = i")
      case True
      with x assms(3) have "k = Some j" "before_ack pc' = before_ack pc"
        by (auto simp: quiet_slot_def)
      with that assms(2) show ?thesis by (auto simp: phases_ok_def)
    next
      case False
      with x that show ?thesis by (auto simp: phases_ok_def)
    qed
  qed
  have ent: "all_entering (rx(i := v))" if "all_entering rx" "tc_state t = CONN_CONNECTING"
    using that assms(3) by (auto simp: all_entering_def quiet_slot_def)
  show ?thesis
    using assms(1,4-) cov ph ent by (auto simp: rx_progress_def split: mux_conn_state.splits)
qed

lemma rx_inv_quiet:
  assumes "rx_inv isn C D rx t" and "rx i = RX_busy k hdr p pc"
    and "quiet_slot (tc_state t) k hdr p pc v"
    and "tc_state t' = tc_state t"
      "tc_state t = CONN_CONNECTED \<longrightarrow> stx_ack (tc_stx t') = stx_ack (tc_stx t)
        \<and> stx_pktForwarded (tc_stx t') = stx_pktForwarded (tc_stx t)"
      "tc_to_client t' = tc_to_client t" "tc_sPort t' = tc_sPort t"
    and "set C \<subseteq> set C'"
  shows "rx_inv isn C' D (rx(i := v)) t'"
proof -
  from assms(1) obtain n a where na: "n \<le> a" "a \<le> length D"
    and cl: "tc_sPort t \<in> set C \<or> tc_to_client t = concat (take n D)"
    and pr: "rx_progress isn D rx t n a" and so: "stream_ok D" "slots_ok isn D rx"
    by (auto simp: rx_inv_def)
  have "rx_progress isn D (rx(i := v)) t' n a"
    by (rule rx_progress_quiet [OF pr assms(2,3,4,5)])
  moreover have "tc_sPort t' \<in> set C' \<or> tc_to_client t' = concat (take n D)"
    using cl assms(6-) by auto
  ultimately show ?thesis
    using na so slots_ok_upd [OF so(2) assms(2) quiet_slot_next [OF assms(3)]]
    by (auto simp: rx_inv_def)
qed

text \<open>A connection that is down forwards nothing any more.\<close>

lemma rx_inv_down:
  assumes "rx_inv isn C D rx t" and "rx i = RX_busy k hdr p pc" and "next_slot k hdr p v"
    and "tc_state t' \<notin> {CONN_CONNECTING, CONN_CONNECTED}"
    and "tc_to_client t' = tc_to_client t" "tc_sPort t' = tc_sPort t" and "set C \<subseteq> set C'"
  shows "rx_inv isn C' D (rx(i := v)) t'"
  using assms slots_ok_upd [where rx = rx and i = i and v = v, OF _ assms(2,3)]
  by (cases "tc_state t'") (auto simp: rx_inv_def rx_progress_def)

lemma rx_inv_connected:
  assumes "rx_inv isn C D rx t" and "tc_state t = CONN_CONNECTED"
  obtains n a where "n \<le> a" "a \<le> length D" "stream_ok D" "slots_ok isn D rx"
    "tc_sPort t \<in> set C \<or> tc_to_client t = concat (take n D)"
    "stx_ack (tc_stx t) = isn + 1 + of_nat (seg_off D a)"
    "stx_pktForwarded (tc_stx t) = isn + 1 + of_nat (seg_off D n)"
    "covered D rx n" "phases_ok rx n a"
  using assms by (auto simp: rx_inv_def rx_progress_def)

lemma payload_advance:
  assumes "k < length D"
  shows "isn + 1 + of_nat (seg_off D k) + payload_len (D ! k) = isn + 1 + (of_nat (seg_off D (Suc k)) :: u32)"
  using assms by (simp add: payload_len_def seg_off_Suc ac_simps)

lemma payload_len_nonzero: "p \<noteq> [] \<Longrightarrow> length p \<le> USB_MRU \<Longrightarrow> payload_len p \<noteq> 0"
  using of_nat_u32_near [of 0 "length p"] by (auto simp: payload_len_def usb_limits)

text \<open>The acknowledgement of a segment of the stream: it was the next one.\<close>

lemma rx_inv_acked:
  assumes inv: "rx_inv isn C D rx t" and st: "tc_state t = CONN_CONNECTED"
    and slot: "rx i = RX_busy (Some j) hdr p pc" and pre: "before_ack pc"
    and eq: "stx_ack (tc_stx t) = th_seq hdr"
    and v: "v = RX_dead (Some j) \<or> v = RX_busy (Some j) hdr p HI_payload"
    and t': "tc_state t' = CONN_CONNECTED" "stx_ack (tc_stx t') = th_seq hdr + payload_len p"
      "stx_pktForwarded (tc_stx t') = stx_pktForwarded (tc_stx t)"
      "tc_to_client t' = tc_to_client t" "tc_sPort t' = tc_sPort t"
    and C: "set C \<subseteq> set C'"
  shows "rx_inv isn C' D (rx(i := v)) t'"
proof -
  from rx_inv_connected [OF inv st] obtain n a where na: "n \<le> a" "a \<le> length D"
    and so: "stream_ok D" "slots_ok isn D rx"
    and cl: "tc_sPort t \<in> set C \<or> tc_to_client t = concat (take n D)"
    and ack: "stx_ack (tc_stx t) = isn + 1 + of_nat (seg_off D a)"
    and fwd: "stx_pktForwarded (tc_stx t) = isn + 1 + of_nat (seg_off D n)"
    and cov: "covered D rx n" and ph: "phases_ok rx n a" .
  from so(2) slot have job: "job_ok isn D (Some j) hdr p"
    by (auto simp: slots_ok_def)
  then have j: "j < length D" "p = D ! j" "th_seq hdr = isn + 1 + of_nat (seg_off D j)"
    by (auto simp: job_ok_def)
  from ph slot pre have "a \<le> j" by (auto simp: phases_ok_def)
  with na j ack eq have ja: "j = a"
    by (intro same_place [OF so cov, of j a]) auto
  have next1: "next_slot (Some j) hdr p v"
    using v by (auto simp: next_slot_def)
  have idx: "rx_index v = rx_index (rx i)" using v slot by auto
  have "phases_ok (rx(i := v)) n (Suc a)"
    unfolding phases_ok_def
  proof (intro allI impI)
    fix x k hdr' p' pc'
    assume x: "(rx(i := v)) x = RX_busy (Some k) hdr' p' pc'"
    show "if before_ack pc' then Suc a \<le> k else n \<le> k \<and> k < Suc a"
    proof (cases "x = i")
      case True
      with x v ja na show ?thesis by auto
    next
      case False
      with x have rxx: "rx x = RX_busy (Some k) hdr' p' pc'" by simp
      have "k \<noteq> a"
      proof
        assume "k = a"
        with ja rxx slot have "rx_index (rx x) = Some j" "rx_index (rx i) = Some j" by auto
        with so(2) False show False unfolding slots_ok_def by blast
      qed
      with ph rxx show ?thesis by (fastforce simp: phases_ok_def split: if_splits)
    qed
  qed
  moreover have "stx_ack (tc_stx t') = isn + 1 + of_nat (seg_off D (Suc a))"
    using t'(2) j ja payload_advance [of a D isn] by simp
  ultimately have "rx_progress isn D (rx(i := v)) t' n (Suc a)"
    using t' fwd covered_keep [OF cov idx] by (simp add: rx_progress_def)
  moreover have "tc_sPort t' \<in> set C' \<or> tc_to_client t' = concat (take n D)"
    using cl t' C by auto
  ultimately show ?thesis
    using na ja j(1) so(1) slots_ok_upd [OF so(2) slot next1]
    unfolding rx_inv_def by (intro conjI exI [of _ n] exI [of _ "Suc a"]) auto
qed

text \<open>The delivery of a segment to the client: it was the next one.\<close>

lemma rx_inv_forwarded:
  assumes inv: "rx_inv isn C D rx t" and st: "tc_state t = CONN_CONNECTED"
    and slot: "rx i = RX_busy (Some j) hdr p pc" and post: "\<not> before_ack pc"
    and eq: "stx_pktForwarded (tc_stx t) = th_seq hdr"
    and t': "tc_state t' = CONN_CONNECTED" "stx_ack (tc_stx t') = stx_ack (tc_stx t)"
      "stx_pktForwarded (tc_stx t') = th_seq hdr + payload_len p" "tc_sPort t' = tc_sPort t"
    and out: "tc_sPort t \<in> set C' \<or> tc_to_client t' = tc_to_client t @ p"
    and C: "set C \<subseteq> set C'"
  shows "rx_inv isn C' D (rx(i := RX_idle)) t'"
proof -
  from rx_inv_connected [OF inv st] obtain n a where na: "n \<le> a" "a \<le> length D"
    and so: "stream_ok D" "slots_ok isn D rx"
    and cl: "tc_sPort t \<in> set C \<or> tc_to_client t = concat (take n D)"
    and ack: "stx_ack (tc_stx t) = isn + 1 + of_nat (seg_off D a)"
    and fwd: "stx_pktForwarded (tc_stx t) = isn + 1 + of_nat (seg_off D n)"
    and cov: "covered D rx n" and ph: "phases_ok rx n a" .
  from so(2) slot have job: "job_ok isn D (Some j) hdr p"
    by (auto simp: slots_ok_def)
  then have j: "j < length D" "p = D ! j" "th_seq hdr = isn + 1 + of_nat (seg_off D j)"
    by (auto simp: job_ok_def)
  from ph slot post have nj: "n \<le> j" "j < a" by (auto simp: phases_ok_def)
  with na j fwd eq have jn: "j = n"
    by (intro same_place [OF so cov, of j n]) auto
  have next1: "next_slot (Some j) hdr p RX_idle"
    by (simp add: next_slot_def)
  have "phases_ok (rx(i := RX_idle)) (Suc n) a"
    unfolding phases_ok_def
  proof (intro allI impI)
    fix x k hdr' p' pc'
    assume x: "(rx(i := RX_idle)) x = RX_busy (Some k) hdr' p' pc'"
    then have xi: "x \<noteq> i" and rxx: "rx x = RX_busy (Some k) hdr' p' pc'"
      by (auto split: if_splits)
    have "k \<noteq> n"
    proof
      assume "k = n"
      with jn rxx slot have "rx_index (rx x) = Some j" "rx_index (rx i) = Some j" by auto
      with so(2) xi show False unfolding slots_ok_def by blast
    qed
    with ph rxx show "if before_ack pc' then a \<le> k else Suc n \<le> k \<and> k < a"
      by (fastforce simp: phases_ok_def split: if_splits)
  qed
  moreover have "stx_pktForwarded (tc_stx t') = isn + 1 + of_nat (seg_off D (Suc n))"
    using t'(3) j jn payload_advance [of n D isn] by simp
  moreover have "covered D (rx(i := RX_idle)) (Suc n)"
    using cov slot jn by (intro covered_next) auto
  ultimately have "rx_progress isn D (rx(i := RX_idle)) t' (Suc n) a"
    using t' ack by (simp add: rx_progress_def)
  moreover have "tc_sPort t' \<in> set C' \<or> tc_to_client t' = concat (take (Suc n) D)"
    using cl t' C out j jn by (auto simp: concat_take_Suc)
  ultimately show ?thesis
    using na nj jn so(1) slots_ok_upd [OF so(2) slot next1]
    unfolding rx_inv_def by (intro conjI exI [of _ "Suc n"] exI [of _ a]) auto
qed

text \<open>The handshake starts the stream.\<close>

lemma rx_inv_handshake:
  assumes inv: "rx_inv isn C D rx t" and st: "tc_state t = CONN_CONNECTING"
    and slot: "rx i = RX_busy None hdr p pc"
    and t': "tc_state t' = CONN_CONNECTED" "stx_ack (tc_stx t') = isn + 1"
      "stx_pktForwarded (tc_stx t') = isn + 1"
      "tc_to_client t' = tc_to_client t" "tc_sPort t' = tc_sPort t"
    and C: "set C \<subseteq> set C'"
  shows "rx_inv isn C' D (rx(i := RX_busy None hdr p HI_payload)) t'"
proof -
  let ?rx = "rx(i := RX_busy None hdr p HI_payload)"
  from inv st have so: "stream_ok D" "slots_ok isn D rx" and cov: "covered D rx 0"
    and ent: "all_entering rx" and cl: "tc_sPort t \<in> set C \<or> tc_to_client t = []"
    by (auto simp: rx_inv_def rx_progress_def)
  have "phases_ok ?rx 0 0"
    using ent by (fastforce simp: phases_ok_def all_entering_def)
  moreover have "covered D ?rx 0"
    using cov slot by (intro covered_keep) auto
  moreover have "slots_ok isn D ?rx"
    by (rule slots_ok_upd [OF so(2) slot]) (simp add: next_slot_def)
  ultimately show ?thesis
    using so(1) cl t' C unfolding rx_inv_def rx_progress_def
    by (intro conjI exI [of _ 0]) auto
qed

section \<open>What the sections of \<open>handle_input\<close> do\<close>

context tcp_link
begin

lemma send_ack_effect:
  assumes "send_ack_nolock ops (t, d) = (r, (t', d'))"
  shows "(\<exists>x. t' = upd_stx (\<lambda>s. s\<lparr>stx_acked := x\<rparr>) t) \<and> closing d' = closing d
    \<and> (condemned d \<longrightarrow> condemned d') \<and> (\<exists>ex. sent d' = sent d @ ex \<and> (\<forall>(h, p) \<in> set ex. p = []))
    \<and> (\<forall>e. r = Inl e \<longrightarrow> condemned d')"
proof (cases "stx_acked (tc_stx t) = stx_ack (tc_stx t)")
  case True
  have "\<exists>x. t = upd_stx (\<lambda>s. s\<lparr>stx_acked := x\<rparr>) t"
    by (rule exI [of _ "stx_acked (tc_stx t)"]) (simp add: upd_stx_def)
  moreover from True assms have "t' = t" "d' = d" "r = Inr ()"
    by (auto simp: send_ack_nolock_def)
  ultimately show ?thesis by auto
next
  case False
  let ?h = "tcp_header t TH_ACK (stx_seq (tc_stx t))"
  from False assms have run: "dev_send ops [] ?h d = (r, d')"
    and t': "t' = upd_stx (\<lambda>s. s\<lparr>stx_acked := stx_ack s\<rparr>) t"
    by (auto simp: send_ack_nolock_def tcp_emit_def Let_def split: prod.splits)
  from t' have "t' = upd_stx (\<lambda>s. s\<lparr>stx_acked := stx_ack (tc_stx t)\<rparr>) t"
    by (simp add: upd_stx_def)
  moreover have "sizeof_mux_header + sizeof_tcphdr + length ([] :: bytes) \<le> USB_MTU"
    by (simp add: struct_sizes usb_limits)
  then have "\<forall>e. r = Inl e \<longrightarrow> condemned d'"
    using send_err_condemned run by blast
  ultimately show ?thesis
    using send_extends [OF run] send_closing [OF run] send_condemned [OF run] by fastforce
qed

lemma handshake_effect:
  assumes "hi_handshake ops hdr (t, d) = (r, (t', d'))" and "tc_state t = CONN_CONNECTING"
  obtains (synack) e where "th_flags hdr = (TH_SYN OR TH_ACK)" "r = Inl e" "tc_state t' = CONN_CONNECTING"
      "tc_to_client t' = tc_to_client t" "tc_sPort t' = tc_sPort t" "set (closing d) \<subseteq> set (closing d')"
    | (up) "th_flags hdr = (TH_SYN OR TH_ACK)" "r = Inr HI_payload" "tc_state t' = CONN_CONNECTED"
      "stx_ack (tc_stx t') = th_seq hdr + 1" "stx_pktForwarded (tc_stx t') = th_seq hdr + 1"
      "tc_to_client t' = tc_to_client t" "tc_sPort t' = tc_sPort t" "set (closing d) \<subseteq> set (closing d')"
    | (bad) "r = Inl Unexpected_while_connecting" "t' = t" "d' = d"
    | (refused) "r = Inr HI_payload" "tc_state t' = CONN_REFUSED" "tc_to_client t' = tc_to_client t"
      "tc_sPort t' = tc_sPort t" "set (closing d) \<subseteq> set (closing d')"
proof (cases "th_flags hdr = (TH_SYN OR TH_ACK)")
  case True
  define t1 where "t1 = upd_stx (\<lambda>s. s\<lparr>stx_seq := stx_seq s + 1, stx_ack := th_seq hdr + 1,
    stx_inWin := scaled_window hdr, stx_pktForwarded := th_seq hdr + 1\<rparr>) t"
  obtain r2 t2 d2 where run: "send_ack_nolock ops (t1, d) = (r2, (t2, d2))"
    by (metis prod.exhaust)
  from send_ack_effect [OF run] obtain x where t2: "t2 = upd_stx (\<lambda>s. s\<lparr>stx_acked := x\<rparr>) t1"
    and cl: "closing d2 = closing d" by auto
  show thesis
  proof (cases r2)
    case (Inl e)
    with True run assms have "r = Inl e" "t' = t2" "d' = d2"
      by (auto simp: hi_handshake_def Let_def t1_def)
    with True t2 cl assms(2) show thesis by (intro synack) (auto simp: t1_def)
  next
    case (Inr u)
    with True run assms have "r = Inr HI_payload" "t' = t2\<lparr>tc_state := CONN_CONNECTED\<rparr>" "d' = d2"
      by (auto simp: hi_handshake_def Let_def t1_def)
    with True t2 cl show thesis by (intro up) (auto simp: t1_def)
  qed
next
  case False
  with assms show thesis
    by (cases "th_flags hdr AND TH_RST = 0")
      (auto simp: hi_handshake_def tcp_kill_def close_posted intro: bad refused)
qed

lemma ack_section_effect:
  assumes "hi_ack_section ops members hdr p (t, d) = (r, (t', d'))"
  obtains (waits) "r = Inr HI_ackwait" "t' = t" "d' = d" "stx_ack (tc_stx t) \<noteq> th_seq hdr"
    | (acks) "stx_ack (tc_stx t) = th_seq hdr" "stx_ack (tc_stx t') = th_seq hdr + payload_len p"
      "stx_pktForwarded (tc_stx t') = stx_pktForwarded (tc_stx t)" "tc_state t' = tc_state t"
      "tc_to_client t' = tc_to_client t" "tc_sPort t' = tc_sPort t" "closing d' = closing d"
      "r = Inr HI_payload \<or> (\<exists>e. r = Inl e)"
proof (cases "stx_ack (tc_stx t) = th_seq hdr")
  case False
  with assms show thesis by (intro waits) (auto simp: hi_ack_section_def)
next
  case True
  define t1 where "t1 = upd_stx (\<lambda>s. s\<lparr>stx_inWin := scaled_window hdr, stx_seqAcked := th_ack hdr,
              stx_ack := stx_ack s + payload_len p\<rparr>) t"
  have run: "(if payload_len p \<noteq> 0 \<and> members = 0
      then thenE (send_ack_nolock ops) (\<lambda>_. okE HI_payload) (t1, d)
      else (Inr HI_payload, (t1, d))) = (r, (t', d'))"
    using True assms by (simp only: hi_ack_section_def t1_def Let_def prod.case simp_thms if_False)
  show thesis
  proof (cases "payload_len p \<noteq> 0 \<and> members = 0")
    case False
    with run True show thesis by (intro acks) (auto simp: t1_def)
  next
    case members: True
    obtain r2 t2 d2 where ack: "send_ack_nolock ops (t1, d) = (r2, (t2, d2))"
      by (metis prod.exhaust)
    with run members have "t' = t2" "d' = d2" "r = Inr HI_payload \<or> (\<exists>e. r = Inl e)"
      by (auto simp: thenE_def split: sum.splits)
    with send_ack_effect [OF ack] True show thesis by (intro acks) (auto simp: t1_def)
  qed
qed

lemma forward_effect:
  assumes "hi_forward ops sock p (t, d) = (r, (t', d'))"
  shows "r = Inr HI_done \<and> tc_state t' = tc_state t \<and> stx_ack (tc_stx t') = stx_ack (tc_stx t)
    \<and> stx_pktForwarded (tc_stx t') = stx_pktForwarded (tc_stx t) + payload_len p
    \<and> tc_sPort t' = tc_sPort t \<and> set (closing d) \<subseteq> set (closing d')
    \<and> (tc_sPort t \<in> set (closing d') \<or> tc_to_client t' = tc_to_client t @ p)"
  using assms by (auto simp: hi_forward_def tcp_kill_def Let_def close_posted split: if_splits)

text \<open>A receiver's section preserves the invariant: first a section that changes nothing.\<close>

lemma rx_inv_job:
  assumes "rx_inv isn C D rx t" and "rx i = RX_busy k hdr p pc"
  shows "pc \<noteq> HI_done \<and> job_ok isn D k hdr p"
    and "k = None \<Longrightarrow> p = []" and "k = Some j \<Longrightarrow> th_flags hdr = TH_ACK \<and> payload_len p \<noteq> 0"
    and "tc_state t = CONN_CONNECTING \<Longrightarrow> pc \<noteq> HI_enter \<Longrightarrow> k = None"
proof -
  show 1: "pc \<noteq> HI_done \<and> job_ok isn D k hdr p"
    using assms by (auto simp: rx_inv_def slots_ok_def)
  then show "k = None \<Longrightarrow> p = []" by (auto simp: job_ok_def)
  show "k = Some j \<Longrightarrow> th_flags hdr = TH_ACK \<and> payload_len p \<noteq> 0"
    using 1 assms(1) by (auto simp: rx_inv_def stream_ok_def job_ok_def payload_len_nonzero)
  show "tc_state t = CONN_CONNECTING \<Longrightarrow> pc \<noteq> HI_enter \<Longrightarrow> k = None"
    using assms by (cases k) (auto simp: rx_inv_def rx_progress_def all_entering_def)
qed

lemma rx_inv_stay:
  assumes inv: "rx_inv isn C D rx t" and slot: "rx i = RX_busy k hdr p pc" and "pc \<noteq> HI_enter"
    and on: "tc_state t = CONN_CONNECTED \<Longrightarrow> quiet_slot (tc_state t) k hdr p pc v"
    and off: "tc_state t \<noteq> CONN_CONNECTED \<Longrightarrow>
      v = RX_idle \<or> (\<exists>pc'. v = RX_busy k hdr p pc' \<and> pc' \<noteq> HI_done)"
  shows "rx_inv isn C D (rx(i := v)) t"
proof (cases "tc_state t \<in> {CONN_CONNECTING, CONN_CONNECTED}")
  case True
  with assms(3) on off rx_inv_job(4) [OF inv slot] have "quiet_slot (tc_state t) k hdr p pc v"
    by (auto simp: quiet_slot_def)
  then show ?thesis by (intro rx_inv_quiet [OF inv slot]) auto
next
  case False
  then have "next_slot k hdr p v" using off by (auto simp: next_slot_def)
  with False show ?thesis by (intro rx_inv_down [OF inv slot]) auto
qed

lemma acked_rx_inv:
  assumes inv: "rx_inv isn (closing d) D rx t" and slot: "rx i = RX_busy k hdr p pc"
    and sec: "hi_ack_section ops members hdr p (t, d) = (r, (t', d'))"
    and st: "tc_state t = CONN_CONNECTED" and pre: "before_ack pc"
  shows "rx_inv isn (closing d') D (rx(i := rx_after k hdr p r)) t'"
  using sec
proof (cases rule: ack_section_effect)
  case waits
  with pre st show ?thesis by (intro rx_inv_quiet [OF inv slot]) (auto simp: quiet_slot_def)
next
  case acks
  show ?thesis
  proof (cases k)
    case None
    then have "payload_len p = 0" using rx_inv_job(2) [OF inv slot] by (simp add: payload_len_def)
    with acks None show ?thesis
      by (intro rx_inv_quiet [OF inv slot]) (auto simp: quiet_slot_def)
  next
    case (Some j)
    with acks st slot show ?thesis
      by (intro rx_inv_acked [OF inv st slot [unfolded Some] pre]) auto
  qed
qed

lemma handshake_rx_inv:
  assumes inv: "rx_inv isn (closing d) D rx t" and slot: "rx i = RX_busy k hdr p HI_enter"
    and sec: "hi_handshake ops hdr (t, d) = (r, (t', d'))" and st: "tc_state t = CONN_CONNECTING"
  shows "rx_inv isn (closing d') D (rx(i := rx_after k hdr p r)) t'"
  using sec st
proof (cases rule: handshake_effect)
  case (synack e)
  then show ?thesis
    using st by (intro rx_inv_quiet [OF inv slot]) (auto simp: quiet_slot_def)
next
  case up
  with rx_inv_job(1) [OF inv slot] have k: "k = None" "th_seq hdr = isn"
    by (auto simp: job_ok_def tcp_flags split: option.splits)
  with up show ?thesis
    using rx_inv_handshake [OF inv st slot [unfolded k(1)], of t' "closing d'"] by simp
next
  case bad
  then show ?thesis by (intro rx_inv_quiet [OF inv slot]) (auto simp: quiet_slot_def)
next
  case refused
  then show ?thesis by (intro rx_inv_down [OF inv slot rx_after_next]) auto
qed

lemma enter_rx_inv:
  assumes inv: "rx_inv isn (closing d) D rx t" and slot: "rx i = RX_busy k hdr p HI_enter"
    and step: "handle_input_step ops sock members hdr p HI_enter (t, d) = (r, (t', d'))"
  shows "rx_inv isn (closing d') D (rx(i := rx_after k hdr p r)) t'"
proof (cases "tc_state t")
  case CONN_CONNECTING
  with step show ?thesis by (intro handshake_rx_inv [OF inv slot]) auto
next
  case CONN_CONNECTED
  consider "th_flags hdr = TH_ACK" | "th_flags hdr \<noteq> TH_ACK" "k = None"
    using rx_inv_job(3) [OF inv slot] by (cases k) auto
  then show ?thesis
  proof cases
    case 1
    with CONN_CONNECTED step show ?thesis by (intro acked_rx_inv [OF inv slot]) auto
  next
    case 2
    with CONN_CONNECTED step show ?thesis
      by (intro rx_inv_quiet [OF inv slot])
        (auto simp: quiet_slot_def tcp_kill_def close_posted split: if_splits)
  qed
qed (use step in \<open>auto intro: rx_inv_down [OF inv slot] simp: next_slot_def\<close>)

lemma acklock_rx_inv:
  assumes inv: "rx_inv isn (closing d) D rx t" and slot: "rx i = RX_busy k hdr p HI_acklock"
    and sec: "hi_ack_section ops members hdr p (t, d) = (r, (t', d'))"
  shows "rx_inv isn (closing d') D (rx(i := rx_after k hdr p r)) t'"
proof (cases "tc_state t = CONN_CONNECTED")
  case True
  with sec show ?thesis by (intro acked_rx_inv [OF inv slot]) auto
next
  case off: False
  show ?thesis
    using sec
  proof (cases rule: ack_section_effect)
    case waits
    with off rx_inv_stay [OF inv slot, of "RX_busy k hdr p HI_ackwait"] show ?thesis by simp
  next
    case acks
    show ?thesis
    proof (cases "tc_state t = CONN_CONNECTING")
      case True
      with rx_inv_job(4) [OF inv slot] acks show ?thesis
        by (intro rx_inv_quiet [OF inv slot]) (auto simp: quiet_slot_def)
    next
      case False
      with acks off show ?thesis by (intro rx_inv_down [OF inv slot rx_after_next]) auto
    qed
  qed
qed

lemma payload_rx_inv:
  assumes inv: "rx_inv isn (closing d) D rx t" and slot: "rx i = RX_busy k hdr p HI_payload"
    and step: "handle_input_step ops sock members hdr p HI_payload (t, d) = (r, (t', d'))"
  shows "rx_inv isn (closing d') D (rx(i := rx_after k hdr p r)) t'"
proof (cases "payload_len p \<noteq> 0 \<and> tc_state t = CONN_CONNECTED
    \<and> th_seq hdr = stx_pktForwarded (tc_stx t)")
  case True
  with step have fwd: "hi_forward ops sock p (t, d) = (r, (t', d'))" by simp
  from True rx_inv_job(2) [OF inv slot] obtain j where k: "k = Some j"
    by (cases k) (auto simp: payload_len_def)
  from forward_effect [OF fwd] have after: "rx_after k hdr p r = RX_idle" by simp
  show ?thesis unfolding after
    by (rule rx_inv_forwarded [OF inv _ slot [unfolded k]]) (use forward_effect [OF fwd] True in auto)
next
  case False
  have "k = None" if "payload_len p = 0"
    using that rx_inv_job(3) [OF inv slot] by (cases k) auto
  moreover from False step have "t' = t \<and> d' = d" by (auto split: if_splits)
  moreover have "rx_inv isn (closing d) D (rx(i := rx_after k hdr p r)) t"
    using False step calculation(1)
    by (intro rx_inv_stay [OF inv slot]) (auto simp: quiet_slot_def split: if_splits)
  ultimately show ?thesis by simp
qed

lemma wait_rx_inv:
  assumes inv: "rx_inv isn (closing d) D rx t" and slot: "rx i = RX_busy k hdr p pc"
    and step: "handle_input_step ops sock members hdr p pc (t, d) = (r, (t', d'))"
    and pc: "pc = HI_ackwait \<or> pc = HI_paywait"
  shows "rx_inv isn (closing d') D (rx(i := rx_after k hdr p r)) t'"
proof -
  from step pc have "t' = t \<and> d' = d" by (auto split: if_splits)
  moreover have "rx_inv isn (closing d) D (rx(i := rx_after k hdr p r)) t"
    using step pc by (intro rx_inv_stay [OF inv slot]) (auto simp: quiet_slot_def split: if_splits)
  ultimately show ?thesis by simp
qed

lemma receive_rx_inv:
  assumes "rx_inv isn (closing d) D rx t" and "rx i = RX_busy k hdr p pc"
    and "handle_input_step ops sock members hdr p pc (t, d) = (r, (t', d'))"
  shows "rx_inv isn (closing d') D (rx(i := rx_after k hdr p r)) t'"
  using assms rx_inv_job(1) [OF assms(1,2)]
  by (cases pc) (auto simp del: handle_input_step.simps(1,2,4,5) intro: enter_rx_inv wait_rx_inv acklock_rx_inv payload_rx_inv)

end

section \<open>The other threads\<close>

lemma rx_inv_other:
  assumes "rx_inv isn C D rx t" and "set C \<subseteq> set C'"
    and "tc_state t' \<noteq> tc_state t \<longrightarrow> tc_state t' \<in> {CONN_REFUSED, CONN_DYING}"
    and "stx_ack (tc_stx t') = stx_ack (tc_stx t)"
      "stx_pktForwarded (tc_stx t') = stx_pktForwarded (tc_stx t)"
      "tc_to_client t' = tc_to_client t" "tc_sPort t' = tc_sPort t"
  shows "rx_inv isn C' D rx t'"
proof -
  have "rx_progress isn D rx t' n a" if "rx_progress isn D rx t n a" for n a
    using that assms(3-5)
    by (cases "tc_state t' = tc_state t") (auto simp: rx_progress_def split: mux_conn_state.splits)
  moreover have "tc_sPort t' \<in> set C' \<or> tc_to_client t' = x"
    if "tc_sPort t \<in> set C \<or> tc_to_client t = x" for x
    using that assms(2,6,7) by auto
  ultimately show ?thesis
    using assms(1) unfolding rx_inv_def by blast
qed

lemma job_ok_arrive:
  assumes "job_ok isn D k hdr p" shows "job_ok isn (D @ [q]) k hdr p"
  using assms by (auto simp: job_ok_def nth_append seg_off_append split: option.splits)

lemma rx_progress_arrive:
  assumes pr: "rx_progress isn D rx t n a" and na: "n \<le> a" "a \<le> length D" and idle: "rx i = RX_idle"
    and new: "D' = D \<and> k = None \<or> D' = D @ [p] \<and> k = Some (length D)"
  shows "rx_progress isn D' (rx(i := RX_busy k hdr p HI_enter)) t n a"
proof -
  let ?rx = "rx(i := RX_busy k hdr p HI_enter)"
  have off: "seg_off D' m = seg_off D m" if "m \<le> length D" for m
    using new that by (auto simp: seg_off_append)
  have cov: "covered D' ?rx m" if cov: "covered D rx m" for m
    unfolding covered_def
  proof (intro allI impI)
    fix x assume x: "m \<le> x" "x < length D'"
    show "\<exists>j. rx_index (?rx j) = Some x"
    proof (cases "x < length D")
      case True
      with cov x obtain j where j: "rx_index (rx j) = Some x" by (auto simp: covered_def)
      with idle have "j \<noteq> i" by auto
      with j show ?thesis by (intro exI [of _ j]) simp
    next
      case False
      with x new show ?thesis by (intro exI [of _ i]) auto
    qed
  qed
  have "phases_ok ?rx n a" if "phases_ok rx n a"
    using that na new by (fastforce simp: phases_ok_def)
  moreover have "all_entering ?rx" if "all_entering rx"
    using that by (fastforce simp: all_entering_def)
  ultimately show ?thesis
    using pr cov na off by (auto simp: rx_progress_def split: mux_conn_state.splits)
qed

lemma slots_ok_arrive:
  assumes ok: "slots_ok isn D rx" and i: "i < NUM_RX_LOOPS" "rx i = RX_idle"
    and new: "D' = D \<and> k = None \<or> D' = D @ [p] \<and> k = Some (length D)"
    and job: "job_ok isn D' k hdr p"
  shows "slots_ok isn D' (rx(i := RX_busy k hdr p HI_enter))"
proof -
  from ok have at: "\<And>i. NUM_RX_LOOPS \<le> i \<Longrightarrow> rx i = RX_idle"
    and lt: "\<And>i k. rx_index (rx i) = Some k \<Longrightarrow> k < length D"
    and inj: "\<And>i j k. rx_index (rx i) = Some k \<Longrightarrow> rx_index (rx j) = Some k \<Longrightarrow> i = j"
    and jobs: "\<And>i k hdr p pc. rx i = RX_busy k hdr p pc \<Longrightarrow> pc \<noteq> HI_done \<and> job_ok isn D k hdr p"
    unfolding slots_ok_def by blast+
  have jobs': "rx i = RX_busy k hdr p pc \<Longrightarrow> pc \<noteq> HI_done \<and> job_ok isn D' k hdr p" for i k hdr p pc
    using jobs new job_ok_arrive by blast
  have len: "length D \<le> length D'" using new by auto
  show ?thesis
    unfolding slots_ok_def
  proof (intro conjI allI impI)
    fix x y j
    assume "rx_index ((rx(i := RX_busy k hdr p HI_enter)) x) = Some j"
      and "rx_index ((rx(i := RX_busy k hdr p HI_enter)) y) = Some j"
    then show "x = y"
      using inj lt [of x] lt [of y] new by (auto split: if_splits)
  next
    fix x j
    assume "rx_index ((rx(i := RX_busy k hdr p HI_enter)) x) = Some j"
    then show "j < length D'"
      using lt [of x j] len new by (auto split: if_splits)
  qed (use at i jobs' job in \<open>auto split: if_splits\<close>)
qed

lemma arrive_rx_inv:
  assumes inv: "rx_inv isn C D rx t" and i: "i < NUM_RX_LOOPS" "rx i = RX_idle"
    and new: "D' = D \<and> k = None \<or> D' = D @ [p] \<and> k = Some (length D)"
    and job: "job_ok isn D' k hdr p" and so: "stream_ok D'"
  shows "rx_inv isn C D' (rx(i := RX_busy k hdr p HI_enter)) t"
proof -
  from inv obtain n a where na: "n \<le> a" "a \<le> length D" and ok: "slots_ok isn D rx"
    and cl: "tc_sPort t \<in> set C \<or> tc_to_client t = concat (take n D)"
    and pr: "rx_progress isn D rx t n a"
    by (auto simp: rx_inv_def)
  have "rx_progress isn D' (rx(i := RX_busy k hdr p HI_enter)) t n a"
    by (rule rx_progress_arrive [OF pr na i(2) new])
  moreover have "take n D' = take n D" using na new by auto
  moreover have "a \<le> length D'" using na new by auto
  ultimately show ?thesis
    using na cl so slots_ok_arrive [OF ok i new job]
    unfolding rx_inv_def by (intro conjI exI [of _ n] exI [of _ a]) auto
qed

text \<open>What the sending threads leave alone.\<close>

definition rx_frame :: "tcp \<Rightarrow> tcp \<Rightarrow> bool" where
  "rx_frame t t' \<longleftrightarrow> tc_state t' = tc_state t \<and> stx_ack (tc_stx t') = stx_ack (tc_stx t)
     \<and> stx_pktForwarded (tc_stx t') = stx_pktForwarded (tc_stx t)
     \<and> tc_to_client t' = tc_to_client t \<and> tc_sPort t' = tc_sPort t"

lemma rx_frame_refl [simp]: "rx_frame t t"
  by (simp add: rx_frame_def)

lemma rx_inv_frame:
  "rx_inv isn C D rx t \<Longrightarrow> rx_frame t t' \<Longrightarrow> set C \<subseteq> set C' \<Longrightarrow> rx_inv isn C' D rx t'"
  by (rule rx_inv_other) (auto simp: rx_frame_def)

context tcp_link
begin

lemma tcp_kill_effect:
  "tcp_kill ops (t, d) = (t', d') \<Longrightarrow> t' = t \<and> sent d' = sent d \<and> condemned d' = condemned d
   \<and> closing d' = closing d @ [tc_sPort t]"
  by (auto simp: tcp_kill_def close_sent close_condemned close_posted)

lemma send_tcp_effect:
  assumes "send_tcp ops fl (t, d) = (r, (t', d'))"
  shows "t' = upd_stx (\<lambda>s. s\<lparr>stx_acked := stx_ack s\<rparr>) t \<and> closing d' = closing d
    \<and> (condemned d \<longrightarrow> condemned d') \<and> (\<exists>ex. sent d' = sent d @ ex \<and> (\<forall>(h, p) \<in> set ex. p = []))"
proof -
  let ?h = "tcp_header t fl (stx_seq (tc_stx t))"
  from assms have run: "dev_send ops [] ?h d = (r, d')"
    and t': "t' = upd_stx (\<lambda>s. s\<lparr>stx_acked := stx_ack s\<rparr>) t"
    by (auto simp: send_tcp_def tcp_emit_def Let_def split: prod.splits)
  show ?thesis
    using send_extends [OF run] send_closing [OF run] send_condemned [OF run] t' by fastforce
qed

lemma connect_effect:
  assumes "connect_step ops cops pc (t, d, c) = (r, (t', d', c'))"
  shows "rx_frame t t' \<and> stx_seq (tc_stx t') = stx_seq (tc_stx t) \<and> closing d' = closing d
    \<and> (condemned d \<longrightarrow> condemned d') \<and> (\<exists>ex. sent d' = sent d @ ex \<and> (\<forall>(h, p) \<in> set ex. p = []))
    \<and> tc_lockStx t' = tc_lockStx t \<and> (tc_running t \<longrightarrow> tc_running t')"
proof (cases pc)
  case CN_start
  obtain r2 t2 d2 where run: "send_tcp ops TH_SYN (t, d) = (r2, (t2, d2))" by (metis prod.exhaust)
  with CN_start assms have "t' = t2" "d' = d2" by (auto split: sum.splits)
  with send_tcp_effect [OF run] show ?thesis by (auto simp: rx_frame_def)
next
  case CN_result
  then show ?thesis using assms by (auto split: prod.splits sum.splits)
next
  case CN_handoff
  then show ?thesis using assms by (auto simp: rx_frame_def split: prod.splits)
qed (use assms in \<open>auto split: if_splits\<close>)

lemma send_data_frame:
  assumes "send_data_step ops buf pc (t, d) = (r, (t', d'))"
  shows "rx_frame t t' \<and> closing d' = closing d"
proof (cases "buf = []")
  case True
  with assms show ?thesis
    by (cases pc) (auto simp: sd_transmit_def rembytes_def rx_frame_def Let_def
        dest: send_closing split: if_splits prod.splits sum.splits)
next
  case False
  from assms False show ?thesis
  proof (cases rule: send_data_step_transmits)
    case (transmits len)
    show ?thesis
    proof (cases r)
      case (Inl e)
      with sd_transmit_err transmits(1) show ?thesis by (fastforce simp: rx_frame_def)
    next
      case (Inr nx)
      from transmits(1) have "closing d' = closing d"
        by (auto simp: sd_transmit_def Let_def dest: send_closing split: prod.splits sum.splits)
      with Inr sd_transmit_ok transmits(1) show ?thesis by (fastforce simp: rx_frame_def)
    qed
  qed auto
qed

lemma loop_frame:
  assumes "loopEvent_step ops pc inp (t, d) = (r, (t', d'))"
  shows "rx_frame t t' \<and> set (closing d) \<subseteq> set (closing d')"
proof (cases pc)
  case (LE_send hup b m cnt spc)
  define buf where "buf = map (tc_payloadBuf t) [b ..< b + (if cnt > TCP_MTU then TCP_MTU else cnt)]"
  obtain r2 t2 d2 where run: "send_data_step ops buf spc (t, d) = (r2, (t2, d2))"
    by (metis prod.exhaust)
  with LE_send assms have "t' = t2" "d' = d2"
    by (auto simp: buf_def Let_def split: sum.splits sd_next.splits)
  with send_data_frame [OF run] show ?thesis by simp
next
  case (LE_after hup)
  show ?thesis
  proof (cases hup)
    case True
    obtain r2 t2 d2 where run: "send_fin ops (t, d) = (r2, (t2, d2))" by (metis prod.exhaust)
    from this have "t2 = t \<and> closing d2 = closing d"
      unfolding send_fin_def by (auto dest: tcp_emit_any)
    moreover from run True LE_after assms have "t' = t2" "d' = d2"
      by (auto simp: thenE_def split: sum.splits)
    ultimately show ?thesis by simp
  qed (use LE_after assms in simp)
qed (use assms in \<open>auto simp: rx_frame_def dest: tcp_kill_effect
       split: if_splits le_input.splits option.splits prod.splits\<close>)

definition sys_inv :: "u32 \<Rightarrow> u16 \<Rightarrow> ('d, 'c) conn_sys \<Rightarrow> bool" where
  "sys_inv isn sPort s \<longleftrightarrow> tc_sPort (cs_tcp s) = sPort
     \<and> rx_inv isn (closing (cs_dev s)) (cs_stream s) (cs_rx s) (cs_tcp s)"

lemma handle_input_sPort:
  assumes "handle_input_step ops sock members hdr p pc (t, d) = (r, (t', d'))"
  shows "tc_sPort t' = tc_sPort t"
proof (cases pc)
  case HI_enter
  show ?thesis
  proof (cases "tc_state t")
    case CONN_CONNECTING
    with HI_enter assms have "hi_handshake ops hdr (t, d) = (r, (t', d'))" by simp
    from this CONN_CONNECTING show ?thesis by (cases rule: handshake_effect) auto
  next
    case CONN_CONNECTED
    with HI_enter assms show ?thesis
      by (auto elim: ack_section_effect dest: tcp_kill_effect split: if_splits)
  qed (use HI_enter assms in auto)
qed (use assms in \<open>auto elim: ack_section_effect dest: forward_effect split: if_splits\<close>)

lemma step_sys_inv:
  assumes "conn_step ops sock cops (rely_on sent closing condemned sPort) isn s s'"
    and inv: "sys_inv isn sPort s"
  shows "sys_inv isn sPort s'"
  using assms(1)
proof cases
  case (arrive_data i p hdr)
  from inv have "stream_ok (cs_stream s)" "seg_off (cs_stream s) (length (cs_stream s)) = length (concat (cs_stream s))"
    by (auto simp: sys_inv_def rx_inv_def seg_off_length)
  with arrive_data inv show ?thesis
    unfolding sys_inv_def by (auto simp: job_ok_def stream_ok_def intro!: arrive_rx_inv)
next
  case (arrive_ctl i hdr)
  from inv have "stream_ok (cs_stream s)" by (simp add: sys_inv_def rx_inv_def)
  with arrive_ctl inv show ?thesis
    unfolding sys_inv_def by (auto simp: job_ok_def intro!: arrive_rx_inv)
next
  case (receive i k hdr p pc members r t' d')
  with inv show ?thesis
    unfolding sys_inv_def by (auto intro: receive_rx_inv dest: handle_input_sPort)
next
  case (connect pc r t' d' c')
  with inv connect_effect [OF connect(5)] show ?thesis
    unfolding sys_inv_def by (auto intro: rx_inv_frame simp: rx_frame_def)
next
  case (loop pc inp r t' d')
  with inv loop_frame [OF loop(6)] show ?thesis
    unfolding sys_inv_def by (auto intro: rx_inv_frame simp: rx_frame_def)
next
  case reap
  with inv show ?thesis
    unfolding sys_inv_def by (auto simp: tcp_deconstruct_def intro: rx_inv_other)
next
  case (elsewhere d')
  with inv show ?thesis
    unfolding sys_inv_def by (auto simp: rely_on_def intro: rx_inv_frame)
qed

lemma init_sys_inv: "sys_inv isn sPort (init_sys mem rnd sPort dPort d c)"
  by (simp add: sys_inv_def init_sys_def new_tcp_def rx_inv_def stream_ok_def slots_ok_def
      rx_progress_def covered_def all_entering_def)

lemma reach_sys_inv:
  assumes "conn_reach ops sock cops (rely_on sent closing condemned sPort) isn s0 s"
    and "sys_inv isn sPort s0"
  shows "sys_inv isn sPort s"
  using assms by (induction rule: conn_reach.induct) (auto intro: step_sys_inv)

end

text \<open>
  C1: in-order delivery. However the receivers, the connecting thread, the event loop, the reaper and
  the rest of the program interleave, the client's socket has taken exactly a prefix of the stream of
  payloads the device sent, cut at a segment boundary: no byte is lost, repeated, invented or
  reordered; and while the connection is up at most one segment per receiver is still on its way.
  The only exception is a connection whose closing has been posted.
\<close>

theorem client_stream_in_order:
  fixes d :: "'a usblink_scheme"
  assumes "conn_reach (usb_ops env) sock cops
      (rely_on tcp_sent ul_reapConnections link_condemned sPort) isn
      (init_sys mem rnd sPort dPort d c) s"
  shows "sPort \<in> set (ul_reapConnections (cs_dev s))
    \<or> (\<exists>n \<le> length (cs_stream s). tc_to_client (cs_tcp s) = concat (take n (cs_stream s))
        \<and> (tc_state (cs_tcp s) = CONN_CONNECTED \<longrightarrow> length (cs_stream s) - n \<le> NUM_RX_LOOPS))"
proof -
  have inv: "usb.sys_inv isn sPort s"
    by (rule usb.reach_sys_inv [OF assms usb.init_sys_inv])
  then obtain n a where na: "n \<le> a" "a \<le> length (cs_stream s)"
    and cl: "sPort \<in> set (ul_reapConnections (cs_dev s))
      \<or> tc_to_client (cs_tcp s) = concat (take n (cs_stream s))"
    and pr: "rx_progress isn (cs_stream s) (cs_rx s) (cs_tcp s) n a"
    and ok: "slots_ok isn (cs_stream s) (cs_rx s)"
    by (auto simp: usb.sys_inv_def rx_inv_def)
  from pr have "tc_state (cs_tcp s) = CONN_CONNECTED \<longrightarrow> length (cs_stream s) - n \<le> NUM_RX_LOOPS"
    using covered_bound [OF ok] by (auto simp: rx_progress_def)
  with na cl show ?thesis by (meson le_trans)
qed

section \<open>Concrete runs\<close>

text \<open>Steps of the receivers chosen by a list of events, to run the system on concrete input.\<close>

datatype sys_event = Ev_data nat tcphdr bytes | Ev_ctl nat tcphdr | Ev_recv nat nat

fun run_event ::
    "'d tcp_dev_ops \<Rightarrow> client_sock \<Rightarrow> u32 \<Rightarrow> sys_event \<Rightarrow> ('d, 'c) conn_sys \<Rightarrow> ('d, 'c) conn_sys option" where
  "run_event ops sock isn (Ev_data i hdr p) s =
     (if i < NUM_RX_LOOPS \<and> cs_rx s i = RX_idle \<and> p \<noteq> [] \<and> length p \<le> USB_MRU \<and> th_flags hdr = TH_ACK
          \<and> th_seq hdr = isn + 1 + of_nat (length (concat (cs_stream s)))
      then Some (s\<lparr>cs_rx := (cs_rx s)(i := RX_busy (Some (length (cs_stream s))) hdr p HI_enter),
             cs_stream := cs_stream s @ [p]\<rparr>) else None)"
| "run_event ops sock isn (Ev_ctl i hdr) s =
     (if i < NUM_RX_LOOPS \<and> cs_rx s i = RX_idle \<and> (th_flags hdr = (TH_SYN OR TH_ACK) \<longrightarrow> th_seq hdr = isn)
      then Some (s\<lparr>cs_rx := (cs_rx s)(i := RX_busy None hdr [] HI_enter)\<rparr>) else None)"
| "run_event ops sock isn (Ev_recv i members) s =
     (case cs_rx s i of
        RX_busy k hdr p pc \<Rightarrow>
          if rx_takes_lock pc \<and> tc_lockStx (cs_tcp s) then None
          else (case handle_input_step ops sock members hdr p pc (cs_tcp s, cs_dev s) of
            (r, (t', d')) \<Rightarrow> Some (s\<lparr>cs_tcp := t', cs_dev := d', cs_rx := (cs_rx s)(i := rx_after k hdr p r)\<rparr>))
      | _ \<Rightarrow> None)"

fun run_events ::
    "'d tcp_dev_ops \<Rightarrow> client_sock \<Rightarrow> u32 \<Rightarrow> sys_event list \<Rightarrow> ('d, 'c) conn_sys \<Rightarrow> ('d, 'c) conn_sys option" where
  "run_events ops sock isn [] s = Some s"
| "run_events ops sock isn (ev # evs) s =
     (case run_event ops sock isn ev s of None \<Rightarrow> None | Some s' \<Rightarrow> run_events ops sock isn evs s')"

lemma run_event_step: "run_event ops sock isn ev s = Some s' \<Longrightarrow> conn_step ops sock cops rely isn s s'"
  by (induction ops sock isn ev s rule: run_event.induct)
    (auto intro: conn_step.intros split: if_splits rx_thread.splits prod.splits)

lemma run_events_reach:
  "conn_reach ops sock cops rely isn s0 s \<Longrightarrow> run_events ops sock isn evs s = Some s' \<Longrightarrow>
   conn_reach ops sock cops rely isn s0 s'"
proof (induction evs arbitrary: s)
  case (Cons ev evs)
  then obtain s1 where "run_event ops sock isn ev s = Some s1" "run_events ops sock isn evs s1 = Some s'"
    by (auto split: option.splits)
  with Cons show ?case by (blast intro: conn_reach.more run_event_step)
qed simp

definition ex_cops :: "unit client_ops" where
  "ex_cops = \<lparr>cl_result_ok = (\<lambda>c. (Inr (), c)), cl_take_fd = (\<lambda>c. (9, c))\<rparr>"

definition ex_sock :: client_sock where
  "ex_sock fd taken data = int (length data)"

definition ex_events :: "sys_event list" where
  "ex_events =
     [Ev_ctl 0 (tcphdr_zero\<lparr>th_flags := TH_SYN OR TH_ACK, th_seq := 100\<rparr>), Ev_recv 0 0, Ev_recv 0 0,
      Ev_data 0 (tcphdr_zero\<lparr>th_flags := TH_ACK, th_seq := 101\<rparr>) [1, 2],
      Ev_data 1 (tcphdr_zero\<lparr>th_flags := TH_ACK, th_seq := 103\<rparr>) [3],
      Ev_recv 1 0, Ev_recv 0 1, Ev_recv 0 1]"

abbreviation ex_init :: "(usblink, unit) conn_sys" where
  "ex_init \<equiv> init_sys (\<lambda>_. 0) 10 5 22 ex_link ()"

lemma ex_run:
  "\<exists>s. run_events (usb_ops ex_env) ex_sock 100 ex_events ex_init = Some s
     \<and> tc_state (cs_tcp s) = CONN_CONNECTED \<and> ul_reapConnections (cs_dev s) = [] \<and> ul_killed (cs_dev s) = 0
     \<and> tc_to_client (cs_tcp s) = [1, 2] \<and> cs_stream s = [[1, 2], [3]]"
  by (simp add: ex_events_def init_sys_def new_tcp_def NUM_RX_LOOPS_def USB_MRU_def USB_MTU_def
     tcphdr_zero_def tcp_flags hi_handshake_def hi_ack_section_def hi_forward_def scaled_window_def payload_len_def
     send_ack_nolock_def upd_stx_def tcp_emit_def usb_ops_def send_packet_eval ex_env_def ex_link_def tcp_header_def ex_sock_def)

lemma client_stream_in_order_witness:
  "\<exists>s n. conn_reach (usb_ops ex_env) ex_sock ex_cops
      (rely_on tcp_sent ul_reapConnections link_condemned 5) 100 ex_init s
    \<and> n \<le> 2 \<and> concat (take n [[1, 2], [3]]) = tc_to_client (cs_tcp s) \<and> tc_to_client (cs_tcp s) = [1, 2]"
proof -
  from ex_run obtain s where s: "run_events (usb_ops ex_env) ex_sock 100 ex_events ex_init = Some s"
    "ul_reapConnections (cs_dev s) = []" "tc_to_client (cs_tcp s) = [1, 2]" "cs_stream s = [[1, 2], [3]]"
    by auto
  have reach: "conn_reach (usb_ops ex_env) ex_sock ex_cops
      (rely_on tcp_sent ul_reapConnections link_condemned 5) 100 ex_init s"
    by (rule run_events_reach [OF conn_reach.here s(1)])
  from client_stream_in_order [OF reach] s(2,4) obtain n where
    "n \<le> 2" "tc_to_client (cs_tcp s) = concat (take n [[1, 2], [3]])"
    by (auto simp: numeral_2_eq_2)
  with reach s(3) show ?thesis by metis
qed

end
