(* ===== verification/TCP_Sender.thy ===== *)
theory TCP_Sender
  imports TCP_System
begin

text \<open>
  The other direction of a connection: what its event loop (\<^verbatim>\<open>TCP::loopEvent\<close> and \<^verbatim>\<open>TCP::send_data\<close>)
  puts on the bus is what it read from the client, in order and under consecutive sequence numbers.
\<close>

section \<open>Segments in sequence\<close>

definition payloads :: "(tcphdr \<times> bytes) list \<Rightarrow> bytes" where
  "payloads segs = concat (map snd segs)"

fun in_sequence :: "u32 \<Rightarrow> (tcphdr \<times> bytes) list \<Rightarrow> bool" where
  "in_sequence q [] = True"
| "in_sequence q ((h, p) # rest) =
     ((p \<noteq> [] \<longrightarrow> th_seq h = q) \<and> in_sequence (q + of_nat (length p)) rest)"

lemma payloads_simps [simp]:
  "payloads [] = []" "payloads (xs @ ys) = payloads xs @ payloads ys" "payloads ((h, p) # xs) = p @ payloads xs"
  by (simp_all add: payloads_def)

lemma in_sequence_append [simp]:
  "in_sequence q (xs @ ys) = (in_sequence q xs \<and> in_sequence (q + of_nat (length (payloads xs))) ys)"
  by (induction q xs rule: in_sequence.induct) (auto simp: ac_simps)

definition bare :: "(tcphdr \<times> bytes) list \<Rightarrow> bool" where
  "bare segs \<longleftrightarrow> (\<forall>(h, p) \<in> set segs. p = [])"

lemma bare_facts:
  assumes "bare segs"
  shows "payloads segs = []" and "in_sequence q segs"
  using assms by (induction q segs rule: in_sequence.induct) (auto simp: bare_def)

lemma own_segments_append [simp]: "own_segments sp (xs @ ys) = own_segments sp xs @ own_segments sp ys"
  by (simp add: own_segments_def)

lemma bare_own: "bare segs \<Longrightarrow> bare (own_segments sp segs)"
  by (auto simp: bare_def own_segments_def)

section \<open>The invariant\<close>

text \<open>The bytes read from the client and not yet sent: the part of the ring buffer the loop works on.\<close>

fun pending :: "tcp \<Rightarrow> le_pc option \<Rightarrow> bytes" where
  "pending t (Some (LE_send hup bufstart m cnt pc)) = map (tc_payloadBuf t) [bufstart ..< bufstart + cnt]"
| "pending t _ = []"

fun loop_ok :: "le_pc option \<Rightarrow> bool" where
  "loop_ok (Some (LE_send hup bufstart m cnt pc)) = (0 < cnt)"
| "loop_ok _ = True"

definition cn_started :: "cn_pc option \<Rightarrow> bool" where
  "cn_started cn \<longleftrightarrow> cn \<in> {Some CN_result, Some CN_handoff, Some CN_done}"

definition tx_inv ::
    "u32 \<Rightarrow> (tcphdr \<times> bytes) list \<Rightarrow> bytes \<Rightarrow> tcp \<Rightarrow> cn_pc option \<Rightarrow> le_pc option \<Rightarrow> bool" where
  "tx_inv iss mine taken t cn lp \<longleftrightarrow> in_sequence (iss + 1) mine \<and> loop_ok lp
     \<and> (if lp = None then (\<exists>rest. taken = payloads mine @ rest) else taken = payloads mine @ pending t lp)
     \<and> (tc_state t = CONN_CONNECTING \<longrightarrow> stx_seq (tc_stx t) = iss \<and> \<not> tc_running t \<and> \<not> cn_started cn)
     \<and> (tc_state t = CONN_CONNECTED \<or> tc_running t \<or> cn_started cn
          \<longrightarrow> stx_seq (tc_stx t) = iss + 1 + of_nat (length (payloads mine)))
     \<and> (\<not> tc_running t \<longrightarrow> payloads mine = [] \<and> lp = Some LE_start)"

text \<open>How the sections outside the event loop change what the invariant speaks of.\<close>

definition seq_change :: "tcp \<Rightarrow> tcp \<Rightarrow> bool" where
  "seq_change t t' \<longleftrightarrow>
     (stx_seq (tc_stx t') = stx_seq (tc_stx t)
        \<and> (tc_state t' = tc_state t \<or> tc_state t' \<in> {CONN_REFUSED, CONN_DYING}))
     \<or> (tc_state t = CONN_CONNECTING \<and> tc_state t' = CONN_CONNECTED
        \<and> stx_seq (tc_stx t') = stx_seq (tc_stx t) + 1)"

lemma pending_cong: "tc_payloadBuf t' = tc_payloadBuf t \<Longrightarrow> pending t' lp = pending t lp"
  by (cases "(t, lp)" rule: pending.cases) auto

lemma tx_inv_change:
  assumes "tx_inv iss mine taken t cn lp" and "seq_change t t'" and "bare ex"
    and "tc_running t' = tc_running t" and "tc_payloadBuf t' = tc_payloadBuf t"
  shows "tx_inv iss (mine @ ex) taken t' cn lp"
  using assms pending_cong [OF assms(5), of lp] bare_facts [OF assms(3)]
  by (auto simp: tx_inv_def seq_change_def split: if_splits)

context tcp_link
begin

lemma ack_section_tx:
  assumes "hi_ack_section ops members hdr p (t, d) = (r, (t', d'))"
  shows "seq_change t t' \<and> tc_running t' = tc_running t \<and> tc_payloadBuf t' = tc_payloadBuf t
    \<and> (\<exists>ex. sent d' = sent d @ ex \<and> bare ex)"
proof -
  have quiet: "\<exists>ex. sent d = sent d @ ex \<and> bare ex"
    by (rule exI [of _ "[]"]) (simp add: bare_def)
  show ?thesis
  proof (cases "stx_ack (tc_stx t) = th_seq hdr \<and> payload_len p \<noteq> 0 \<and> members = 0")
    case True
    define t1 where "t1 = upd_stx (\<lambda>s. s\<lparr>stx_inWin := scaled_window hdr, stx_seqAcked := th_ack hdr,
                stx_ack := stx_ack s + payload_len p\<rparr>) t"
    obtain r2 t2 d2 where run: "send_ack_nolock ops (t1, d) = (r2, (t2, d2))"
      by (metis prod.exhaust)
    with True assms have "t' = t2" "d' = d2"
      unfolding hi_ack_section_def t1_def
      by (auto simp: thenE_def Let_def split: sum.splits)
    with send_ack_effect [OF run] show ?thesis by (auto simp: t1_def seq_change_def bare_def)
  next
    case False
    with assms quiet show ?thesis
      by (auto simp: hi_ack_section_def Let_def seq_change_def split: if_splits)
  qed
qed

lemma handshake_tx:
  assumes "hi_handshake ops hdr (t, d) = (r, (t', d'))" and "tc_state t = CONN_CONNECTING"
  shows "condemned d' \<or> seq_change t t' \<and> tc_running t' = tc_running t
    \<and> tc_payloadBuf t' = tc_payloadBuf t \<and> (\<exists>ex. sent d' = sent d @ ex \<and> bare ex)"
proof (cases "th_flags hdr = (TH_SYN OR TH_ACK)")
  case True
  define t1 where "t1 = upd_stx (\<lambda>s. s\<lparr>stx_seq := stx_seq s + 1, stx_ack := th_seq hdr + 1,
    stx_inWin := scaled_window hdr, stx_pktForwarded := th_seq hdr + 1\<rparr>) t"
  obtain r2 t2 d2 where run: "send_ack_nolock ops (t1, d) = (r2, (t2, d2))"
    by (metis prod.exhaust)
  show ?thesis
  proof (cases r2)
    case (Inl e)
    with run True assms(1) have "d' = d2" by (auto simp: hi_handshake_def Let_def t1_def)
    with Inl send_ack_effect [OF run] show ?thesis by auto
  next
    case (Inr u)
    with run True assms(1) have "t' = t2\<lparr>tc_state := CONN_CONNECTED\<rparr>" "d' = d2"
      by (auto simp: hi_handshake_def Let_def t1_def)
    with send_ack_effect [OF run] assms(2) show ?thesis
      by (auto simp: t1_def seq_change_def bare_def)
  qed
next
  case False
  have "\<exists>ex. sent d = sent d @ ex \<and> bare ex"
    by (rule exI [of _ "[]"]) (simp add: bare_def)
  with False assms show ?thesis
    by (auto simp: hi_handshake_def tcp_kill_def close_sent seq_change_def split: if_splits)
qed

lemma receive_tx:
  assumes "handle_input_step ops sock members hdr p pc (t, d) = (r, (t', d'))"
  shows "condemned d' \<or> seq_change t t' \<and> tc_running t' = tc_running t
    \<and> tc_payloadBuf t' = tc_payloadBuf t \<and> (\<exists>ex. sent d' = sent d @ ex \<and> bare ex)"
proof -
  have quiet: "\<exists>ex. sent d = sent d @ ex \<and> bare ex"
    by (rule exI [of _ "[]"]) (simp add: bare_def)
  show ?thesis
  proof (cases pc)
    case HI_enter
    show ?thesis
    proof (cases "tc_state t")
      case CONN_CONNECTING
      with HI_enter assms show ?thesis by (intro handshake_tx) auto
    next
      case CONN_CONNECTED
      with HI_enter assms quiet show ?thesis
        by (auto simp: seq_change_def close_sent tcp_kill_def dest: ack_section_tx split: if_splits)
    qed (use HI_enter assms quiet in \<open>auto simp: seq_change_def\<close>)
  next
    case HI_acklock
    with assms ack_section_tx show ?thesis by auto
  next
    case HI_payload
    with assms quiet show ?thesis
      by (auto simp: seq_change_def hi_forward_def tcp_kill_def close_sent Let_def split: if_splits)
  qed (use assms quiet in \<open>auto simp: seq_change_def split: if_splits\<close>)
qed

end

lemma tx_inv_running:
  assumes "tc_running t" and "tx_inv iss mine taken t cn lp"
  shows "stx_seq (tc_stx t) = iss + 1 + of_nat (length (payloads mine))"
    and "in_sequence (iss + 1) mine" and "loop_ok lp" and "tc_state t \<noteq> CONN_CONNECTING"
    and "lp \<noteq> None \<Longrightarrow> taken = payloads mine @ pending t lp"
    and "\<exists>rest. taken = payloads mine @ rest"
  using assms by (auto simp: tx_inv_def split: if_splits)

text \<open>A section of the event loop that puts the segments \<open>ex\<close> on the bus.\<close>

lemma tx_inv_loop:
  assumes run: "tc_running t" and inv: "tx_inv iss mine taken t cn lp"
    and ex: "in_sequence (stx_seq (tc_stx t)) ex" and lp': "loop_ok lp'"
    and t': "tc_running t'" "tc_state t' = tc_state t"
      "stx_seq (tc_stx t') = stx_seq (tc_stx t) + of_nat (length (payloads ex))"
    and bytes: "if lp' = None then \<exists>rest. taken' = payloads mine @ payloads ex @ rest
      else taken' = payloads mine @ payloads ex @ pending t' lp'"
  shows "tx_inv iss (mine @ ex) taken' t' cn lp'"
  using assms tx_inv_running [OF run inv]
  by (auto simp: tx_inv_def ac_simps split: if_splits)

lemma pending_split:
  assumes "n \<le> cnt"
  shows "map m [b ..< b + cnt] = map m [b ..< b + n] @ map m [b + n ..< b + cnt]"
  using assms by (metis le_iff_add add.assoc le_add1 map_append upt_add_eq_append)

lemma take_buffer: "n \<le> k \<Longrightarrow> take n (map m [b ..< b + k]) = map m [b ..< b + n]"
  by (simp add: take_map)

context tcp_link
begin

lemma loop_send_tx:
  assumes run: "tc_running t"
    and inv: "tx_inv iss mine taken t cn (Some (LE_send hup b m cnt spc))"
    and step: "loopEvent_step ops (LE_send hup b m cnt spc) inp (t, d) = (r, (t', d'))"
  shows "condemned d' \<or> (\<exists>ex. sent d' = sent d @ ex \<and> own_segments (tc_sPort t) ex = ex
    \<and> tx_inv iss (mine @ ex) taken t' cn (snd_after r))"
proof -
  let ?k = "if cnt > TCP_MTU then TCP_MTU else cnt"
  define buf where "buf = map (tc_payloadBuf t) [b ..< b + ?k]"
  note facts = tx_inv_running [OF run inv]
  have cnt: "0 < cnt" using facts(3) by simp
  then have ne: "buf \<noteq> []" by (simp add: buf_def TCP_MTU_eq)
  obtain r2 t2 d2 where sd: "send_data_step ops buf spc (t, d) = (r2, (t2, d2))"
    by (metis prod.exhaust)
  from step sd have t': "t' = t2" "d' = d2"
    and r: "snd_after r = (case r2 of Inl e \<Rightarrow> None
        | Inr (SD_goto pc') \<Rightarrow> Some (LE_send hup b m cnt pc')
        | Inr (SD_return n) \<Rightarrow> Some (if cnt - n > 0 then LE_send hup (b + n) m (cnt - n) SD_retry
            else if hup then LE_recv hup (b + n) m else LE_after hup))"
    by (auto simp: buf_def Let_def split: sum.splits sd_next.splits)
  have same: ?thesis if "t2 = t" "d2 = d" "loop_ok (snd_after r)"
    "snd_after r = None \<or> pending t (snd_after r) = pending t (Some (LE_send hup b m cnt spc))"
    using that t' facts run
    by (intro disjI2 exI [of _ "[]"] conjI tx_inv_loop [OF run inv]) (auto simp: own_segments_def)
  show ?thesis
  proof (cases r2)
    case (Inl e)
    with send_data_step_throws [of buf spc t d e t2 d2] sd ne
    consider "t2 = t" "d2 = d" | "condemned d2" by auto
    then show ?thesis
    proof cases
      case 1
      with Inl r show ?thesis by (intro same) auto
    next
      case 2
      with t' show ?thesis by simp
    qed
  next
    case (Inr nx)
    show ?thesis
    proof (cases nx)
      case (SD_goto pc')
      from sd ne have "t2 = t \<and> d2 = d"
        by (cases rule: send_data_step_transmits) (use Inr SD_goto sd_transmit_ok in fastforce)+
      with Inr SD_goto r cnt show ?thesis by (intro same) auto
    next
      case (SD_return n)
      let ?h = "tcp_header t TH_ACK (stx_seq (tc_stx t))"
      from send_data_step_ok [of buf spc t d n t2 d2] sd ne Inr SD_return
      have n: "n \<le> ?k" and d2: "sent d2 = sent d @ [(?h, take n buf)]"
        and t2: "t2 = upd_stx (\<lambda>s. s\<lparr>stx_acked := stx_ack s, stx_seq := stx_seq s + of_nat n\<rparr>) t"
        by (auto simp: buf_def)
      have buf: "take n buf = map (tc_payloadBuf t) [b ..< b + n]"
        unfolding buf_def by (rule take_buffer [OF n])
      have "n \<le> cnt" using n by (simp split: if_splits)
      then have "taken = payloads mine @ map (tc_payloadBuf t) [b ..< b + n]
          @ map (tc_payloadBuf t) [b + n ..< b + cnt]"
        using facts(5) pending_split [of n cnt] by simp
      with d2 t2 buf r Inr SD_return t' run \<open>n \<le> cnt\<close> show ?thesis
        by (intro disjI2 exI [of _ "[(?h, take n buf)]"] conjI tx_inv_loop [OF run inv])
          (auto simp: own_segments_def)
    qed
  qed
qed

lemma loop_bare_tx:
  assumes run: "tc_running t" and inv: "tx_inv iss mine taken t cn (Some pc)"
    and step: "loopEvent_step ops pc inp (t, d) = (r, (t', d'))"
    and pc: "\<And>hup b m cnt spc. pc \<noteq> LE_send hup b m cnt spc"
  shows "(\<exists>ex. sent d' = sent d @ ex \<and> own_segments (tc_sPort t) ex = ex
    \<and> tx_inv iss (mine @ ex) (taken @ received pc inp) t' cn (snd_after r))"
proof -
  note facts = tx_inv_running [OF run inv]
  have "pending t (Some pc) = []" by (cases pc) (auto simp: pc)
  then have taken: "taken = payloads mine" using facts(5) by simp
  have quiet: ?thesis if "sent d' = sent d" "tc_running t'" "tc_state t' = tc_state t"
      "stx_seq (tc_stx t') = stx_seq (tc_stx t)" "loop_ok (snd_after r)"
      "snd_after r = None \<or> received pc inp = pending t' (snd_after r)"
    using that taken
    by (intro exI [of _ "[]"] conjI tx_inv_loop [OF run inv]) (auto simp: own_segments_def)
  show ?thesis
  proof (cases pc)
    case (LE_poll b m)
    with step run show ?thesis
      by (intro quiet) (auto simp: tcp_kill_def close_sent split: if_splits le_input.splits option.splits)
  next
    case (LE_recv hup b m)
    show ?thesis
    proof (cases inp)
      case (In_recv da)
      with LE_recv step run show ?thesis
        by (intro quiet) (auto simp: tcp_kill_def close_sent write_mem_def
            intro!: nth_equalityI split: if_splits option.splits)
    next
      case In_none
      with LE_recv step run show ?thesis by (intro quiet) (auto simp: tcp_kill_def close_sent)
    next
      case (In_poll x)
      with LE_recv step run show ?thesis by (intro quiet) (auto simp: tcp_kill_def close_sent)
    qed
  next
    case (LE_after hup)
    show ?thesis
    proof (cases hup)
      case True
      let ?h = "tcp_header t TH_RST (stx_seq (tc_stx t))"
      obtain r2 t2 d2 where fin: "tcp_emit ops [] ?h (t, d) = (r2, (t2, d2))" by (metis prod.exhaust)
      from True LE_after step fin have t': "t' = t2" "d' = d2" "snd_after r = None"
        by (auto simp: thenE_def send_fin_def split: sum.splits)
      from tcp_emit_any [OF fin] obtain ex where "t2 = t" "sent d2 = sent d @ ex"
        "ex = [] \<or> ex = [(?h, [])]" by auto
      with t' run LE_after taken show ?thesis
        by (intro exI [of _ ex] conjI tx_inv_loop [OF run inv]) (auto simp: own_segments_def)
    next
      case False
      with LE_after step run show ?thesis by (intro quiet) auto
    qed
  next
    case LE_start
    with step run show ?thesis by (intro quiet) (auto simp: free_region_def Let_def)
  next
    case (LE_send hup b m cnt spc)
    with pc [of hup b m cnt spc] show ?thesis by simp
  next
    case (LE_return b)
    with step run show ?thesis by (intro quiet) auto
  qed
qed

lemma loop_tx:
  assumes run: "tc_running t" and inv: "tx_inv iss mine taken t cn (Some pc)"
    and step: "loopEvent_step ops pc inp (t, d) = (r, (t', d'))"
  shows "condemned d' \<or> (\<exists>ex. sent d' = sent d @ ex \<and> own_segments (tc_sPort t) ex = ex
    \<and> tx_inv iss (mine @ ex) (taken @ received pc inp) t' cn (snd_after r))"
proof (cases pc)
  case (LE_send hup b m cnt spc)
  with loop_send_tx run inv step show ?thesis by simp
qed (use loop_bare_tx [OF run inv step] in auto)

lemma connect_tx:
  assumes inv: "tx_inv iss mine taken t (Some pc) lp"
    and ready: "pc = CN_check \<longrightarrow> tc_state t \<noteq> CONN_CONNECTING"
    and step: "connect_step ops cops pc (t, d, c) = (r, (t', d', c'))" and ex: "bare ex"
  shows "tx_inv iss (mine @ ex) taken t' (case r of Inl e \<Rightarrow> None | Inr pc' \<Rightarrow> Some pc') lp"
proof -
  from connect_effect [OF step] have fr: "tc_state t' = tc_state t"
    "stx_seq (tc_stx t') = stx_seq (tc_stx t)" "tc_running t \<longrightarrow> tc_running t'"
    by (auto simp: rx_frame_def)
  have "tc_payloadBuf t' = tc_payloadBuf t
    \<and> (tc_running t' \<longrightarrow> tc_running t \<or> cn_started (Some pc))
    \<and> (\<forall>pc'. r = Inr pc' \<and> cn_started (Some pc') \<longrightarrow>
        cn_started (Some pc) \<or> tc_state t = CONN_CONNECTED)"
    using step by (cases pc) (auto simp: cn_started_def send_tcp_def tcp_emit_def Let_def
        split: prod.splits sum.splits if_splits)
  with inv fr bare_facts [OF ex] pending_cong [of t' t lp] show ?thesis
    by (auto simp: tx_inv_def cn_started_def split: if_splits sum.splits)
qed

definition tx_sys_inv ::
    "u32 \<Rightarrow> u16 \<Rightarrow> (tcphdr \<times> bytes) list \<Rightarrow> ('d, 'c) conn_sys \<Rightarrow> bool" where
  "tx_sys_inv iss sPort base s \<longleftrightarrow> tc_sPort (cs_tcp s) = sPort \<and> (condemned (cs_dev s)
     \<or> (\<exists>mine. own_segments sPort (sent (cs_dev s)) = base @ mine
          \<and> tx_inv iss mine (cs_taken s) (cs_tcp s) (cs_cn s) (cs_snd s)))"

lemma handle_input_condemned:
  assumes "handle_input_step ops sock members hdr p pc (t, d) = (r, (t', d'))" and "condemned d"
  shows "condemned d'"
proof -
  have ack: "condemned d'" if "hi_ack_section ops members hdr p (t, d) = (r, (t', d'))"
    using that assms(2) unfolding hi_ack_section_def send_ack_nolock_def thenE_def tcp_emit_def
    by (auto simp: Let_def dest: send_condemned split: if_splits prod.splits sum.splits)
  have "condemned d'" if "hi_handshake ops hdr (t, d) = (r, (t', d'))"
    using that assms(2)
    unfolding hi_handshake_def send_ack_nolock_def tcp_emit_def tcp_kill_def
    by (auto simp: Let_def close_condemned dest: send_condemned split: if_splits prod.splits sum.splits)
  with ack assms show ?thesis
    by (cases pc; cases "tc_state t")
      (auto simp: tcp_kill_def close_condemned hi_forward_def Let_def split: if_splits)
qed

lemma loop_condemned:
  assumes "loopEvent_step ops pc inp (t, d) = (r, (t', d'))" and "condemned d"
  shows "condemned d'"
proof (cases pc)
  case (LE_send hup b m cnt spc)
  define buf where "buf = map (tc_payloadBuf t) [b ..< b + (if cnt > TCP_MTU then TCP_MTU else cnt)]"
  obtain r2 t2 d2 where run: "send_data_step ops buf spc (t, d) = (r2, (t2, d2))"
    by (metis prod.exhaust)
  with LE_send assms(1) have "d' = d2"
    by (auto simp: buf_def Let_def split: sum.splits sd_next.splits)
  with run assms(2) show ?thesis
    by (cases spc) (auto simp: sd_transmit_def Let_def dest: send_condemned
        split: if_splits prod.splits sum.splits)
next
  case (LE_after hup)
  with assms show ?thesis
    by (auto simp: thenE_def send_fin_def tcp_emit_def dest: send_condemned
        split: if_splits prod.splits sum.splits)
qed (use assms in \<open>auto simp: tcp_kill_def close_condemned
       split: if_splits le_input.splits option.splits prod.splits\<close>)

lemma step_condemned:
  assumes "conn_step ops sock cops (rely_on sent closing condemned sPort) isn s s'"
    and "condemned (cs_dev s)"
  shows "condemned (cs_dev s')"
  using assms
  by cases (auto simp: rely_on_def dest: handle_input_condemned loop_condemned connect_effect)

lemma step_tx_inv:
  assumes "conn_step ops sock cops (rely_on sent closing condemned sPort) isn s s'"
    and inv: "tx_sys_inv iss sPort base s"
  shows "tx_sys_inv iss sPort base s'"
proof (cases "condemned (cs_dev s')")
  case True
  have "tc_sPort (cs_tcp s') = sPort"
    using assms(1) inv by cases (auto simp: tx_sys_inv_def tcp_deconstruct_def rx_frame_def
        dest: handle_input_sPort connect_effect loop_frame)
  with True show ?thesis by (simp add: tx_sys_inv_def)
next
  case False
  with assms step_condemned obtain mine where sp: "tc_sPort (cs_tcp s) = sPort"
    and own: "own_segments sPort (sent (cs_dev s)) = base @ mine"
    and tx: "tx_inv iss mine (cs_taken s) (cs_tcp s) (cs_cn s) (cs_snd s)"
    unfolding tx_sys_inv_def by blast
  show ?thesis
    using assms(1)
  proof cases
    case (receive i k hdr p pc members r t' d')
    with False receive_tx [OF receive(4)] obtain ex where ex: "sent d' = sent (cs_dev s) @ ex" "bare ex"
      and ch: "seq_change (cs_tcp s) t'" "tc_running t' = tc_running (cs_tcp s)"
        "tc_payloadBuf t' = tc_payloadBuf (cs_tcp s)" by auto
    have "tx_inv iss (mine @ own_segments sPort ex) (cs_taken s) t' (cs_cn s) (cs_snd s)"
      by (rule tx_inv_change [OF tx ch(1) bare_own [OF ex(2)] ch(2,3)])
    with receive sp own ex handle_input_sPort [OF receive(4)] show ?thesis
      by (auto simp: tx_sys_inv_def)
  next
    case (connect pc r t' d' c')
    with connect_effect [OF connect(5)] obtain ex where ex: "sent d' = sent (cs_dev s) @ ex" "bare ex"
      and "tc_sPort t' = tc_sPort (cs_tcp s)" by (auto simp: bare_def rx_frame_def)
    with connect sp own connect_tx [OF tx [unfolded connect(2)] connect(4,5) bare_own [OF ex(2)]]
    show ?thesis by (auto simp: tx_sys_inv_def)
  next
    case (loop pc inp r t' d')
    with False loop_tx [OF loop(3) tx [unfolded loop(2)] loop(6)] obtain ex where
      "sent d' = sent (cs_dev s) @ ex" "own_segments (tc_sPort (cs_tcp s)) ex = ex"
      "tx_inv iss (mine @ ex) (cs_taken s @ received pc inp) t' (cs_cn s) (snd_after r)" by auto
    moreover have "tc_sPort t' = tc_sPort (cs_tcp s)"
      using loop_frame [OF loop(6)] by (simp add: rx_frame_def)
    ultimately show ?thesis
      using loop sp own by (auto simp: tx_sys_inv_def)
  next
    case reap
    have "tx_inv iss (mine @ []) (cs_taken s) (tcp_deconstruct (cs_tcp s)) (cs_cn s) (cs_snd s)"
      by (rule tx_inv_change [OF tx]) (auto simp: tcp_deconstruct_def seq_change_def bare_def)
    with reap sp own show ?thesis by (auto simp: tx_sys_inv_def tcp_deconstruct_def)
  qed (use sp own tx in \<open>auto simp: tx_sys_inv_def rely_on_def\<close>)
qed

lemma reach_tx_inv:
  assumes "conn_reach ops sock cops (rely_on sent closing condemned sPort) isn s0 s"
    and "tx_sys_inv iss sPort base s0"
  shows "tx_sys_inv iss sPort base s"
  using assms by (induction rule: conn_reach.induct) (auto intro: step_tx_inv)

lemma init_tx_inv:
  "tx_sys_inv rnd sPort (own_segments sPort (sent d)) (init_sys mem rnd sPort dPort d c)"
  by (auto simp: tx_sys_inv_def init_sys_def new_tcp_def tx_inv_def cn_started_def)

end

text \<open>
  C2: the client's bytes reach the device in order. Unless sending to the device failed (then it is
  condemned), the segments of a connection carry, one after the other and under consecutive sequence
  numbers starting after the one of the SYN, exactly the bytes read from the client: all of them
  whenever the event loop is at its start, a prefix otherwise.
\<close>

theorem device_stream_in_order:
  fixes d :: "'a usblink_scheme"
  assumes "conn_reach (usb_ops env) sock cops
      (rely_on tcp_sent ul_reapConnections link_condemned sPort) isn
      (init_sys mem rnd sPort dPort d c) s"
  shows "link_condemned (cs_dev s)
    \<or> (\<exists>mine rest. own_segments sPort (tcp_sent (cs_dev s)) = own_segments sPort (tcp_sent d) @ mine
        \<and> in_sequence (rnd + 1) mine \<and> cs_taken s = payloads mine @ rest
        \<and> (cs_snd s = Some LE_start \<longrightarrow> rest = []))"
proof -
  have "usb.tx_sys_inv rnd sPort (own_segments sPort (tcp_sent d)) s"
    by (rule usb.reach_tx_inv [OF assms usb.init_tx_inv])
  then consider "link_condemned (cs_dev s)"
    | mine where "own_segments sPort (tcp_sent (cs_dev s)) = own_segments sPort (tcp_sent d) @ mine"
      "tx_inv rnd mine (cs_taken s) (cs_tcp s) (cs_cn s) (cs_snd s)"
    unfolding usb.tx_sys_inv_def by blast
  then show ?thesis
  proof cases
    case 2
    moreover from 2(2) have "in_sequence (rnd + 1) mine"
      "\<exists>rest. cs_taken s = payloads mine @ rest \<and> (cs_snd s = Some LE_start \<longrightarrow> rest = [])"
      by (auto simp: tx_inv_def split: if_splits)
    ultimately show ?thesis by blast
  qed simp
qed

lemma device_stream_in_order_witness:
  "\<exists>s mine. conn_reach (usb_ops ex_env) ex_sock ex_cops
      (rely_on tcp_sent ul_reapConnections link_condemned 5) 100 ex_init s
    \<and> own_segments 5 (tcp_sent (cs_dev s)) = own_segments 5 (tcp_sent ex_link) @ mine
    \<and> in_sequence 11 mine"
proof -
  from ex_run obtain s where s: "run_events (usb_ops ex_env) ex_sock 100 ex_events ex_init = Some s"
    "ul_killed (cs_dev s) = 0" by auto
  have reach: "conn_reach (usb_ops ex_env) ex_sock ex_cops
      (rely_on tcp_sent ul_reapConnections link_condemned 5) 100 ex_init s"
    by (rule run_events_reach [OF conn_reach.here s(1)])
  from device_stream_in_order [OF reach] s(2) obtain mine where
    "own_segments 5 (tcp_sent (cs_dev s)) = own_segments 5 (tcp_sent ex_link) @ mine" "in_sequence (10 + 1) mine"
    by (auto simp: link_condemned_def)
  with reach show ?thesis by (metis numeral_plus_one semiring_norm(5))
qed

end
