(* ===== verification/Plist_Lib.thy ===== *)
theory Plist_Lib
  imports Mux_Prelude "HOL-Library.AList" "HOL-Library.Countable"
begin

text \<open>
  libplist is not part of the repository: the functions the code calls are the fields of a record that
  every definition takes as a parameter, over an abstract type of nodes. \<open>plist_laws\<close> is what the
  documentation of libplist promises and the code relies on. \<open>tree_lib\<close> is a small library of trees
  that keeps these promises; it is only there to show that they can be kept.
\<close>

text \<open>
  A getter of a value gives \<open>None\<close> where the node has another type or there is no node; a parser gives
  \<open>None\<close> where it leaves its result pointer NULL.
\<close>

record 'p plist_lib =
  plist_new_dict :: 'p
  plist_new_array :: 'p
  plist_new_string :: "string \<Rightarrow> 'p"
  plist_new_uint :: "u64 \<Rightarrow> 'p"
  plist_new_int :: "int \<Rightarrow> 'p"
  plist_new_bool :: "bool \<Rightarrow> 'p"
  plist_new_data :: "bytes \<Rightarrow> 'p"
  plist_dict_set :: "'p \<Rightarrow> string \<Rightarrow> 'p \<Rightarrow> 'p"
  plist_dict_get :: "'p \<Rightarrow> string \<Rightarrow> 'p option"
  plist_array_append :: "'p \<Rightarrow> 'p \<Rightarrow> 'p"
  plist_get_string :: "'p \<Rightarrow> string option"
  plist_get_uint :: "'p \<Rightarrow> u64 option"
  plist_get_bool :: "'p \<Rightarrow> bool option"
  plist_get_data :: "'p \<Rightarrow> bytes option"
  plist_to_xml :: "'p \<Rightarrow> bytes"
  plist_to_bin :: "'p \<Rightarrow> bytes"
  plist_from_xml :: "bytes \<Rightarrow> 'p option"
  plist_from_memory :: "bytes \<Rightarrow> 'p option"

definition plist_is_dict :: "'p plist_lib \<Rightarrow> 'p \<Rightarrow> bool" where
  "plist_is_dict L d \<longleftrightarrow> (\<exists>kvs. d = fold (\<lambda>(k, v) e. plist_dict_set L e k v) kvs (plist_new_dict L))"

definition plist_laws :: "'p plist_lib \<Rightarrow> bool" where
  "plist_laws L \<longleftrightarrow>
     (\<forall>d k v. plist_is_dict L d \<longrightarrow> plist_dict_get L (plist_dict_set L d k v) k = Some v)
     \<and> (\<forall>d k k' v. k' \<noteq> k \<longrightarrow> plist_dict_get L (plist_dict_set L d k v) k' = plist_dict_get L d k')
     \<and> (\<forall>k. plist_dict_get L (plist_new_dict L) k = None)
     \<and> (\<forall>s. plist_get_string L (plist_new_string L s) = Some s)
     \<and> (\<forall>n. plist_get_uint L (plist_new_uint L n) = Some n)
     \<and> (\<forall>b. plist_get_bool L (plist_new_bool L b) = Some b)
     \<and> (\<forall>bs. plist_get_data L (plist_new_data L bs) = Some bs)
     \<and> (\<forall>p. plist_from_memory L (plist_to_xml L p) = Some p)
     \<and> (\<forall>p. plist_from_memory L (plist_to_bin L p) = Some p)
     \<and> (\<forall>p. plist_from_xml L (plist_to_xml L p) = Some p)"

lemma plist_lawsD:
  assumes "plist_laws L"
  shows "plist_is_dict L d \<Longrightarrow> plist_dict_get L (plist_dict_set L d k v) k = Some v"
    and "k' \<noteq> k \<Longrightarrow> plist_dict_get L (plist_dict_set L d k v) k' = plist_dict_get L d k'"
    and "plist_dict_get L (plist_new_dict L) k = None"
    and "plist_get_string L (plist_new_string L s) = Some s"
    and "plist_get_uint L (plist_new_uint L n) = Some n"
    and "plist_get_bool L (plist_new_bool L b) = Some b"
    and "plist_get_data L (plist_new_data L bs) = Some bs"
    and "plist_from_memory L (plist_to_xml L p) = Some p"
    and "plist_from_memory L (plist_to_bin L p) = Some p"
    and "plist_from_xml L (plist_to_xml L p) = Some p"
  using assms by (auto simp: plist_laws_def)

lemma plist_is_dict_new [simp]: "plist_is_dict L (plist_new_dict L)"
  unfolding plist_is_dict_def by (rule exI [of _ "[]"]) simp

lemma plist_is_dict_set [simp]:
  assumes "plist_is_dict L d" shows "plist_is_dict L (plist_dict_set L d k v)"
proof -
  from assms obtain kvs where "d = fold (\<lambda>(k, v) e. plist_dict_set L e k v) kvs (plist_new_dict L)"
    by (auto simp: plist_is_dict_def)
  then show ?thesis
    unfolding plist_is_dict_def by (intro exI [of _ "kvs @ [(k, v)]"]) simp
qed

section \<open>The promises can be kept\<close>

datatype tree =
    Dict "(string \<times> tree) list"
  | Arr "tree list"
  | Str string
  | Num int
  | Bln bool
  | Dat "int list"

instance tree :: countable
  by countable_datatype

fun tree_set :: "tree \<Rightarrow> string \<Rightarrow> tree \<Rightarrow> tree" where
  "tree_set (Dict kvs) k v = Dict (AList.update k v kvs)"
| "tree_set t k v = t"

fun tree_get :: "tree \<Rightarrow> string \<Rightarrow> tree option" where
  "tree_get (Dict kvs) k = map_of kvs k"
| "tree_get t k = None"

definition tree_bytes :: "tree \<Rightarrow> bytes" where
  "tree_bytes t = replicate (to_nat t) 0"

definition tree_lib :: "tree plist_lib" where
  "tree_lib = \<lparr>plist_new_dict = Dict [], plist_new_array = Arr [], plist_new_string = Str,
     plist_new_uint = (\<lambda>n. Num (uint n)), plist_new_int = Num, plist_new_bool = Bln,
     plist_new_data = (\<lambda>bs. Dat (map uint bs)),
     plist_dict_set = tree_set, plist_dict_get = tree_get,
     plist_array_append = (\<lambda>a t. case a of Arr ts \<Rightarrow> Arr (ts @ [t]) | _ \<Rightarrow> a),
     plist_get_string = (\<lambda>t. case t of Str s \<Rightarrow> Some s | _ \<Rightarrow> None),
     plist_get_uint = (\<lambda>t. case t of Num n \<Rightarrow> Some (of_int n) | _ \<Rightarrow> None),
     plist_get_bool = (\<lambda>t. case t of Bln b \<Rightarrow> Some b | _ \<Rightarrow> None),
     plist_get_data = (\<lambda>t. case t of Dat ns \<Rightarrow> Some (map of_int ns) | _ \<Rightarrow> None),
     plist_to_xml = tree_bytes, plist_to_bin = tree_bytes,
     plist_from_xml = (\<lambda>bs. Some (from_nat (length bs))),
     plist_from_memory = (\<lambda>bs. Some (from_nat (length bs)))\<rparr>"

lemma tree_is_dict: "plist_is_dict tree_lib d \<Longrightarrow> \<exists>kvs. d = Dict kvs"
proof -
  have "\<exists>kvs. fold (\<lambda>(k, v) e. tree_set e k v) ups (Dict kvs0) = Dict kvs" for ups kvs0
    by (induction ups arbitrary: kvs0) auto
  moreover assume "plist_is_dict tree_lib d"
  ultimately show ?thesis by (fastforce simp: plist_is_dict_def tree_lib_def)
qed

lemma tree_set_other: "k' \<noteq> k \<Longrightarrow> tree_get (tree_set d k v) k' = tree_get d k'"
  by (cases d) (auto simp: update_conv')

lemma tree_lib_laws: "plist_laws tree_lib"
  unfolding plist_laws_def
  by (auto dest!: tree_is_dict)
    (auto simp: tree_lib_def tree_bytes_def tree_set_other update_conv' map_idI)

end
