(* ===== verification/Client.thy ===== *)
theory Client
  imports Wire_Format Plist_Lib
begin

text \<open>
  A client of the daemon, \<^verbatim>\<open>Client.hpp\<close> and the transport half of \<^verbatim>\<open>Client.cpp\<close>: gathering one message
  from the socket (\<open>readData\<close>, \<open>recv_data\<close>) and the packets sent back (\<open>writeData\<close>, \<open>send_pkt\<close>,
  \<open>send_plist_pkt\<close>, \<open>send_result\<close>). The socket is a parameter: \<open>sock fd taken data\<close> is the result of
  \<open>send\<close> after the socket took the bytes \<open>taken\<close>; the results of \<open>recv\<close> are inputs, with \<open>None\<close> for an
  error and no bytes for a peer that is gone.
\<close>

section \<open>State\<close>

type_synonym socket = "int \<Rightarrow> bytes \<Rightarrow> bytes \<Rightarrow> int"

record cinfo =
  ci_bundleID :: "string option"
  ci_clientVersionString :: "string option"
  ci_progName :: "string option"
  ci_kLibUSBMuxVersion :: u64

text \<open>
  \<open>cl_mem\<close> is the memory of \<open>_recvbuffer\<close>, which keeps its contents between messages; \<open>cl_out\<close> is what
  the socket has taken. A string of \<open>cinfo\<close> is a C string, \<open>None\<close> the null pointer it starts as.
  \<open>cl_fd\<close> is -1 once a connection has taken the descriptor over.
\<close>

record client =
  cl_fd :: int
  cl_number :: nat
  cl_mem :: "nat \<Rightarrow> u8"
  cl_recvBytesCnt :: nat
  cl_proto_version :: u32
  cl_isListening :: bool
  cl_connectTag :: u32
  cl_info :: cinfo
  cl_out :: bytes

definition client_bufsize :: nat where "client_bufsize = 0x20000"

definition new_client :: "(nat \<Rightarrow> u8) \<Rightarrow> int \<Rightarrow> nat \<Rightarrow> client" where
  "new_client mem fd number = \<lparr>cl_fd = fd, cl_number = number, cl_mem = mem, cl_recvBytesCnt = 0,
     cl_proto_version = 0, cl_isListening = False, cl_connectTag = 0,
     cl_info = \<lparr>ci_bundleID = None, ci_clientVersionString = None, ci_progName = None,
                ci_kLibUSBMuxVersion = 0\<rparr>,
     cl_out = []\<rparr>"

section \<open>Receiving\<close>

definition put_mem :: "(nat \<Rightarrow> u8) \<Rightarrow> nat \<Rightarrow> bytes \<Rightarrow> nat \<Rightarrow> u8" where
  "put_mem m off bs i = (if off \<le> i \<and> i < off + length bs then bs ! (i - off) else m i)"

definition get_mem :: "(nat \<Rightarrow> u8) \<Rightarrow> nat \<Rightarrow> nat \<Rightarrow> bytes" where
  "get_mem m off n = map m [off ..< off + n]"

definition client_hdr :: "client \<Rightarrow> usbmuxd_header" where
  "client_hdr c = decode_usbmuxd_header (get_mem (cl_mem c) 0 sizeof_usbmuxd_header)"

definition readData :: "bytes option \<Rightarrow> (client, unit) act" where
  "readData got c =
     (if client_bufsize - cl_recvBytesCnt c = 0 then (Inl Out_of_bufspace, c)
      else case got of
        None \<Rightarrow> (Inl Recv_failed, c)
      | Some bs \<Rightarrow>
          if bs = [] then (Inl Client_disconnected, c)
          else (Inr (), c\<lparr>cl_mem := put_mem (cl_mem c) (cl_recvBytesCnt c) bs,
                          cl_recvBytesCnt := cl_recvBytesCnt c + length bs\<rparr>))"

text \<open>
  \<open>recv_data\<close> waits in \<open>recv\<close> at three places; a step is one \<open>recv\<close> and what follows it up to the next
  one. \<open>RD_done\<close> is the call of \<open>processData\<close>.
\<close>

datatype rd_pc = RD_first | RD_second | RD_body | RD_done

definition rd_body :: "client \<Rightarrow> rd_pc" where
  "rd_body c = (if cl_recvBytesCnt c < unat (uh_length (client_hdr c)) then RD_body else RD_done)"

fun recv_data_step :: "rd_pc \<Rightarrow> bytes option \<Rightarrow> (client, rd_pc) act" where
  "recv_data_step RD_first got c =
     thenE (readData got) (\<lambda>_ c.
       if cl_recvBytesCnt c < sizeof_usbmuxd_header then (Inr RD_second, c) else (Inr (rd_body c), c)) c"
| "recv_data_step RD_second got c =
     thenE (readData got) (\<lambda>_ c.
       if cl_recvBytesCnt c < sizeof_usbmuxd_header then (Inl Short_header, c)
       else (Inr (rd_body c), c)) c"
| "recv_data_step RD_body got c =
     thenE (readData got) (\<lambda>_ c.
       if \<not> cl_recvBytesCnt c < client_bufsize then (Inl Out_of_bufspace, c)
       else (Inr (rd_body c), c)) c"
| "recv_data_step RD_done got c = (Inr RD_done, c)"

text \<open>The start of \<open>Client::loopEvent\<close>, and the run over the results of \<open>recv\<close>.\<close>

definition loopEvent_start :: "client \<Rightarrow> client" where
  "loopEvent_start c = c\<lparr>cl_recvBytesCnt := 0\<rparr>"

fun recv_data :: "rd_pc \<Rightarrow> bytes option list \<Rightarrow> (client, rd_pc) act" where
  "recv_data pc [] c = (Inr pc, c)"
| "recv_data pc (got # rest) c = thenE (recv_data_step pc got) (\<lambda>pc'. recv_data pc' rest) c"

section \<open>Sending\<close>

definition sock_send :: "socket \<Rightarrow> bytes \<Rightarrow> client \<Rightarrow> int \<times> client" where
  "sock_send sock data c =
     (let n = sock (cl_fd c) (cl_out c) data in (n, c\<lparr>cl_out := cl_out c @ take (nat n) data\<rparr>))"

definition writeData :: "socket \<Rightarrow> usbmuxd_header \<Rightarrow> bytes \<Rightarrow> (client, unit) act" where
  "writeData sock hdr buf c =
     (case sock_send sock (encode_usbmuxd_header hdr) c of
        (n, c1) \<Rightarrow> if n \<noteq> int sizeof_usbmuxd_header then (Inl Send_failed, c1)
                  else (case sock_send sock buf c1 of
                          (n2, c2) \<Rightarrow> if n2 \<noteq> int (length buf) then (Inl Send_failed, c2)
                                     else (Inr (), c2)))"

definition send_pkt :: "socket \<Rightarrow> u32 \<Rightarrow> usbmuxd_msgtype \<Rightarrow> bytes \<Rightarrow> (client, unit) act" where
  "send_pkt sock tag msg payload c =
     writeData sock \<lparr>uh_length = of_nat (sizeof_usbmuxd_header + length payload),
       uh_version = cl_proto_version c, uh_message = msgtype_code msg, uh_tag = tag\<rparr> payload c"

definition send_plist_pkt :: "'p plist_lib \<Rightarrow> socket \<Rightarrow> u32 \<Rightarrow> 'p \<Rightarrow> (client, unit) act" where
  "send_plist_pkt L sock tag p = send_pkt sock tag MESSAGE_PLIST (plist_to_xml L p)"

definition result_plist :: "'p plist_lib \<Rightarrow> u32 \<Rightarrow> 'p" where
  "result_plist L result =
     plist_dict_set L (plist_dict_set L (plist_new_dict L) ''MessageType'' (plist_new_string L ''Result''))
       ''Number'' (plist_new_uint L (ucast result))"

definition send_result :: "'p plist_lib \<Rightarrow> socket \<Rightarrow> u32 \<Rightarrow> u32 \<Rightarrow> (client, unit) act" where
  "send_result L sock tag result c =
     (if cl_proto_version c = 1 then send_plist_pkt L sock tag (result_plist L result) c
      else send_pkt sock tag MESSAGE_RESULT (le32 result) c)"

section \<open>Client information\<close>

definition update_client_info :: "'p plist_lib \<Rightarrow> 'p \<Rightarrow> client \<Rightarrow> client" where
  "update_client_info L dict c =
     (let str = (\<lambda>key old. case plist_dict_get L dict key of
                   None \<Rightarrow> old
                 | Some n \<Rightarrow> (case plist_get_string L n of None \<Rightarrow> old | Some s \<Rightarrow> Some s));
          i = cl_info c
      in c\<lparr>cl_info := \<lparr>ci_bundleID = str ''BundleID'' (ci_bundleID i),
            ci_clientVersionString = str ''ClientVersionString'' (ci_clientVersionString i),
            ci_progName = str ''ProgName'' (ci_progName i),
            ci_kLibUSBMuxVersion =
              (case plist_dict_get L dict ''kLibUSBMuxVersion'' of
                 None \<Rightarrow> ci_kLibUSBMuxVersion i
               | Some n \<Rightarrow> (case plist_get_uint L n of
                   None \<Rightarrow> ci_kLibUSBMuxVersion i | Some v \<Rightarrow> v))\<rparr>\<rparr>)"

section \<open>Facts\<close>

lemma put_get_mem:
  "get_mem (put_mem m n bs) 0 (n + length bs) = get_mem m 0 n @ bs"
  by (rule nth_equalityI) (auto simp: get_mem_def put_mem_def nth_append)

lemma readData_cases:
  assumes "readData got c = (r, c')"
  obtains (fails) e where "r = Inl e" "c' = c"
    | (reads) bs where "got = Some bs" "bs \<noteq> []" "r = Inr ()" "cl_recvBytesCnt c < client_bufsize"
      "cl_recvBytesCnt c' = cl_recvBytesCnt c + length bs"
      "get_mem (cl_mem c') 0 (cl_recvBytesCnt c') = get_mem (cl_mem c) 0 (cl_recvBytesCnt c) @ bs"
      "cl_out c' = cl_out c"
  using assms by (auto simp: readData_def put_get_mem split: if_splits option.splits)

text \<open>How the steps of \<open>recv_data\<close> end.\<close>

lemma recv_data_step_ok:
  assumes "recv_data_step pc got c = (Inr pc', c')" and "pc \<noteq> RD_done"
    and "pc = RD_body \<longrightarrow> sizeof_usbmuxd_header \<le> cl_recvBytesCnt c"
  shows "\<exists>bs. got = Some bs \<and> bs \<noteq> [] \<and> cl_recvBytesCnt c' = cl_recvBytesCnt c + length bs
    \<and> get_mem (cl_mem c') 0 (cl_recvBytesCnt c') = get_mem (cl_mem c) 0 (cl_recvBytesCnt c) @ bs
    \<and> cl_out c' = cl_out c
    \<and> (pc' \<noteq> RD_second \<longrightarrow> sizeof_usbmuxd_header \<le> cl_recvBytesCnt c' \<and> pc' = rd_body c')"
  using assms
  by (cases pc) (auto elim!: thenE_cases readData_cases split: if_splits)

lemma rd_body_cases: "rd_body c = RD_body \<or> rd_body c = RD_done"
  by (simp add: rd_body_def)

lemma recv_data_done: "recv_data RD_done gots c = (Inr RD_done, c)"
  by (induction gots) (auto simp: thenE_def)

lemma recv_data_run:
  assumes "recv_data pc gots c = (Inr RD_done, c')" and "pc \<noteq> RD_done"
    and "pc = RD_body \<longrightarrow> sizeof_usbmuxd_header \<le> cl_recvBytesCnt c"
  shows "\<exists>bss rest. gots = map Some bss @ rest \<and> (\<forall>bs \<in> set bss. bs \<noteq> [])
    \<and> cl_recvBytesCnt c' = cl_recvBytesCnt c + length (concat bss)
    \<and> get_mem (cl_mem c') 0 (cl_recvBytesCnt c') = get_mem (cl_mem c) 0 (cl_recvBytesCnt c) @ concat bss
    \<and> sizeof_usbmuxd_header \<le> cl_recvBytesCnt c'
    \<and> unat (uh_length (client_hdr c')) \<le> cl_recvBytesCnt c'"
  using assms
proof (induction gots arbitrary: pc c)
  case Nil
  then show ?case by simp
next
  case (Cons got gots)
  from Cons.prems(1) obtain pc1 c1 where step: "recv_data_step pc got c = (Inr pc1, c1)"
    and run: "recv_data pc1 gots c1 = (Inr RD_done, c')"
    by (auto elim: thenE_cases)
  from recv_data_step_ok [OF step Cons.prems(2,3)] obtain bs where bs: "got = Some bs" "bs \<noteq> []"
    "cl_recvBytesCnt c1 = cl_recvBytesCnt c + length bs"
    "get_mem (cl_mem c1) 0 (cl_recvBytesCnt c1) = get_mem (cl_mem c) 0 (cl_recvBytesCnt c) @ bs"
    and pc1: "pc1 \<noteq> RD_second \<longrightarrow> sizeof_usbmuxd_header \<le> cl_recvBytesCnt c1 \<and> pc1 = rd_body c1" by blast
  show ?case
  proof (cases "pc1 = RD_done")
    case True
    with run have c': "c' = c1" by (simp add: recv_data_done)
    from True pc1 have "unat (uh_length (client_hdr c1)) \<le> cl_recvBytesCnt c1"
      by (auto simp: rd_body_def split: if_splits)
    with True pc1 bs c' show ?thesis
      by (intro exI [of _ "[bs]"] exI [of _ gots]) auto
  next
    case False
    with Cons.IH [OF run] pc1 obtain bss rest where "gots = map Some bss @ rest"
      "\<forall>bs \<in> set bss. bs \<noteq> []" "cl_recvBytesCnt c' = cl_recvBytesCnt c1 + length (concat bss)"
      "get_mem (cl_mem c') 0 (cl_recvBytesCnt c') = get_mem (cl_mem c1) 0 (cl_recvBytesCnt c1) @ concat bss"
      "sizeof_usbmuxd_header \<le> cl_recvBytesCnt c'"
      "unat (uh_length (client_hdr c')) \<le> cl_recvBytesCnt c'" by blast
    with bs show ?thesis
      by (intro exI [of _ "bs # bss"] exI [of _ rest]) auto
  qed
qed

text \<open>
  C20: a message is processed only when it is complete. What \<open>processData\<close> then finds in the buffer is
  exactly what the socket delivered since the start of the call, in order, at least a header and at
  least as much as the header's length field says.
\<close>

theorem recv_data_complete:
  assumes "recv_data RD_first gots (loopEvent_start c) = (Inr RD_done, c')"
  shows "\<exists>bss rest. gots = map Some bss @ rest
    \<and> get_mem (cl_mem c') 0 (cl_recvBytesCnt c') = concat bss
    \<and> sizeof_usbmuxd_header \<le> length (concat bss)
    \<and> unat (uh_length (decode_usbmuxd_header (concat bss))) \<le> length (concat bss)"
proof -
  from recv_data_run [OF assms] obtain bss rest where run: "gots = map Some bss @ rest"
    "cl_recvBytesCnt c' = length (concat bss)"
    "get_mem (cl_mem c') 0 (cl_recvBytesCnt c') = concat bss"
    "sizeof_usbmuxd_header \<le> cl_recvBytesCnt c'"
    "unat (uh_length (client_hdr c')) \<le> cl_recvBytesCnt c'"
    by (auto simp: loopEvent_start_def get_mem_def)
  have "decode_usbmuxd_header (concat bss) = client_hdr c'"
  proof -
    have "concat bss ! i = get_mem (cl_mem c') 0 sizeof_usbmuxd_header ! i" if "i < 16" for i
      using run(3,4) that
      by (metis add_0 client_hdr_def get_mem_def length_map nth_map_upt diff_zero length_upt
          less_le_trans sizeof_usbmuxd_header_def)
    then show ?thesis
      by (simp add: client_hdr_def decode_usbmuxd_header_def get32le_def)
  qed
  with run show ?thesis by auto
qed

lemma writeData_ok:
  assumes "writeData sock hdr buf c = (Inr u, c')"
  shows "c' = c\<lparr>cl_out := cl_out c @ encode_usbmuxd_header hdr @ buf\<rparr>"
  using assms
  by (auto simp: writeData_def sock_send_def Let_def split: if_splits prod.splits)

lemma writeData_out:
  assumes "writeData sock hdr buf c = (r, c')"
  shows "\<exists>ex. c' = c\<lparr>cl_out := cl_out c @ ex\<rparr>"
  using assms
  by (auto simp: writeData_def sock_send_def Let_def split: if_splits prod.splits)

lemma send_pkt_out: "send_pkt sock tag msg payload c = (r, c') \<Longrightarrow> \<exists>ex. c' = c\<lparr>cl_out := cl_out c @ ex\<rparr>"
  unfolding send_pkt_def by (rule writeData_out)

lemma decode_usbmuxd_header_encode [byte_order]:
  "decode_usbmuxd_header (encode_usbmuxd_header h @ ys) = h"
proof -
  let ?a = "le32 (uh_length h)" and ?b = "le32 (uh_version h)"
    and ?c = "le32 (uh_message h)" and ?d = "le32 (uh_tag h)"
  show ?thesis
    using get32le_le32 [of "[]" 0 "uh_length h" "?b @ ?c @ ?d @ ys"]
      get32le_le32 [of ?a 4 "uh_version h" "?c @ ?d @ ys"]
      get32le_le32 [of "?a @ ?b" 8 "uh_message h" "?d @ ys"]
      get32le_le32 [of "?a @ ?b @ ?c" 12 "uh_tag h" ys]
    by (simp add: decode_usbmuxd_header_def encode_usbmuxd_header_def)
qed

text \<open>
  A packet sent to a client is its header followed by its payload and nothing else; the header's
  length field counts both, its version is the one the client speaks, and tag and message are the ones
  asked for.
\<close>

theorem send_pkt_wire:
  assumes "send_pkt sock tag msg payload c = (Inr (), c')"
    and "sizeof_usbmuxd_header + length payload < 2 ^ 32"
  shows "\<exists>pkt. cl_out c' = cl_out c @ pkt \<and> length pkt = sizeof_usbmuxd_header + length payload
    \<and> unat (uh_length (decode_usbmuxd_header pkt)) = length pkt
    \<and> uh_version (decode_usbmuxd_header pkt) = cl_proto_version c
    \<and> uh_message (decode_usbmuxd_header pkt) = msgtype_code msg
    \<and> uh_tag (decode_usbmuxd_header pkt) = tag
    \<and> drop sizeof_usbmuxd_header pkt = payload"
proof -
  let ?h = "\<lparr>uh_length = of_nat (sizeof_usbmuxd_header + length payload),
       uh_version = cl_proto_version c, uh_message = msgtype_code msg, uh_tag = tag\<rparr>"
  from writeData_ok assms(1) have "cl_out c' = cl_out c @ encode_usbmuxd_header ?h @ payload"
    unfolding send_pkt_def by fastforce
  moreover have "decode_usbmuxd_header (encode_usbmuxd_header ?h @ payload) = ?h"
    by (rule decode_usbmuxd_header_encode)
  moreover have "unat (of_nat (sizeof_usbmuxd_header + length payload) :: u32)
      = sizeof_usbmuxd_header + length payload"
    using assms(2) by (intro unat_of_nat_u32)
  ultimately show ?thesis
    by (intro exI [of _ "encode_usbmuxd_header ?h @ payload"]) simp
qed

section \<open>Concrete runs\<close>

definition ex_socket :: socket where
  "ex_socket fd taken data = int (length data)"

definition ex_client :: client where
  "ex_client = new_client (\<lambda>_. 0) 9 1"

definition ex_message :: bytes where
  "ex_message = encode_usbmuxd_header \<lparr>uh_length = 16, uh_version = 0, uh_message = 3, uh_tag = 1\<rparr>"

lemma recv_data_complete_witness:
  "\<exists>c'. recv_data RD_first [Some (take 4 ex_message), Some (drop 4 ex_message)] (loopEvent_start ex_client)
     = (Inr RD_done, c') \<and> get_mem (cl_mem c') 0 (cl_recvBytesCnt c') = ex_message"
proof -
  obtain c' where run: "recv_data RD_first [Some (take 4 ex_message), Some (drop 4 ex_message)]
      (loopEvent_start ex_client) = (Inr RD_done, c')"
    by (simp add: ex_message_def encode_usbmuxd_header_def le32_def be32_def loopEvent_start_def ex_client_def
      new_client_def readData_def client_bufsize_def thenE_def sizeof_usbmuxd_header_def rd_body_def
      client_hdr_def get_mem_def put_mem_def decode_usbmuxd_header_def get32le_def upt_rec)
  from recv_data_complete [OF run] run show ?thesis
    by (auto simp: map_eq_Cons_conv map_eq_append_conv Cons_eq_append_conv sizeof_usbmuxd_header_def
        ex_message_def)
qed

lemma send_pkt_wire_witness:
  "\<exists>c' pkt. send_pkt ex_socket 7 MESSAGE_RESULT [0, 0, 0, 0] ex_client = (Inr (), c')
    \<and> cl_out c' = pkt \<and> length pkt = 20 \<and> uh_tag (decode_usbmuxd_header pkt) = 7"
proof -
  obtain c' where run: "send_pkt ex_socket 7 MESSAGE_RESULT [0, 0, 0, 0] ex_client = (Inr (), c')"
    by (simp add: send_pkt_def writeData_def sock_send_def ex_socket_def Let_def)
  from send_pkt_wire [OF run] run show ?thesis
    by (auto simp: sizeof_usbmuxd_header_def ex_client_def new_client_def)
qed

end
