(* ===== verification/Muxer.thy ===== *)
theory Muxer
  imports Client
begin

text \<open>
  The muxer, \<^verbatim>\<open>Muxer.hpp\<close> and \<^verbatim>\<open>Muxer.cpp\<close>: the set of devices with their identifiers, the set of
  clients, connecting a client to a device, the lists clients ask for and the notifications they get.
  A build with WIFI support is modelled. Objects behind shared pointers that change are in a store,
  \<open>mx_heap\<close>; a set of pointers is the list of its elements in the order of the pointers, which is the
  order the loops visit them. Managers, sockets, libplist, libc's address functions and the devices'
  \<open>start_connect\<close> are parameters.
\<close>

section \<open>State\<close>

datatype mux_conn_type = MUXCONN_UNAVAILABLE | MUXCONN_USB | MUXCONN_WIFI

text \<open>A device: the fields of \<^verbatim>\<open>Devices/Device.hpp\<close> and those of the two kinds the muxer reads.\<close>

record device =
  dv_ptr :: nat
  dv_conntype :: mux_conn_type
  dv_id :: int
  dv_serial :: string
  dv_speed :: u64
  dv_location :: u32
  dv_pid :: u16
  dv_serviceName :: string
  dv_ipaddr :: "string list"
  dv_interfaceIndex :: u32

datatype manager_call =
    Manual_refresh
  | Rediscovery_after_pairing string
  | Session_reconnect nat
  | No_rediscover nat
  | Kill_device nat
  | Kill_client nat

record muxer =
  mx_climgr :: bool
  mx_usbdevmgr :: bool
  mx_wifidevmgr :: bool
  mx_doPreflight :: bool
  mx_allowHeartlessWifi :: bool
  mx_retryWifiSession :: bool
  mx_newid :: int
  mx_devices :: "device list"
  mx_heap :: "nat \<Rightarrow> client"
  mx_clients :: "nat list"
  mx_calls :: "manager_call list"

text \<open>\<open>mx_calls\<close> is the sequence of calls on managers, devices and reapers that take effect elsewhere.\<close>

record 'p mux_env =
  me_plist :: "'p plist_lib"
  me_sock :: socket
  me_start_client :: "nat \<Rightarrow> bool"
  me_start_wifi :: "device \<Rightarrow> bool"
  me_connect :: "device \<Rightarrow> u16 \<Rightarrow> (client, unit) act"
  me_inet_addr :: "string \<Rightarrow> bytes"
  me_inet_pton6 :: "string \<Rightarrow> bytes option"

definition MAXID :: int where "MAXID = (2 ^ 31 - 1) div 2"

definition INVALID_ID :: int where "INVALID_ID = MAXID + 1"

definition new_muxer :: "(nat \<Rightarrow> client) \<Rightarrow> bool \<Rightarrow> bool \<Rightarrow> bool \<Rightarrow> muxer" where
  "new_muxer heap doPreflight allowHeartlessWifi retryWifiSession =
     \<lparr>mx_climgr = False, mx_usbdevmgr = False, mx_wifidevmgr = False, mx_doPreflight = doPreflight,
      mx_allowHeartlessWifi = allowHeartlessWifi, mx_retryWifiSession = retryWifiSession,
      mx_newid = 1, mx_devices = [], mx_heap = heap, mx_clients = [], mx_calls = []\<rparr>"

definition call :: "manager_call \<Rightarrow> muxer \<Rightarrow> muxer" where
  "call c m = m\<lparr>mx_calls := mx_calls m @ [c]\<rparr>"

definition on_client :: "nat \<Rightarrow> (client, 'a) act \<Rightarrow> (muxer, 'a) act" where
  "on_client p f m = (case f (mx_heap m p) of (r, c) \<Rightarrow> (r, m\<lparr>mx_heap := (mx_heap m)(p := c)\<rparr>))"

section \<open>Managers\<close>

definition spawnClientManager :: "(muxer, unit) act" where
  "spawnClientManager m =
     (if mx_climgr m then (Inl Assure_failed, m) else (Inr (), m\<lparr>mx_climgr := True\<rparr>))"

definition spawnUSBDeviceManager :: "(muxer, unit) act" where
  "spawnUSBDeviceManager m =
     (if mx_usbdevmgr m then (Inl Assure_failed, m) else (Inr (), m\<lparr>mx_usbdevmgr := True\<rparr>))"

definition spawnWIFIDeviceManager :: "(muxer, unit) act" where
  "spawnWIFIDeviceManager m =
     (if mx_wifidevmgr m then (Inl Assure_failed, m) else (Inr (), m\<lparr>mx_wifidevmgr := True\<rparr>))"

definition hasDeviceManager :: "muxer \<Rightarrow> bool" where
  "hasDeviceManager m \<longleftrightarrow> mx_usbdevmgr m \<or> mx_wifidevmgr m"

section \<open>Clients\<close>

definition insert_ptr :: "nat \<Rightarrow> nat list \<Rightarrow> nat list" where
  "insert_ptr p ps = (if p \<in> set ps then ps else insort p ps)"

definition delete_client :: "nat \<Rightarrow> muxer \<Rightarrow> muxer" where
  "delete_client p m =
     (if p \<in> set (mx_clients m)
      then call (Kill_client p) (m\<lparr>mx_clients := removeAll p (mx_clients m)\<rparr>) else m)"

definition delete_client_fd :: "int \<Rightarrow> muxer \<Rightarrow> muxer" where
  "delete_client_fd cli_fd m =
     (case find (\<lambda>p. cl_fd (mx_heap m p) = cli_fd) (mx_clients m) of
        None \<Rightarrow> m
      | Some p \<Rightarrow> call (Kill_client p) (m\<lparr>mx_clients := removeAll p (mx_clients m)\<rparr>))"

definition add_client :: "'p mux_env \<Rightarrow> nat \<Rightarrow> (muxer, unit) act" where
  "add_client env p m =
     (let m1 = m\<lparr>mx_clients := insert_ptr p (mx_clients m)\<rparr> in
      if me_start_client env p then (Inr (), m1) else (Inl Assure_failed, delete_client p m1))"

section \<open>Property lists\<close>

text \<open>\<open>sockaddr_in\<close> and \<open>sockaddr_in6\<close> in a zeroed buffer of 0x80 bytes, without a length byte.\<close>

definition sockaddr4 :: "bytes \<Rightarrow> bytes" where
  "sockaddr4 addr = le16 2 @ replicate 2 0 @ addr @ replicate (0x80 - 4 - length addr) 0"

definition sockaddr6 :: "bytes \<Rightarrow> u32 \<Rightarrow> bytes" where
  "sockaddr6 addr scope =
     le16 10 @ replicate 6 0 @ addr @ le32 scope @ replicate (0x80 - 12 - length addr) 0"

fun network_address :: "'p mux_env \<Rightarrow> u32 \<Rightarrow> string list \<Rightarrow> bytes option" where
  "network_address env ifidx [] = None"
| "network_address env ifidx (ip # ips) =
     (if CHR '':'' \<notin> set ip then Some (sockaddr4 (me_inet_addr env ip))
      else (case me_inet_pton6 env ip of
              None \<Rightarrow> network_address env ifidx ips | Some a \<Rightarrow> Some (sockaddr6 a ifidx)))"

definition getDevicePlist :: "'p mux_env \<Rightarrow> device \<Rightarrow> 'p" where
  "getDevicePlist env dev =
     (let L = me_plist env; set = (\<lambda>k v p. plist_dict_set L p k v);
          id = plist_new_uint L (of_int (dv_id dev));
          props = set ''DeviceID'' id (plist_new_dict L);
          props1 = (if dv_conntype dev = MUXCONN_USB
             then set ''ProductID'' (plist_new_uint L (ucast (dv_pid dev)))
                 (set ''LocationID'' (plist_new_uint L (ucast (dv_location dev)))
                 (set ''ConnectionType'' (plist_new_string L ''USB'')
                 (set ''ConnectionSpeed'' (plist_new_uint L (dv_speed dev)) props)))
             else (let p1 = set ''EscapedFullServiceName'' (plist_new_string L (dv_serviceName dev))
                       (set ''ConnectionType'' (plist_new_string L ''Network'') props);
                     p2 = (case network_address env (dv_interfaceIndex dev) (dv_ipaddr dev) of
                         None \<Rightarrow> p1
                       | Some a \<Rightarrow> set ''NetworkAddress'' (plist_new_data L a) p1)
                   in if dv_interfaceIndex dev \<noteq> 0
                      then set ''InterfaceIndex'' (plist_new_int L (uint (dv_interfaceIndex dev))) p2
                      else p2));
          props2 = set ''SerialNumber'' (plist_new_string L (dv_serial dev)) props1
      in set ''Properties'' props2
          (set ''DeviceID'' id
          (set ''MessageType'' (plist_new_string L ''Attached'') (plist_new_dict L))))"

text \<open>
  The strings of a client that never sent them are null pointers, from which neither \<open>std::string\<close> nor
  \<open>plist_new_string\<close> may be made.
\<close>

definition getClientPlist :: "'p mux_env \<Rightarrow> client \<Rightarrow> 'p res" where
  "getClientPlist env c =
     (let L = me_plist env; i = cl_info c; set = (\<lambda>k v p. plist_dict_set L p k v) in
      case (ci_bundleID i, ci_progName i) of
        (Some bundle, Some prog) \<Rightarrow> Inr (
          set ''kLibUSBMuxVersion'' (plist_new_uint L (ci_kLibUSBMuxVersion i))
          (set ''ProgName'' (plist_new_string L prog)
          (set ''ID String'' (plist_new_string L (to_string (cl_number c) @ ''-'' @ prog))
          (set ''ConnType'' (plist_new_uint L 0)
          (set ''BundleID'' (plist_new_string L bundle)
          (set ''Blacklisted'' (plist_new_bool L False) (plist_new_dict L)))))))
      | _ \<Rightarrow> Inl Trap)"

definition id_message :: "'p mux_env \<Rightarrow> string \<Rightarrow> int \<Rightarrow> 'p" where
  "id_message env msg deviceID =
     (let L = me_plist env in
      plist_dict_set L (plist_dict_set L (plist_new_dict L) ''MessageType'' (plist_new_string L msg))
        ''DeviceID'' (plist_new_uint L (of_int deviceID)))"

section \<open>Notifications\<close>

text \<open>To every listening client, in turn; a client that cannot be reached does not keep the others from it.\<close>

definition notify_client :: "'p mux_env \<Rightarrow> 'p \<Rightarrow> nat \<Rightarrow> muxer \<Rightarrow> muxer" where
  "notify_client env msg p m =
     (if cl_isListening (mx_heap m p)
      then snd (on_client p (send_plist_pkt (me_plist env) (me_sock env) 0 msg) m) else m)"

definition notify_listening :: "'p mux_env \<Rightarrow> 'p \<Rightarrow> muxer \<Rightarrow> muxer" where
  "notify_listening env msg m = fold (notify_client env msg) (mx_clients m) m"

definition notify_device_add :: "'p mux_env \<Rightarrow> device \<Rightarrow> muxer \<Rightarrow> muxer" where
  "notify_device_add env dev = notify_listening env (getDevicePlist env dev)"

definition notify_device_remove :: "'p mux_env \<Rightarrow> int \<Rightarrow> muxer \<Rightarrow> muxer" where
  "notify_device_remove env deviceID = notify_listening env (id_message env ''Detached'' deviceID)"

definition notify_device_paired :: "'p mux_env \<Rightarrow> int \<Rightarrow> muxer \<Rightarrow> muxer" where
  "notify_device_paired env deviceID = notify_listening env (id_message env ''Paired'' deviceID)"

definition notify_alldevices :: "'p mux_env \<Rightarrow> nat \<Rightarrow> muxer \<Rightarrow> muxer" where
  "notify_alldevices env p m =
     (if \<not> cl_isListening (mx_heap m p) then m
      else fold (\<lambda>d m. snd (on_client p (send_plist_pkt (me_plist env) (me_sock env) 0
                   (getDevicePlist env d)) m)) (mx_devices m) m)"

section \<open>Devices\<close>

definition id_for_device :: "string \<Rightarrow> mux_conn_type \<Rightarrow> muxer \<Rightarrow> int" where
  "id_for_device uuid type m =
     (case find (\<lambda>d. dv_conntype d = type \<and> dv_serial d = uuid) (mx_devices m) of
        None \<Rightarrow> 0 | Some d \<Rightarrow> dv_id d)"

text \<open>One pass of the loop that looks for a free identifier; \<open>None\<close> is \<open>goto retryID\<close>.\<close>

fun scan_ids :: "int list \<Rightarrow> int \<Rightarrow> int option" where
  "scan_ids [] newid = Some newid"
| "scan_ids (i # ids) newid =
     (if i div 2 = newid
      then if newid + 1 > MAXID then None else scan_ids ids (newid + 1)
      else scan_ids ids newid)"

partial_function (option) fresh_id :: "int list \<Rightarrow> int \<Rightarrow> int option" where
  "fresh_id ids newid =
     (case scan_ids ids newid of Some n \<Rightarrow> Some n | None \<Rightarrow> fresh_id ids 1)"

definition erase_device :: "nat \<Rightarrow> muxer \<Rightarrow> muxer" where
  "erase_device p m = m\<lparr>mx_devices := filter (\<lambda>d. dv_ptr d \<noteq> p) (mx_devices m)\<rparr>"

definition insert_device :: "device \<Rightarrow> muxer \<Rightarrow> muxer" where
  "insert_device dev m =
     m\<lparr>mx_devices := insort_key dv_ptr dev (filter (\<lambda>d. dv_ptr d \<noteq> dv_ptr dev) (mx_devices m))\<rparr>"

definition delete_device :: "'p mux_env \<Rightarrow> device \<Rightarrow> muxer \<Rightarrow> muxer" where
  "delete_device env dev m = notify_device_remove env (dv_id dev) (erase_device (dv_ptr dev) m)"

text \<open>
  \<open>assign_id\<close> is \<open>add_device\<close> up to the insertion: the identifier of the other kind of connection to the
  same device, or a fresh one, with the kind of connection in its lowest bit. \<open>None\<close> is a search that
  does not end.
\<close>

definition assign_id :: "device \<Rightarrow> muxer \<Rightarrow> (device \<times> muxer) option" where
  "assign_id dev m =
     (let other = (if dv_conntype dev = MUXCONN_USB then MUXCONN_WIFI else MUXCONN_USB);
          i = 2 * (id_for_device (dv_serial dev) other m div 2);
          wifi = (if dv_conntype dev = MUXCONN_WIFI then 1 else 0)
      in if i = 0
         then (case fresh_id (map dv_id (mx_devices m)) (mx_newid m) of
                 None \<Rightarrow> None
               | Some n \<Rightarrow> Some (dev\<lparr>dv_id := 2 * n + wifi\<rparr>, m\<lparr>mx_newid := n\<rparr>))
         else Some (dev\<lparr>dv_id := i + wifi\<rparr>, m))"

definition add_device :: "'p mux_env \<Rightarrow> device \<Rightarrow> bool \<Rightarrow> muxer \<Rightarrow> muxer option" where
  "add_device env dev notify m =
     (case assign_id dev m of
        None \<Rightarrow> None
      | Some (dev', m1) \<Rightarrow>
          let m2 = insert_device dev' m1 in
          if dv_conntype dev' = MUXCONN_WIFI \<and> \<not> me_start_wifi env dev'
          then Some (if \<not> mx_allowHeartlessWifi m2 then delete_device env dev' m2 else m2)
          else Some (if notify then notify_device_add env dev' m2 else m2))"

definition usb_at :: "u8 \<Rightarrow> u8 \<Rightarrow> device \<Rightarrow> bool" where
  "usb_at bus address d \<longleftrightarrow> dv_conntype d = MUXCONN_USB
     \<and> uint (dv_location d) = uint bus * 2 ^ 16 + uint address"

text \<open>The devices leave by a search; the first one found is erased and its identifier reported.\<close>

definition delete_first :: "'p mux_env \<Rightarrow> (device \<Rightarrow> bool) \<Rightarrow> muxer \<Rightarrow> muxer" where
  "delete_first env P m =
     (case find P (mx_devices m) of
        None \<Rightarrow> m
      | Some d \<Rightarrow>
          let m1 = erase_device (dv_ptr d) m
          in if dv_id d \<noteq> INVALID_ID then notify_device_remove env (dv_id d) m1 else m1)"

definition delete_device_at :: "'p mux_env \<Rightarrow> u8 \<Rightarrow> u8 \<Rightarrow> muxer \<Rightarrow> muxer" where
  "delete_device_at env bus address = delete_first env (usb_at bus address)"

definition is_wifipair :: "device \<Rightarrow> bool" where
  "is_wifipair d \<longleftrightarrow> take 8 (dv_serial d) = ''WIFIPAIR''"

definition delete_wifi_pairing_device_with_ip :: "'p mux_env \<Rightarrow> string list \<Rightarrow> muxer \<Rightarrow> muxer" where
  "delete_wifi_pairing_device_with_ip env ipaddrs =
     delete_first env (\<lambda>d. dv_conntype d = MUXCONN_WIFI
       \<and> list_ex (\<lambda>nip. is_wifipair d \<and> nip \<in> set (dv_ipaddr d)) ipaddrs)"

definition delete_wifi_device_with_serial :: "'p mux_env \<Rightarrow> string \<Rightarrow> muxer \<Rightarrow> muxer" where
  "delete_wifi_device_with_serial env serial =
     delete_first env (\<lambda>d. dv_conntype d = MUXCONN_WIFI \<and> dv_serial d = serial)"

definition get_wifi_device_with_serial :: "string \<Rightarrow> muxer \<Rightarrow> device option" where
  "get_wifi_device_with_serial serial m =
     find (\<lambda>d. dv_conntype d = MUXCONN_WIFI \<and> dv_serial d = serial) (mx_devices m)"

definition cleanup_wifi_device_after_unpair :: "string \<Rightarrow> muxer \<Rightarrow> muxer" where
  "cleanup_wifi_device_after_unpair serial m =
     (case get_wifi_device_with_serial serial m of
        None \<Rightarrow> m
      | Some d \<Rightarrow> call (Kill_device (dv_ptr d)) (call (No_rediscover (dv_ptr d)) m))"

definition have_usb_device :: "u8 \<Rightarrow> u8 \<Rightarrow> muxer \<Rightarrow> bool" where
  "have_usb_device bus address m = list_ex (usb_at bus address) (mx_devices m)"

definition have_wifi_device_with_mac :: "string \<Rightarrow> muxer \<Rightarrow> bool" where
  "have_wifi_device_with_mac macaddr m =
     list_ex (\<lambda>d. dv_conntype d = MUXCONN_WIFI
       \<and> takeWhile (\<lambda>c. c \<noteq> CHR ''@'') (dv_serviceName d) = macaddr) (mx_devices m)"

definition have_wifi_device_with_ip :: "string list \<Rightarrow> muxer \<Rightarrow> bool" where
  "have_wifi_device_with_ip ipaddrs m =
     list_ex (\<lambda>d. dv_conntype d = MUXCONN_WIFI
       \<and> list_ex (\<lambda>nip. nip \<in> set (dv_ipaddr d)) ipaddrs) (mx_devices m)"

definition devices_cnt :: "muxer \<Rightarrow> nat" where
  "devices_cnt m = length (mx_devices m)"

section \<open>Connections and lists\<close>

definition mux_start_connect :: "'p mux_env \<Rightarrow> int \<Rightarrow> u16 \<Rightarrow> nat \<Rightarrow> (muxer, unit) act" where
  "mux_start_connect env device_id dport p m =
     (case find (\<lambda>d. dv_id d = device_id) (mx_devices m) of
        None \<Rightarrow> (Inl No_such_device, m)
      | Some d \<Rightarrow> on_client p (me_connect env d dport) m)"

definition device_list :: "'p mux_env \<Rightarrow> muxer \<Rightarrow> 'p" where
  "device_list env m =
     (let L = me_plist env in
      plist_dict_set L (plist_new_dict L) ''DeviceList''
        (fold (\<lambda>d a. plist_array_append L a (getDevicePlist env d)) (mx_devices m) (plist_new_array L)))"

definition send_deviceList :: "'p mux_env \<Rightarrow> nat \<Rightarrow> u32 \<Rightarrow> (muxer, unit) act" where
  "send_deviceList env p tag m =
     on_client p (send_plist_pkt (me_plist env) (me_sock env) tag (device_list env m)) m"

fun listener_array :: "'p mux_env \<Rightarrow> client list \<Rightarrow> 'p \<Rightarrow> 'p res" where
  "listener_array env [] arr = Inr arr"
| "listener_array env (c # cs) arr =
     (case getClientPlist env c of
        Inl e \<Rightarrow> Inl e
      | Inr p \<Rightarrow> listener_array env cs (plist_array_append (me_plist env) arr p))"

definition send_listenerList :: "'p mux_env \<Rightarrow> nat \<Rightarrow> u32 \<Rightarrow> (muxer, unit) act" where
  "send_listenerList env p tag m =
     (let L = me_plist env in
      case listener_array env (map (mx_heap m) (mx_clients m)) (plist_new_array L) of
        Inl e \<Rightarrow> (Inl e, m)
      | Inr arr \<Rightarrow>
          on_client p (send_plist_pkt L (me_sock env) tag
            (plist_dict_set L (plist_new_dict L) ''ListenerList'' arr)) m)"

section \<open>WIFI\<close>

definition refresh_wifi_discovery :: "muxer \<Rightarrow> muxer" where
  "refresh_wifi_discovery m = (if mx_wifidevmgr m then call Manual_refresh m else m)"

definition reconnect_wifi_sessions_now :: "muxer \<Rightarrow> muxer" where
  "reconnect_wifi_sessions_now m =
     fold (\<lambda>d. if dv_conntype d \<noteq> MUXCONN_WIFI then (\<lambda>m. m) else call (Session_reconnect (dv_ptr d)))
       (mx_devices m) m"

definition trigger_wifi_rediscovery_after_pairing :: "string \<Rightarrow> muxer \<Rightarrow> muxer" where
  "trigger_wifi_rediscovery_after_pairing udid m =
     (if mx_wifidevmgr m then call (Rediscovery_after_pairing udid) m else m)"

section \<open>Identifiers\<close>

lemma scan_ids_above:
  "\<forall>i \<in> set ids. i div 2 < n \<Longrightarrow> scan_ids ids n = Some n"
  by (induction ids) auto

lemma scan_ids_fresh:
  assumes "\<forall>i \<in> set ids. i div 2 \<le> n" and "n < MAXID"
  shows "scan_ids ids n = Some (if \<exists>i \<in> set ids. i div 2 = n then n + 1 else n)"
  using assms
proof (induction ids)
  case (Cons i ids)
  show ?case
  proof (cases "i div 2 = n")
    case True
    have "scan_ids ids (n + 1) = Some (n + 1)"
      using Cons.prems(1) by (intro scan_ids_above) auto
    with True Cons.prems(2) show ?thesis by simp
  next
    case False
    with Cons show ?thesis by auto
  qed
qed simp

lemma scan_ids_range: "scan_ids ids n = Some k \<Longrightarrow> n \<le> k \<and> (n \<le> MAXID \<longrightarrow> k \<le> MAXID)"
  by (induction ids arbitrary: n) (fastforce split: if_splits)+

lemma scan_ids_total: "n + int (length ids) \<le> MAXID \<Longrightarrow> \<exists>k. scan_ids ids n = Some k"
  by (induction ids arbitrary: n) auto

text \<open>
  The search for a free identifier ends, within one retry, wherever there are fewer devices than
  identifiers, and gives one in range.
\<close>

theorem fresh_id_terminates:
  assumes "int (length ids) < MAXID" and "1 \<le> newid" and "newid \<le> MAXID"
  shows "\<exists>n. fresh_id ids newid = Some n \<and> 1 \<le> n \<and> n \<le> MAXID"
proof (cases "scan_ids ids newid")
  case (Some n)
  with scan_ids_range [OF Some] assms show ?thesis by (simp add: fresh_id.simps [of ids newid])
next
  case None
  from assms(1) scan_ids_total [of 1 ids] obtain n where n: "scan_ids ids 1 = Some n" by auto
  with None scan_ids_range [OF n] show ?thesis
    by (simp add: fresh_id.simps [of ids newid] fresh_id.simps [of ids 1] MAXID_def)
qed

text \<open>
  What the identifiers are: even for USB, odd for WIFI, the same pair for the two connections of one
  device and for no other, none above the counter.
\<close>

definition device_ok :: "int \<Rightarrow> device \<Rightarrow> bool" where
  "device_ok newid d \<longleftrightarrow> 1 \<le> dv_id d div 2 \<and> dv_id d div 2 \<le> newid
     \<and> (dv_conntype d = MUXCONN_USB \<and> dv_id d mod 2 = 0
          \<or> dv_conntype d = MUXCONN_WIFI \<and> dv_id d mod 2 = 1)"

definition ids_ok :: "muxer \<Rightarrow> bool" where
  "ids_ok m \<longleftrightarrow> 1 \<le> mx_newid m \<and> mx_newid m \<le> MAXID
     \<and> (\<forall>d \<in> set (mx_devices m). device_ok (mx_newid m) d)
     \<and> (\<forall>d \<in> set (mx_devices m). \<forall>e \<in> set (mx_devices m).
          (dv_id d div 2 = dv_id e div 2 \<longleftrightarrow> dv_serial d = dv_serial e)
          \<and> (dv_serial d = dv_serial e \<and> dv_conntype d = dv_conntype e \<longrightarrow> d = e))"

lemma id_for_device_cases:
  assumes "ids_ok m"
  obtains (none) "id_for_device s ty m = 0"
      "\<forall>d \<in> set (mx_devices m). \<not> (dv_serial d = s \<and> dv_conntype d = ty)"
    | (some) d where "d \<in> set (mx_devices m)" "dv_serial d = s" "dv_conntype d = ty"
      "id_for_device s ty m = dv_id d" "1 \<le> dv_id d div 2"
proof (cases "find (\<lambda>d. dv_conntype d = ty \<and> dv_serial d = s) (mx_devices m)")
  case None
  then have "id_for_device s ty m = 0" by (simp add: id_for_device_def)
  moreover from None have "\<forall>d \<in> set (mx_devices m). \<not> (dv_serial d = s \<and> dv_conntype d = ty)"
    by (auto simp: find_None_iff)
  ultimately show thesis by (rule none)
next
  case (Some d)
  then have d: "d \<in> set (mx_devices m)" "dv_serial d = s" "dv_conntype d = ty"
    by (auto simp: find_Some_iff)
  moreover from d assms have "1 \<le> dv_id d div 2" by (auto simp: ids_ok_def device_ok_def)
  ultimately show thesis
    using Some by (intro some) (auto simp: id_for_device_def)
qed

lemma half_of_id: "(2 * n + (if b then 1 else 0 :: int)) div 2 = n \<and> (2 * n + (if b then 1 else 0)) mod 2 = (if b then 1 else 0)"
  by auto

lemma assign_id_cases:
  assumes ok: "ids_ok m" and new: "mx_newid m < MAXID"
    and kind: "dv_conntype dev \<in> {MUXCONN_USB, MUXCONN_WIFI}"
    and fresh: "\<forall>d \<in> set (mx_devices m). \<not> (dv_serial d = dv_serial dev \<and> dv_conntype d = dv_conntype dev)"
  obtains n k where "assign_id dev m = Some
        (dev\<lparr>dv_id := 2 * n + (if dv_conntype dev = MUXCONN_WIFI then 1 else 0)\<rparr>, m\<lparr>mx_newid := k\<rparr>)"
      "mx_newid m \<le> k" "k \<le> MAXID" "1 \<le> n" "n \<le> k"
      "\<forall>d \<in> set (mx_devices m). dv_id d div 2 = n \<longleftrightarrow> dv_serial d = dv_serial dev"
proof -
  let ?other = "if dv_conntype dev = MUXCONN_USB then MUXCONN_WIFI else MUXCONN_USB"
  have types: "dv_conntype d = ?other \<or> dv_conntype d = dv_conntype dev"
    if "d \<in> set (mx_devices m)" for d
    using that ok kind by (auto simp: ids_ok_def device_ok_def)
  from ok show thesis
  proof (cases rule: id_for_device_cases [where s = "dv_serial dev" and ty = ?other])
    case none
    define n where "n = (if \<exists>i \<in> set (map dv_id (mx_devices m)). i div 2 = mx_newid m
      then mx_newid m + 1 else mx_newid m)"
    have "scan_ids (map dv_id (mx_devices m)) (mx_newid m) = Some n"
      unfolding n_def using ok new by (intro scan_ids_fresh) (auto simp: ids_ok_def device_ok_def)
    then have "fresh_id (map dv_id (mx_devices m)) (mx_newid m) = Some n"
      by (simp add: fresh_id.simps)
    with none(1) have run: "assign_id dev m = Some
        (dev\<lparr>dv_id := 2 * n + (if dv_conntype dev = MUXCONN_WIFI then 1 else 0)\<rparr>, m\<lparr>mx_newid := n\<rparr>)"
      by (simp add: assign_id_def Let_def)
    have "dv_serial d \<noteq> dv_serial dev" if "d \<in> set (mx_devices m)" for d
      using that none(2) fresh types [OF that] by auto
    moreover have "dv_id d div 2 \<noteq> n" if "d \<in> set (mx_devices m)" for d
    proof (cases "dv_id d div 2 = mx_newid m")
      case True
      with that have "n = mx_newid m + 1" by (auto simp: n_def)
      with True show ?thesis by simp
    next
      case False
      have "dv_id d div 2 \<le> mx_newid m" using that ok by (auto simp: ids_ok_def device_ok_def)
      with False show ?thesis by (auto simp: n_def)
    qed
    ultimately show thesis
      using ok new by (intro that [OF run]) (auto simp: n_def ids_ok_def)
  next
    case (some d)
    have run: "assign_id dev m = Some
        (dev\<lparr>dv_id := 2 * (dv_id d div 2) + (if dv_conntype dev = MUXCONN_WIFI then 1 else 0)\<rparr>,
         m\<lparr>mx_newid := mx_newid m\<rparr>)"
      using some by (simp add: assign_id_def Let_def)
    show thesis
      by (rule that [OF run]) (use some ok in \<open>auto simp: ids_ok_def device_ok_def\<close>)
  qed
qed

lemma assign_id_new:
  assumes "ids_ok m" and "mx_newid m < MAXID"
    and "dv_conntype dev \<in> {MUXCONN_USB, MUXCONN_WIFI}"
    and "\<forall>d \<in> set (mx_devices m). \<not> (dv_serial d = dv_serial dev \<and> dv_conntype d = dv_conntype dev)"
  shows "\<exists>dev' m'. assign_id dev m = Some (dev', m') \<and> ids_ok (insert_device dev' m')
    \<and> mx_devices m' = mx_devices m \<and> dv_id dev' \<notin> dv_id ` set (mx_devices m)
    \<and> (\<forall>d \<in> set (mx_devices m). dv_id d div 2 = dv_id dev' div 2 \<longleftrightarrow> dv_serial d = dv_serial dev)"
  using assms
proof (cases rule: assign_id_cases)
  case (1 n k)
  define dev' where "dev' = dev\<lparr>dv_id := 2 * n + (if dv_conntype dev = MUXCONN_WIFI then 1 else 0)\<rparr>"
  have dev': "dv_serial dev' = dv_serial dev" "dv_conntype dev' = dv_conntype dev"
    "dv_id dev' div 2 = n" "dv_id dev' mod 2 = (if dv_conntype dev = MUXCONN_WIFI then 1 else 0)"
    using half_of_id by (simp_all add: dev'_def)
  have sub: "set (mx_devices (insert_device dev' (m\<lparr>mx_newid := k\<rparr>))) \<subseteq> insert dev' (set (mx_devices m))"
    by (auto simp: insert_device_def set_insort_key)
  have new: "device_ok k dev'"
    using dev' 1(4,5) assms(3) by (auto simp: device_ok_def)
  have old: "device_ok k d" if "d \<in> set (mx_devices m)" for d
    using that assms(1) 1(2) by (auto simp: ids_ok_def device_ok_def)
  have "dv_id dev' \<noteq> dv_id d" if d: "d \<in> set (mx_devices m)" for d
  proof
    assume eq: "dv_id dev' = dv_id d"
    with 1(6) d dev'(3) have "dv_serial d = dv_serial dev" by auto
    moreover have "dv_conntype d = dv_conntype dev"
      using eq new old [OF d] dev'(2) by (auto simp: device_ok_def)
    ultimately show False using assms(4) d by auto
  qed
  moreover have "ids_ok (insert_device dev' (m\<lparr>mx_newid := k\<rparr>))"
    unfolding ids_ok_def
  proof (intro conjI ballI)
    fix d e
    assume "d \<in> set (mx_devices (insert_device dev' (m\<lparr>mx_newid := k\<rparr>)))"
      and "e \<in> set (mx_devices (insert_device dev' (m\<lparr>mx_newid := k\<rparr>)))"
    with sub have "d = dev' \<or> d \<in> set (mx_devices m)" "e = dev' \<or> e \<in> set (mx_devices m)" by auto
    then show "(dv_id d div 2 = dv_id e div 2) = (dv_serial d = dv_serial e)"
      and "dv_serial d = dv_serial e \<and> dv_conntype d = dv_conntype e \<longrightarrow> d = e"
      using assms(1,4) 1(6) dev'(1-3) unfolding ids_ok_def by metis+
  qed (use 1 assms(1) new old sub in \<open>auto simp: insert_device_def ids_ok_def\<close>)
  moreover have "assign_id dev m = Some (dev', m\<lparr>mx_newid := k\<rparr>)"
    using 1(1) by (simp add: dev'_def)
  ultimately show ?thesis
    using 1(6) dev'(3) by (intro exI [of _ dev'] exI [of _ "m\<lparr>mx_newid := k\<rparr>"]) auto
qed

text \<open>
  C8: identifiers are unique. While the counter has not come to its end, a new device that is not yet
  connected this way gets an identifier no device has, shares its upper part with the other
  connection of the same device and with nothing else, and leaves all identifiers in order; the ones
  of the devices already there do not change.
\<close>

theorem assign_id_unique:
  assumes "ids_ok m" and "mx_newid m < MAXID"
    and "dv_conntype dev \<in> {MUXCONN_USB, MUXCONN_WIFI}"
    and "\<forall>d \<in> set (mx_devices m). \<not> (dv_serial d = dv_serial dev \<and> dv_conntype d = dv_conntype dev)"
  shows "\<exists>dev' m'. assign_id dev m = Some (dev', m') \<and> ids_ok (insert_device dev' m')
    \<and> mx_devices m' = mx_devices m \<and> dv_id dev' \<notin> dv_id ` set (mx_devices m)
    \<and> (\<forall>d \<in> set (mx_devices m). dv_id d div 2 = dv_id dev' div 2 \<longleftrightarrow> dv_serial d = dv_serial dev)"
  using assms by (rule assign_id_new)

text \<open>
  The search is a single pass, so once the counter has started again from 1 it can end on an
  identifier that was passed over before the counter was raised: with the devices \<open>n + 1\<close> and \<open>n\<close>
  visited in this order, the next device gets \<open>n + 1\<close> again.
\<close>

theorem single_pass_duplicate:
  assumes "n < MAXID"
  shows "fresh_id [2 * (n + 1), 2 * n] n = Some (n + 1)"
  using assms by (simp add: fresh_id.simps)

section \<open>Who is told\<close>

lemma on_client_frame:
  "mx_devices (snd (on_client p f m)) = mx_devices m"
  "mx_clients (snd (on_client p f m)) = mx_clients m"
  "mx_newid (snd (on_client p f m)) = mx_newid m"
  "mx_calls (snd (on_client p f m)) = mx_calls m"
  "mx_heap (snd (on_client p f m)) q = (if q = p then snd (f (mx_heap m p)) else mx_heap m q)"
  by (simp_all add: on_client_def split: prod.splits)

definition told :: "'p mux_env \<Rightarrow> 'p \<Rightarrow> client \<Rightarrow> client" where
  "told env msg c = snd (send_plist_pkt (me_plist env) (me_sock env) 0 msg c)"

lemma notify_client_frame [simp]:
  "mx_devices (notify_client env msg p m) = mx_devices m"
  "mx_clients (notify_client env msg p m) = mx_clients m"
  "mx_newid (notify_client env msg p m) = mx_newid m"
  "mx_calls (notify_client env msg p m) = mx_calls m"
  "mx_heap (notify_client env msg p m) q =
     (if q = p \<and> cl_isListening (mx_heap m p) then told env msg (mx_heap m p) else mx_heap m q)"
  by (simp_all add: notify_client_def told_def on_client_frame)

lemma notify_fold:
  assumes "distinct ps"
  shows "mx_devices (fold (notify_client env msg) ps m) = mx_devices m
    \<and> mx_clients (fold (notify_client env msg) ps m) = mx_clients m
    \<and> mx_newid (fold (notify_client env msg) ps m) = mx_newid m
    \<and> mx_calls (fold (notify_client env msg) ps m) = mx_calls m
    \<and> mx_heap (fold (notify_client env msg) ps m) =
        (\<lambda>q. if q \<in> set ps \<and> cl_isListening (mx_heap m q) then told env msg (mx_heap m q) else mx_heap m q)"
  using assms
proof (induction ps arbitrary: m)
  case (Cons p ps)
  then show ?case by (auto simp: fun_eq_iff)
qed simp

lemma notify_listening_frame:
  assumes "distinct (mx_clients m)"
  shows "mx_heap (notify_listening env msg m) = (\<lambda>q. if q \<in> set (mx_clients m) \<and> cl_isListening (mx_heap m q)
      then told env msg (mx_heap m q) else mx_heap m q)"
    and "mx_devices (notify_listening env msg m) = mx_devices m"
    and "mx_clients (notify_listening env msg m) = mx_clients m"
    and "mx_newid (notify_listening env msg m) = mx_newid m"
    and "mx_calls (notify_listening env msg m) = mx_calls m"
  using notify_fold [OF assms, of env msg m] by (simp_all add: notify_listening_def)

text \<open>
  C9: a notification reaches exactly the clients that listen: each of them is sent the message once,
  whether or not it could be sent to the others, and nothing else changes.
\<close>

theorem notify_exactly_listening:
  assumes "distinct (mx_clients m)"
  shows "mx_heap (notify_listening env msg m) q =
      (if q \<in> set (mx_clients m) \<and> cl_isListening (mx_heap m q)
       then told env msg (mx_heap m q) else mx_heap m q)
    \<and> mx_devices (notify_listening env msg m) = mx_devices m
    \<and> mx_clients (notify_listening env msg m) = mx_clients m
    \<and> mx_calls (notify_listening env msg m) = mx_calls m"
  by (simp add: notify_listening_frame [OF assms])

lemma find_at: "find P xs = Some x \<Longrightarrow> x \<in> set xs \<and> P x"
  by (auto simp: find_Some_iff)

text \<open>
  Unplugging. The first device at the location leaves the set, and only it; every listening client
  is told that its identifier is gone, except where that identifier is the value the code uses for
  \<^emph>\<open>no device\<close>: then it leaves without a word.
\<close>

theorem unplug_notifies:
  assumes "find (usb_at bus address) (mx_devices m) = Some d" and "distinct (mx_clients m)"
  shows "mx_devices (delete_device_at env bus address m) = filter (\<lambda>e. dv_ptr e \<noteq> dv_ptr d) (mx_devices m)
    \<and> mx_clients (delete_device_at env bus address m) = mx_clients m
    \<and> mx_heap (delete_device_at env bus address m) q =
        (if dv_id d \<noteq> INVALID_ID \<and> q \<in> set (mx_clients m) \<and> cl_isListening (mx_heap m q)
         then told env (id_message env ''Detached'' (dv_id d)) (mx_heap m q) else mx_heap m q)"
proof -
  let ?m = "erase_device (dv_ptr d) m"
  have m: "mx_clients ?m = mx_clients m" "mx_heap ?m = mx_heap m"
    by (simp_all add: erase_device_def)
  have run: "delete_device_at env bus address m = (if dv_id d \<noteq> INVALID_ID
      then notify_listening env (id_message env ''Detached'' (dv_id d)) ?m else ?m)"
    using assms(1)
    by (simp add: delete_device_at_def delete_first_def notify_device_remove_def Let_def)
  have "distinct (mx_clients ?m)" using assms(2) m by simp
  note listeners = notify_listening_frame [OF this, of env "id_message env ''Detached'' (dv_id d)"]
  show ?thesis
    unfolding run using listeners m by (simp add: erase_device_def)
qed

text \<open>
  A connection request goes to the device with the identifier asked for. Where no device has it the
  request fails and nothing changes; otherwise that device, and no other, is asked, on behalf of the
  requesting client only.
\<close>

theorem start_connect_dispatch:
  assumes "ids_ok m"
  shows "case mux_start_connect env device_id dport p m of (r, m') \<Rightarrow>
     (if device_id \<in> dv_id ` set (mx_devices m)
      then \<exists>d \<in> set (mx_devices m). dv_id d = device_id
        \<and> (\<forall>e \<in> set (mx_devices m). dv_id e = device_id \<longrightarrow> e = d)
        \<and> r = fst (me_connect env d dport (mx_heap m p))
        \<and> mx_heap m' = (mx_heap m)(p := snd (me_connect env d dport (mx_heap m p)))
        \<and> mx_devices m' = mx_devices m
      else r = Inl No_such_device \<and> m' = m)"
proof (cases "find (\<lambda>d. dv_id d = device_id) (mx_devices m)")
  case None
  then have "device_id \<notin> dv_id ` set (mx_devices m)"
    by (auto simp: find_None_iff)
  with None show ?thesis by (simp add: mux_start_connect_def)
next
  case (Some d)
  from find_at [OF Some] have d: "d \<in> set (mx_devices m)" "dv_id d = device_id" by auto
  have "e = d" if e: "e \<in> set (mx_devices m)" "dv_id e = device_id" for e
  proof -
    have ok: "device_ok (mx_newid m) d" "device_ok (mx_newid m) e"
      using assms d e by (auto simp: ids_ok_def)
    have "dv_conntype d = dv_conntype e"
      using ok d e by (auto simp: device_ok_def)
    moreover have "dv_serial d = dv_serial e"
      using assms d e unfolding ids_ok_def by metis
    ultimately show "e = d" using assms d e unfolding ids_ok_def by metis
  qed
  then have unique: "\<forall>e \<in> set (mx_devices m). dv_id e = device_id \<longrightarrow> e = d" by blast
  obtain r c where run: "me_connect env d dport (mx_heap m p) = (r, c)" by (metis prod.exhaust)
  with Some have out: "mux_start_connect env device_id dport p m = (r, m\<lparr>mx_heap := (mx_heap m)(p := c)\<rparr>)"
    by (simp add: mux_start_connect_def on_client_def)
  have known: "device_id \<in> dv_id ` set (mx_devices m)" using d by auto
  show ?thesis
    unfolding out prod.case if_P [OF known]
    by (rule bexI [OF _ d(1)]) (intro conjI d(2) unique; simp add: run)
qed

text \<open>
  The list of listeners covers every client, also one that has not introduced itself yet, whose
  strings are null pointers: as long as there is one, asking for the list is undefined behaviour.
\<close>

theorem listener_list_traps:
  assumes "p \<in> set (mx_clients m)"
    and "ci_progName (cl_info (mx_heap m p)) = None \<or> ci_bundleID (cl_info (mx_heap m p)) = None"
  shows "send_listenerList env q tag m = (Inl Trap, m)"
proof -
  have "listener_array env cs arr = Inl Trap" if "mx_heap m p \<in> set cs" for cs arr
    using that assms(2)
  proof (induction cs arbitrary: arr)
    case (Cons c cs)
    have trap: "getClientPlist env c \<noteq> Inl Trap \<Longrightarrow> \<exists>x. getClientPlist env c = Inr x"
      by (auto simp: getClientPlist_def Let_def split: option.splits)
    show ?case
    proof (cases "getClientPlist env c = Inl Trap")
      case False
      with trap obtain x where x: "getClientPlist env c = Inr x" by auto
      with Cons.prems have "mx_heap m p \<noteq> c"
        by (auto simp: getClientPlist_def Let_def split: option.splits)
      with Cons x show ?thesis by simp
    qed simp
  qed simp
  with assms(1) show ?thesis by (simp add: send_listenerList_def)
qed

section \<open>Concrete runs\<close>

definition ex_mux_env :: "tree mux_env" where
  "ex_mux_env = \<lparr>me_plist = tree_lib, me_sock = ex_socket, me_start_client = (\<lambda>_. True),
     me_start_wifi = (\<lambda>_. True), me_connect = (\<lambda>d p c. (Inl Connect_failed, c)),
     me_inet_addr = (\<lambda>_. [127, 0, 0, 1]), me_inet_pton6 = (\<lambda>_. None)\<rparr>"

definition ex_device :: "nat \<Rightarrow> mux_conn_type \<Rightarrow> int \<Rightarrow> string \<Rightarrow> device" where
  "ex_device p ty i serial = \<lparr>dv_ptr = p, dv_conntype = ty, dv_id = i, dv_serial = serial, dv_speed = 480,
     dv_location = 0x10004, dv_pid = 0x12a8, dv_serviceName = [], dv_ipaddr = [''10.0.0.2''], dv_interfaceIndex = 0\<rparr>"

text \<open>A muxer with one USB device, a client that listens and one that does not.\<close>

definition ex_muxer :: muxer where
  "ex_muxer = (new_muxer (\<lambda>p. ex_client\<lparr>cl_isListening := (p = 1)\<rparr>) False False False)
     \<lparr>mx_devices := [ex_device 0 MUXCONN_USB 2 ''abc''], mx_clients := [1, 2]\<rparr>"

lemma ex_muxer_ok: "ids_ok ex_muxer"
  by (simp add: ids_ok_def device_ok_def ex_muxer_def new_muxer_def ex_device_def MAXID_def)

lemma fresh_id_terminates_witness: "\<exists>n. fresh_id [2, 4, 5] 1 = Some n \<and> 1 \<le> n \<and> n \<le> MAXID"
  by (rule fresh_id_terminates) (simp_all add: MAXID_def)

lemma assign_id_unique_witness:
  "\<exists>dev' m'. assign_id (ex_device 3 MUXCONN_WIFI 0 ''abc'') ex_muxer = Some (dev', m')
    \<and> dv_id dev' \<notin> dv_id ` set (mx_devices ex_muxer)"
proof -
  have "mx_newid ex_muxer < MAXID" "dv_conntype (ex_device 3 MUXCONN_WIFI 0 ''abc'') \<in> {MUXCONN_USB, MUXCONN_WIFI}"
    "\<forall>d \<in> set (mx_devices ex_muxer). \<not> (dv_serial d = dv_serial (ex_device 3 MUXCONN_WIFI 0 ''abc'')
       \<and> dv_conntype d = dv_conntype (ex_device 3 MUXCONN_WIFI 0 ''abc''))"
    by (simp_all add: ex_muxer_def new_muxer_def ex_device_def MAXID_def)
  from assign_id_unique [OF ex_muxer_ok this] show ?thesis by blast
qed

lemma single_pass_duplicate_witness: "fresh_id [12, 10] 5 = Some 6"
  using single_pass_duplicate [of 5] by (simp add: MAXID_def)

lemma notify_exactly_listening_witness:
  "mx_heap (notify_listening ex_mux_env (Str ''x'') ex_muxer) 2 = mx_heap ex_muxer 2
   \<and> mx_heap (notify_listening ex_mux_env (Str ''x'') ex_muxer) 1
     = told ex_mux_env (Str ''x'') (mx_heap ex_muxer 1)"
proof -
  have "distinct (mx_clients ex_muxer)" by (simp add: ex_muxer_def)
  from notify_exactly_listening [OF this, of ex_mux_env "Str ''x''" 1]
    notify_exactly_listening [OF this, of ex_mux_env "Str ''x''" 2]
  show ?thesis by (simp add: ex_muxer_def new_muxer_def)
qed

lemma unplug_notifies_witness:
  "mx_devices (delete_device_at ex_mux_env 1 4 ex_muxer) = []
   \<and> mx_heap (delete_device_at ex_mux_env 1 4 ex_muxer) 1
     = told ex_mux_env (id_message ex_mux_env ''Detached'' 2) (mx_heap ex_muxer 1)"
proof -
  have "find (usb_at 1 4) (mx_devices ex_muxer) = Some (ex_device 0 MUXCONN_USB 2 ''abc'')"
    "distinct (mx_clients ex_muxer)"
    by (simp_all add: ex_muxer_def ex_device_def usb_at_def)
  from unplug_notifies [OF this, of ex_mux_env 1] show ?thesis
    by (simp add: ex_muxer_def new_muxer_def ex_device_def INVALID_ID_def MAXID_def)
qed

lemma start_connect_dispatch_witness:
  "mux_start_connect ex_mux_env 7 62078 2 ex_muxer = (Inl No_such_device, ex_muxer)"
  using start_connect_dispatch [OF ex_muxer_ok, where env = ex_mux_env and device_id = 7 and dport = 62078 and p = 2]
  by (cases "mux_start_connect ex_mux_env 7 62078 2 ex_muxer") (simp add: ex_muxer_def ex_device_def)

lemma listener_list_traps_witness: "send_listenerList ex_mux_env 1 5 ex_muxer = (Inl Trap, ex_muxer)"
  by (rule listener_list_traps [where p = 2]) (simp_all add: ex_muxer_def new_muxer_def ex_client_def new_client_def)

end
