(* ===== verification/Sysconf.thy ===== *)
theory Sysconf
  imports Plist_Lib
begin

text \<open>
  The configuration store, \<^verbatim>\<open>sysconf/sysconf.cpp\<close>: pairing records and settings as plist files in one
  directory, the cache of the devices' MAC addresses, and the creation of that directory. The file
  system is a list of directories and a list of regular files with their contents, in the order
  \<open>readdir\<close> gives them; a file can be opened where it exists and created where its directory does.
\<close>

section \<open>State\<close>

record sysconf =
  sc_config_env :: "string option"
  sc_dirs :: "string list"
  sc_files :: "(string \<times> bytes) list"
  sc_macs :: "(string \<times> string) list"
  sc_owners :: "(string \<times> int \<times> int) list"

text \<open>\<open>sc_config_env\<close> is the environment variable \<open>USBMUXD_SYSCONF_DIR\<close>, \<open>sc_macs\<close> is \<open>gKnownMacAddrs\<close>,
  \<open>sc_owners\<close> the owners \<open>chown\<close> set.\<close>

section \<open>Paths\<close>

definition sysconf_get_config_dir :: "sysconf \<Rightarrow> string" where
  "sysconf_get_config_dir s = (case sc_config_env s of Some d \<Rightarrow> d | None \<Rightarrow> ''/var/lib/lockdown'')"

definition strip_slashes :: "string \<Rightarrow> string" where
  "strip_slashes s = rev (dropWhile (\<lambda>c. c = CHR ''/'') (rev s))"

text \<open>POSIX \<open>dirname\<close>.\<close>

definition dirname :: "string \<Rightarrow> string" where
  "dirname d =
     (let s = strip_slashes d; t = rev (dropWhile (\<lambda>c. c \<noteq> CHR ''/'') (rev s)); u = strip_slashes t
      in if d = '''' then ''.'' else if s = '''' then ''/''
         else if t = '''' then ''.'' else if u = '''' then ''/'' else u)"

definition dir_exists :: "sysconf \<Rightarrow> string \<Rightarrow> bool" where
  "dir_exists s d \<longleftrightarrow> d \<in> set (sc_dirs s) \<or> d = ''/'' \<or> d = ''.''"

text \<open>\<open>mkdir\<close>: \<open>Some\<close> where it succeeds or fails with \<open>EEXIST\<close>, \<open>None\<close> where the parent is missing.\<close>

definition posix_mkdir :: "string \<Rightarrow> sysconf \<Rightarrow> sysconf option" where
  "posix_mkdir d s =
     (if dir_exists s d then Some s
      else if dir_exists s (dirname d) then Some (s\<lparr>sc_dirs := d # sc_dirs s\<rparr>) else None)"

definition path_size :: "string \<Rightarrow> nat" where
  "path_size d = (if d = ''/'' \<or> d = ''.'' then 0 else Suc (length d))"

lemma strip_slashes_length: "length (strip_slashes s) \<le> length s"
  unfolding strip_slashes_def by (metis length_dropWhile_le length_rev)

lemma strip_after_slash:
  assumes "t = rev (dropWhile (\<lambda>c. c \<noteq> CHR ''/'') xs)" and "t \<noteq> []"
  shows "length (strip_slashes t) < length t"
proof -
  from assms obtain c r where cr: "dropWhile (\<lambda>c. c \<noteq> CHR ''/'') xs = c # r"
    by (cases "dropWhile (\<lambda>c. c \<noteq> CHR ''/'') xs") auto
  then have "c = CHR ''/''"
    by (metis (mono_tags, lifting) dropWhile_eq_Cons_conv)
  with cr assms(1) have t: "strip_slashes t = rev (dropWhile (\<lambda>c. c = CHR ''/'') r)"
    "length t = Suc (length r)" by (simp_all add: strip_slashes_def)
  then show ?thesis by (simp add: length_dropWhile_le le_imp_less_Suc)
qed

lemma dirname_smaller:
  assumes "d \<noteq> ''/''" and "d \<noteq> ''.''"
  shows "path_size (dirname d) < path_size d"
proof -
  let ?s = "strip_slashes d"
  let ?t = "rev (dropWhile (\<lambda>c. c \<noteq> CHR ''/'') (rev ?s))"
  have "length (strip_slashes ?t) < length d" if "?t \<noteq> []"
  proof -
    have "length ?t \<le> length ?s" by (metis length_dropWhile_le length_rev)
    with strip_after_slash [OF refl that] strip_slashes_length [of d] show ?thesis by linarith
  qed
  with assms show ?thesis
    by (auto simp: dirname_def path_size_def Let_def)
qed

function mkdir_with_parents :: "string \<Rightarrow> sysconf \<Rightarrow> sysconf" where
  "mkdir_with_parents d s =
     (case posix_mkdir d s of Some s' \<Rightarrow> s' | None \<Rightarrow> mkdir_with_parents (dirname d) s)"
  by pat_completeness auto

termination
  by (relation "measure (\<lambda>(d, s). path_size d)")
    (auto simp: posix_mkdir_def dir_exists_def intro!: dirname_smaller split: if_splits)

declare mkdir_with_parents.simps [simp del]

definition sysconf_create_config_dir :: "sysconf \<Rightarrow> sysconf" where
  "sysconf_create_config_dir s =
     (let config_path = sysconf_get_config_dir s in
      if dir_exists s config_path then s else mkdir_with_parents config_path s)"

definition CONFIG_FILE :: string where "CONFIG_FILE = ''SystemConfiguration''"

definition record_path :: "string \<Rightarrow> string \<Rightarrow> string" where
  "record_path config_path udid = config_path @ ''/'' @ udid @ ''.plist''"

definition get_device_record_path :: "string \<Rightarrow> (sysconf, string) act" where
  "get_device_record_path udid s =
     (Inr (record_path (sysconf_get_config_dir s) udid), sysconf_create_config_dir s)"

section \<open>Plist files\<close>

definition readPlist :: "'p plist_lib \<Rightarrow> string \<Rightarrow> sysconf \<Rightarrow> 'p res" where
  "readPlist L path s =
     (case map_of (sc_files s) path of
        None \<Rightarrow> Inl Record_not_found
      | Some content \<Rightarrow>
          (case plist_from_memory L content of None \<Rightarrow> Inl Bad_plist | Some p \<Rightarrow> Inr p))"

definition parent_of :: "string \<Rightarrow> string" where
  "parent_of path = rev (drop 1 (dropWhile (\<lambda>c. c \<noteq> CHR ''/'') (rev path)))"

definition writePlistToFile :: "'p plist_lib \<Rightarrow> 'p \<Rightarrow> string \<Rightarrow> (sysconf, unit) act" where
  "writePlistToFile L plist dst s =
     (if dir_exists s (parent_of dst)
      then (Inr (), s\<lparr>sc_files := AList.update dst (plist_to_xml L plist) (sc_files s)\<rparr>)
      else (Inl Assure_failed, s))"

section \<open>MAC addresses\<close>

text \<open>\<open>find\<close>, \<open>find_last_of\<close> and \<open>substr\<close> of \<open>std::string\<close>, with \<open>npos\<close> as \<open>2 ^ 64 - 1\<close>.\<close>

definition npos :: nat where "npos = 2 ^ 64 - 1"

definition find_char :: "char \<Rightarrow> string \<Rightarrow> nat" where
  "find_char c s = (let k = length (takeWhile (\<lambda>x. x \<noteq> c) s) in if k < length s then k else npos)"

definition after_last_of :: "char \<Rightarrow> string \<Rightarrow> nat" where
  "after_last_of c s = length s - length (takeWhile (\<lambda>x. x \<noteq> c) (rev s))"

definition uuid_of_path :: "string \<Rightarrow> string" where
  "uuid_of_path path =
     (let lastSlashPos = after_last_of (CHR ''/'') path; dotPos = find_char (CHR ''.'') path
      in take (nat ((int dotPos - int lastSlashPos) mod 2 ^ 64)) (drop lastSlashPos path))"

text \<open>The entries of a directory: the files whose path is its name, a slash and a name without one.\<close>

definition dir_entry :: "string \<Rightarrow> string \<Rightarrow> bool" where
  "dir_entry d path \<longleftrightarrow> parent_of path = d \<and> CHR ''/'' \<in> set path"

definition mac_of_file :: "'p plist_lib \<Rightarrow> string \<Rightarrow> sysconf \<Rightarrow> string option" where
  "mac_of_file L path s =
     (case readPlist L path s of
        Inl e \<Rightarrow> None
      | Inr p \<Rightarrow> (case plist_dict_get L p ''WiFiMACAddress'' of
          None \<Rightarrow> None | Some m \<Rightarrow> plist_get_string L m))"

definition sysconf_load_known_macaddrs :: "'p plist_lib \<Rightarrow> (sysconf, unit) act" where
  "sysconf_load_known_macaddrs L s =
     (let config_path = sysconf_get_config_dir s; s1 = sysconf_create_config_dir s;
          s2 = s1\<lparr>sc_macs := []\<rparr>; sysconfigpath = record_path config_path CONFIG_FILE
      in if \<not> dir_exists s2 config_path then (Inl Assure_failed, s2)
         else (Inr (), s2\<lparr>sc_macs :=
           fold (\<lambda>path macs.
               if path = sysconfigpath then macs
               else (case mac_of_file L path s2 of
                       None \<Rightarrow> macs | Some mac \<Rightarrow> AList.update mac (uuid_of_path path) macs))
             (filter (dir_entry config_path) (map fst (sc_files s2))) []\<rparr>))"

definition sysconf_udid_for_macaddr :: "'p plist_lib \<Rightarrow> string \<Rightarrow> (sysconf, string) act" where
  "sysconf_udid_for_macaddr L macaddr =
     thenE (\<lambda>s. if sc_macs s = [] then sysconf_load_known_macaddrs L s else (Inr (), s)) (\<lambda>_ s.
       case map_of (sc_macs s) macaddr of Some u \<Rightarrow> (Inr u, s) | None \<Rightarrow> (Inl Record_not_found, s))"

section \<open>Records and settings\<close>

definition sysconf_get_device_record :: "'p plist_lib \<Rightarrow> string \<Rightarrow> (sysconf, 'p) act" where
  "sysconf_get_device_record L udid =
     thenE (get_device_record_path udid) (\<lambda>filepath s. (readPlist L filepath s, s))"

definition sysconf_set_device_record :: "'p plist_lib \<Rightarrow> string \<Rightarrow> 'p \<Rightarrow> (sysconf, unit) act" where
  "sysconf_set_device_record L udid rec =
     thenE (get_device_record_path udid) (\<lambda>filepath.
     thenE (writePlistToFile L rec filepath) (\<lambda>_. sysconf_load_known_macaddrs L))"

definition sysconf_remove_device_record :: "'p plist_lib \<Rightarrow> string \<Rightarrow> (sysconf, unit) act" where
  "sysconf_remove_device_record L udid =
     thenE (get_device_record_path udid) (\<lambda>filepath s.
       if map_of (sc_files s) filepath = None then (Inl Record_not_removed, s)
       else sysconf_load_known_macaddrs L (s\<lparr>sc_files := AList.delete filepath (sc_files s)\<rparr>))"

definition sysconf_get_value :: "'p plist_lib \<Rightarrow> string \<Rightarrow> (sysconf, 'p) act" where
  "sysconf_get_value L key =
     thenE (get_device_record_path CONFIG_FILE) (\<lambda>filepath s.
       case readPlist L filepath s of
         Inl e \<Rightarrow> (Inl e, s)
       | Inr rec \<Rightarrow> (case plist_dict_get L rec key of
           None \<Rightarrow> (Inl Record_not_found, s) | Some v \<Rightarrow> (Inr v, s)))"

definition sysconf_set_value :: "'p plist_lib \<Rightarrow> string \<Rightarrow> 'p \<Rightarrow> (sysconf, unit) act" where
  "sysconf_set_value L key val =
     thenE (get_device_record_path CONFIG_FILE) (\<lambda>filepath s.
       let conf = (case readPlist L filepath s of Inl e \<Rightarrow> plist_new_dict L | Inr p \<Rightarrow> p)
       in writePlistToFile L (plist_dict_set L conf key val) filepath s)"

text \<open>The identifier of the host: \<open>rnd i\<close> is the \<open>i\<close>-th result of \<open>random()\<close>.\<close>

definition sysconf_generate_system_buid :: "(nat \<Rightarrow> nat) \<Rightarrow> string" where
  "sysconf_generate_system_buid rnd =
     map (\<lambda>i. if i \<in> {8, 13, 18, 23} then CHR ''-'' else ''ABCDEF0123456789'' ! (rnd i mod 16)) [0..<36]"

definition sysconf_get_system_buid :: "'p plist_lib \<Rightarrow> (nat \<Rightarrow> nat) \<Rightarrow> (sysconf, string) act" where
  "sysconf_get_system_buid L rnd s =
     (case sysconf_get_value L ''SystemBUID'' s of
        (Inr p, s') \<Rightarrow> (case plist_get_string L p of None \<Rightarrow> (Inl Bad_plist, s') | Some b \<Rightarrow> (Inr b, s'))
      | (Inl e, s') \<Rightarrow>
          thenE (sysconf_set_value L ''SystemBUID''
                   (plist_new_string L (sysconf_generate_system_buid rnd))) (\<lambda>_ s.
            case plist_get_string L (plist_new_string L (sysconf_generate_system_buid rnd)) of
              None \<Rightarrow> (Inl Bad_plist, s) | Some b \<Rightarrow> (Inr b, s)) s')"

definition sysconf_try_getconfig_bool :: "'p plist_lib \<Rightarrow> string \<Rightarrow> bool \<Rightarrow> (sysconf, bool) act" where
  "sysconf_try_getconfig_bool L key defaultValue s =
     (case thenE (sysconf_get_value L key) (\<lambda>p s. case plist_get_bool L p of
              None \<Rightarrow> (Inl Assure_failed, s) | Some b \<Rightarrow> (Inr b, s)) s of
        (Inr b, s') \<Rightarrow> (Inr b, s')
      | (Inl e, s') \<Rightarrow>
          thenE (sysconf_set_value L key (plist_new_bool L defaultValue)) (\<lambda>_. okE defaultValue) s')"

text \<open>Handing the directory over to a user; \<open>allowed\<close> says where \<open>chown\<close> succeeds.\<close>

definition posix_chown :: "(string \<Rightarrow> bool) \<Rightarrow> int \<Rightarrow> int \<Rightarrow> string \<Rightarrow> (sysconf, unit) act" where
  "posix_chown allowed uid gid path s =
     (if allowed path then (Inr (), s\<lparr>sc_owners := AList.update path (uid, gid) (sc_owners s)\<rparr>)
      else (Inl Assure_failed, s))"

fun chown_all :: "(string \<Rightarrow> bool) \<Rightarrow> int \<Rightarrow> int \<Rightarrow> string list \<Rightarrow> (sysconf, unit) act" where
  "chown_all allowed uid gid [] = okE ()"
| "chown_all allowed uid gid (path # paths) =
     thenE (posix_chown allowed uid gid path) (\<lambda>_. chown_all allowed uid gid paths)"

definition sysconf_fix_permissions :: "(string \<Rightarrow> bool) \<Rightarrow> int \<Rightarrow> int \<Rightarrow> (sysconf, unit) act" where
  "sysconf_fix_permissions allowed uid gid s =
     (let config_path = sysconf_get_config_dir s; s1 = sysconf_create_config_dir s in
      thenE (posix_chown allowed uid gid config_path) (\<lambda>_ s2.
        if \<not> dir_exists s2 config_path then (Inl Assure_failed, s2)
        else chown_all allowed uid gid (filter (dir_entry config_path) (map fst (sc_files s2))) s2) s1)"

record config =
  cf_doPreflight :: bool
  cf_allowHeartlessWifi :: bool
  cf_retryWifiSession :: bool
  cf_enableWifiDeviceManager :: bool
  cf_enableUSBDeviceManager :: bool
  cf_enableExit :: bool
  cf_daemonize :: bool
  cf_useLogfile :: bool
  cf_debugLevel :: int
  cf_dropUser :: string

definition config_init :: config where
  "config_init = \<lparr>cf_doPreflight = False, cf_allowHeartlessWifi = False, cf_retryWifiSession = False,
     cf_enableWifiDeviceManager = False, cf_enableUSBDeviceManager = False, cf_enableExit = False,
     cf_daemonize = False, cf_useLogfile = False, cf_debugLevel = 0, cf_dropUser = []\<rparr>"

definition config_load :: "'p plist_lib \<Rightarrow> config \<Rightarrow> (sysconf, config) act" where
  "config_load L c =
     thenE (sysconf_try_getconfig_bool L ''doPreflight'' True) (\<lambda>p.
     thenE (sysconf_try_getconfig_bool L ''enableWifiDeviceManager'' True) (\<lambda>w.
     thenE (sysconf_try_getconfig_bool L ''enableUSBDeviceManager'' True) (\<lambda>u.
       okE (c\<lparr>cf_doPreflight := p, cf_enableWifiDeviceManager := w, cf_enableUSBDeviceManager := u\<rparr>))))"

section \<open>The directory\<close>

lemma mkdir_with_parents_frame:
  "sc_files (mkdir_with_parents d s) = sc_files s \<and> sc_config_env (mkdir_with_parents d s) = sc_config_env s
   \<and> sc_macs (mkdir_with_parents d s) = sc_macs s
   \<and> (\<forall>x. dir_exists s x \<longrightarrow> dir_exists (mkdir_with_parents d s) x)"
proof (induction d s rule: mkdir_with_parents.induct)
  case (1 d s)
  then show ?case
    by (subst (1 2 3 4) mkdir_with_parents.simps)
      (auto simp: posix_mkdir_def dir_exists_def split: if_splits)
qed

lemma mkdir_with_parents_new:
  "dir_exists (mkdir_with_parents d s) x \<Longrightarrow> dir_exists s x \<or> path_size x \<le> path_size d"
proof (induction d s rule: mkdir_with_parents.induct)
  case (1 d s)
  show ?case
  proof (cases "posix_mkdir d s")
    case None
    then have "d \<noteq> ''/'' \<and> d \<noteq> ''.''" by (auto simp: posix_mkdir_def dir_exists_def split: if_splits)
    with None 1 dirname_smaller [of d] show ?thesis
      by (auto simp: mkdir_with_parents.simps [of d s])
  next
    case (Some s')
    with 1(2) show ?thesis
      by (auto simp: mkdir_with_parents.simps [of d s] posix_mkdir_def dir_exists_def split: if_splits)
  qed
qed

lemma create_config_dir_frame [simp]:
  "sc_files (sysconf_create_config_dir s) = sc_files s"
  "sc_config_env (sysconf_create_config_dir s) = sc_config_env s"
  "sc_macs (sysconf_create_config_dir s) = sc_macs s"
  by (simp_all add: sysconf_create_config_dir_def Let_def mkdir_with_parents_frame)

lemma config_dir_frame [simp]:
  "sysconf_get_config_dir (sysconf_create_config_dir s) = sysconf_get_config_dir s"
  by (simp add: sysconf_get_config_dir_def)

text \<open>
  The configuration directory is created one level deep. After \<open>sysconf_create_config_dir\<close> it exists
  exactly where it or its parent existed before: where two levels are missing the recursion makes an
  ancestor and never comes back for the directory itself.
\<close>

theorem config_dir_created:
  "dir_exists (sysconf_create_config_dir s) (sysconf_get_config_dir s) \<longleftrightarrow>
   dir_exists s (sysconf_get_config_dir s) \<or> dir_exists s (dirname (sysconf_get_config_dir s))"
proof -
  let ?d = "sysconf_get_config_dir s"
  show ?thesis
  proof (cases "dir_exists s ?d \<or> dir_exists s (dirname ?d)")
    case True
    then show ?thesis
      by (auto simp: sysconf_create_config_dir_def Let_def mkdir_with_parents.simps [of ?d s]
          posix_mkdir_def dir_exists_def)
  next
    case False
    then have "mkdir_with_parents ?d s = mkdir_with_parents (dirname ?d) s"
      by (simp add: mkdir_with_parents.simps [of ?d s] posix_mkdir_def)
    moreover have "path_size (dirname ?d) < path_size ?d"
      using False by (intro dirname_smaller) (auto simp: dir_exists_def)
    ultimately have "\<not> dir_exists (mkdir_with_parents ?d s) ?d"
      using False mkdir_with_parents_new [of "dirname ?d" s ?d] by auto
    with False show ?thesis
      by (simp add: sysconf_create_config_dir_def Let_def)
  qed
qed

section \<open>Records\<close>

lemma load_macs_frame:
  assumes "sysconf_load_known_macaddrs L s = (r, s')"
  shows "sc_files s' = sc_files s \<and> sc_config_env s' = sc_config_env s
    \<and> sc_dirs s' = sc_dirs (sysconf_create_config_dir s)"
  using assms by (auto simp: sysconf_load_known_macaddrs_def Let_def split: if_splits)

lemma fst_get_device_record:
  "fst (sysconf_get_device_record L udid s) = readPlist L (record_path (sysconf_get_config_dir s) udid) s"
  by (simp add: sysconf_get_device_record_def thenE_def get_device_record_path_def readPlist_def)

lemma set_device_record_files:
  assumes "sysconf_set_device_record L udid rec s = (Inr (), s')"
  shows "sc_files s' = AList.update (record_path (sysconf_get_config_dir s) udid) (plist_to_xml L rec) (sc_files s)
    \<and> sc_config_env s' = sc_config_env s"
  using assms
  by (auto simp: sysconf_set_device_record_def get_device_record_path_def writePlistToFile_def
      elim!: thenE_cases dest!: load_macs_frame split: if_splits)

lemma record_path_inject: "record_path d u = record_path d v \<longleftrightarrow> u = v"
  by (simp add: record_path_def)

text \<open>
  C21: a pairing record that was saved is the one that is read back, and saving it leaves the records of
  all other devices as they were.
\<close>

theorem record_store_roundtrip:
  assumes "sysconf_set_device_record L udid rec s = (Inr (), s')"
    and "plist_from_memory L (plist_to_xml L rec) = Some rec"
  shows "fst (sysconf_get_device_record L udid s') = Inr rec
    \<and> (\<forall>other. other \<noteq> udid \<longrightarrow>
        fst (sysconf_get_device_record L other s') = fst (sysconf_get_device_record L other s))"
proof -
  from set_device_record_files [OF assms(1)]
  have "sc_files s' = AList.update (record_path (sysconf_get_config_dir s) udid) (plist_to_xml L rec) (sc_files s)"
    and "sysconf_get_config_dir s' = sysconf_get_config_dir s"
    by (simp_all add: sysconf_get_config_dir_def)
  with assms(2) show ?thesis
    by (simp add: fst_get_device_record readPlist_def update_conv' record_path_inject)
qed

section \<open>The MAC address cache\<close>

text \<open>
  The identifier of a record file. With a configuration directory whose path has no dot the name of
  a device's file gives the device back; with a dot anywhere in the directory's path the search for
  the first dot stops before the file name, and the identifier keeps the extension.
\<close>

theorem uuid_of_record_path:
  assumes "CHR ''/'' \<notin> set udid" and "CHR ''.'' \<notin> set udid"
    and "length dir + length udid < 2 ^ 62"
  shows "uuid_of_path (record_path dir udid) =
    (if CHR ''.'' \<in> set dir then udid @ ''.plist'' else udid)"
proof -
  let ?p = "record_path dir udid"
  have "takeWhile (\<lambda>x. x \<noteq> CHR ''/'') (rev ?p) = rev (udid @ ''.plist'')"
  proof -
    have rp: "rev ?p = rev (udid @ ''.plist'') @ CHR ''/'' # rev dir"
      by (simp add: record_path_def)
    have P: "\<forall>x \<in> set (rev (udid @ ''.plist'')). x \<noteq> CHR ''/''"
      using assms(1) by auto
    show ?thesis
      unfolding rp using P by (subst takeWhile_append2) (auto simp del: rev_append)
  qed
  then have last: "after_last_of (CHR ''/'') ?p = Suc (length dir)"
    by (simp add: after_last_of_def record_path_def)
  have body: "drop (Suc (length dir)) ?p = udid @ ''.plist''"
    by (simp add: record_path_def)
  show ?thesis
  proof (cases "CHR ''.'' \<in> set dir")
    case True
    then have k: "length (takeWhile (\<lambda>x. x \<noteq> CHR ''.'') dir) < length dir"
      using takeWhile_eq_all_conv [of "\<lambda>x. x \<noteq> CHR ''.''" dir] length_takeWhile_le [of _ dir]
      by (metis le_neq_implies_less takeWhile_eq_take take_all_iff order_refl)
    then have "takeWhile (\<lambda>x. x \<noteq> CHR ''.'') ?p = takeWhile (\<lambda>x. x \<noteq> CHR ''.'') dir"
      using True by (simp add: record_path_def takeWhile_append1)
    with k have dot: "find_char (CHR ''.'') ?p < length dir"
      by (simp add: find_char_def record_path_def)
    define k where "k = find_char (CHR ''.'') ?p"
    define x where "x = int k - int (Suc (length dir))"
    have x: "- (2 ^ 62) - 1 \<le> x" "x < 0"
      using dot assms(3) by (auto simp: x_def k_def [symmetric])
    then have "(x + 2 ^ 64) mod 2 ^ 64 = x + 2 ^ 64"
      by (intro mod_pos_pos_trivial) auto
    then have "x mod 2 ^ 64 = x + 2 ^ 64" by (metis mod_add_self2)
    with x assms(3) have "length udid + 6 \<le> nat (x mod 2 ^ 64)" by simp
    then show ?thesis
      using True last body unfolding uuid_of_path_def Let_def k_def [symmetric] x_def [symmetric]
      by (simp add: x_def k_def)
  next
    case False
    have "takeWhile (\<lambda>x. x \<noteq> CHR ''.'') ?p = dir @ ''/'' @ udid"
      using False assms(2) by (simp add: record_path_def takeWhile_append2 takeWhile_append)
    then have "find_char (CHR ''.'') ?p = Suc (length dir + length udid)"
      by (simp add: find_char_def record_path_def)
    with last body assms(3) False show ?thesis
      by (simp add: uuid_of_path_def)
  qed
qed

section \<open>Settings\<close>

definition conf_file :: "sysconf \<Rightarrow> string" where
  "conf_file s = record_path (sysconf_get_config_dir s) CONFIG_FILE"

definition conf_ok :: "'p plist_lib \<Rightarrow> sysconf \<Rightarrow> bool" where
  "conf_ok L s \<longleftrightarrow> (case readPlist L (conf_file s) s of Inl e \<Rightarrow> True | Inr p \<Rightarrow> plist_is_dict L p)"

lemma conf_file_frame [simp]:
  "readPlist L p (sysconf_create_config_dir s) = readPlist L p s"
  "conf_file (sysconf_create_config_dir s) = conf_file s"
  by (simp_all add: readPlist_def conf_file_def)

lemma config_file_path:
  "get_device_record_path CONFIG_FILE s = (Inr (conf_file s), sysconf_create_config_dir s)"
  by (simp add: get_device_record_path_def conf_file_def)

lemma get_value_run:
  "sysconf_get_value L key s =
     (case readPlist L (conf_file s) s of
        Inl e \<Rightarrow> Inl e
      | Inr rec \<Rightarrow> (case plist_dict_get L rec key of None \<Rightarrow> Inl Record_not_found | Some v \<Rightarrow> Inr v),
      sysconf_create_config_dir s)"
  unfolding sysconf_get_value_def thenE_def config_file_path
  by (simp split: sum.splits option.splits)

lemma set_value_run:
  assumes "sysconf_set_value L key val s = (Inr (), s')"
  shows "sc_files s' = AList.update (conf_file s) (plist_to_xml L
      (plist_dict_set L (case readPlist L (conf_file s) s of Inl e \<Rightarrow> plist_new_dict L | Inr p \<Rightarrow> p) key val))
      (sc_files s)
    \<and> conf_file s' = conf_file s"
proof -
  let ?s = "sysconf_create_config_dir s"
  let ?conf = "case readPlist L (conf_file s) s of Inl e \<Rightarrow> plist_new_dict L | Inr p \<Rightarrow> p"
  have "writePlistToFile L (plist_dict_set L ?conf key val) (conf_file s) ?s = (Inr (), s')"
    using assms unfolding sysconf_set_value_def thenE_def config_file_path by simp
  then have "s' = ?s\<lparr>sc_files := AList.update (conf_file s)
      (plist_to_xml L (plist_dict_set L ?conf key val)) (sc_files ?s)\<rparr>"
    by (simp add: writePlistToFile_def split: if_splits)
  then show ?thesis by (simp add: conf_file_def sysconf_get_config_dir_def)
qed

text \<open>A setting that was written is read back, and the file stays a dictionary.\<close>

lemma set_value_get_value:
  assumes laws: "plist_laws L" and ok: "conf_ok L s"
    and run: "sysconf_set_value L key val s = (Inr (), s')"
  shows "fst (sysconf_get_value L key s') = Inr val \<and> conf_ok L s'"
proof -
  define conf where "conf = (case readPlist L (conf_file s) s of Inl e \<Rightarrow> plist_new_dict L | Inr p \<Rightarrow> p)"
  have dict: "plist_is_dict L conf"
    using ok by (auto simp: conf_def conf_ok_def split: sum.splits)
  from set_value_run [OF run] laws
  have "readPlist L (conf_file s') s' = Inr (plist_dict_set L conf key val)"
    by (simp add: readPlist_def update_conv' conf_def plist_lawsD)
  with laws dict show ?thesis
    by (simp add: get_value_run plist_lawsD conf_ok_def)
qed

lemma get_value_frame:
  assumes "sysconf_get_value L key s = (r, s')"
  shows "conf_file s' = conf_file s \<and> sc_files s' = sc_files s \<and> (conf_ok L s \<longrightarrow> conf_ok L s')
    \<and> fst (sysconf_get_value L key s') = r"
proof -
  have s': "s' = sysconf_create_config_dir s" using assms by (simp add: get_value_run)
  then have "conf_file s' = conf_file s" "sc_files s' = sc_files s" by (simp_all add: conf_file_def)
  moreover from this have "readPlist L (conf_file s') s' = readPlist L (conf_file s) s"
    by (simp add: readPlist_def)
  ultimately show ?thesis using assms by (auto simp: conf_ok_def get_value_run)
qed

text \<open>
  The identifier of the host is stable. Once \<open>sysconf_get_system_buid\<close> has returned one, whether
  read from the settings or generated and stored, every later call returns the same, whatever the
  random numbers.
\<close>

theorem buid_stable:
  assumes "plist_laws L" and "conf_ok L s"
    and "sysconf_get_system_buid L rnd s = (Inr b, s1)"
  shows "fst (sysconf_get_system_buid L rnd' s1) = Inr b"
proof -
  obtain r s0 where get: "sysconf_get_value L ''SystemBUID'' s = (r, s0)" by (metis prod.exhaust)
  note frame = get_value_frame [OF get]
  show ?thesis
  proof (cases r)
    case (Inr p)
    with assms(3) get have "s1 = s0" "plist_get_string L p = Some b"
      by (auto simp: sysconf_get_system_buid_def split: option.splits)
    with frame Inr show ?thesis
      by (cases "sysconf_get_value L ''SystemBUID'' s1") (simp add: sysconf_get_system_buid_def)
  next
    case (Inl e)
    let ?new = "plist_new_string L (sysconf_generate_system_buid rnd)"
    from Inl assms(1,3) get have set: "sysconf_set_value L ''SystemBUID'' ?new s0 = (Inr (), s1)"
      and b: "b = sysconf_generate_system_buid rnd"
      by (auto simp: sysconf_get_system_buid_def plist_lawsD elim!: thenE_cases)
    from set_value_get_value [OF assms(1) _ set] frame assms(2)
    have "fst (sysconf_get_value L ''SystemBUID'' s1) = Inr ?new" by blast
    with b assms(1) show ?thesis
      by (cases "sysconf_get_value L ''SystemBUID'' s1")
        (simp add: sysconf_get_system_buid_def plist_lawsD)
  qed
qed

text \<open>
  A boolean setting that is missing or has another type is replaced by its default, and from then
  on it is what was returned: a second call answers the same, even with another default.
\<close>

theorem getconfig_bool_stable:
  assumes "plist_laws L" and "conf_ok L s"
    and "sysconf_try_getconfig_bool L key def s = (Inr b, s1)"
  shows "fst (sysconf_try_getconfig_bool L key def' s1) = Inr b
    \<and> (fst (sysconf_get_value L key s) = Inr (plist_new_bool L v) \<longrightarrow> b = v)"
proof -
  obtain r s0 where get: "sysconf_get_value L key s = (r, s0)" by (metis prod.exhaust)
  note frame = get_value_frame [OF get]
  have again: "fst (sysconf_try_getconfig_bool L key def' s1) = Inr b"
    if "fst (sysconf_get_value L key s1) = Inr p" "plist_get_bool L p = Some b" for p
    using that by (cases "sysconf_get_value L key s1")
      (simp add: sysconf_try_getconfig_bool_def thenE_def)
  show ?thesis
  proof (cases "\<exists>p. r = Inr p \<and> plist_get_bool L p \<noteq> None")
    case True
    then obtain p c where p: "r = Inr p" "plist_get_bool L p = Some c" by auto
    with assms(3) get have "s1 = s0" "c = b"
      by (auto simp: sysconf_try_getconfig_bool_def thenE_def)
    with p frame again get assms(1) show ?thesis by (auto simp: plist_lawsD)
  next
    case False
    with assms(3) get have set: "sysconf_set_value L key (plist_new_bool L def) s0 = (Inr (), s1)"
      and b: "b = def"
      by (auto simp: sysconf_try_getconfig_bool_def thenE_def split: sum.splits option.splits prod.splits)
    from set_value_get_value [OF assms(1) _ set] frame assms(2)
    have "fst (sysconf_get_value L key s1) = Inr (plist_new_bool L def)" by blast
    with b assms(1) have "fst (sysconf_try_getconfig_bool L key def' s1) = Inr b"
      by (intro again) (auto simp: plist_lawsD)
    with False get assms(1) show ?thesis by (auto simp: plist_lawsD)
  qed
qed

section \<open>Permissions\<close>

lemma chown_all_owners:
  assumes "chown_all allowed uid gid paths s = (Inr (), s')"
  shows "map_of (sc_owners s') = (\<lambda>p. if p \<in> set paths then Some (uid, gid) else map_of (sc_owners s) p)
    \<and> sc_files s' = sc_files s"
  using assms
proof (induction paths arbitrary: s)
  case (Cons p paths)
  then show ?case
    by (auto simp: posix_chown_def update_conv' fun_eq_iff elim!: thenE_cases split: if_splits)
qed simp

text \<open>
  After the permissions were fixed the configuration directory and every file in it belong to the user;
  the owners of other paths are unchanged.
\<close>

lemma fix_permissions_owners:
  assumes "sysconf_fix_permissions allowed uid gid s = (Inr (), s')"
  shows "map_of (sc_owners s') p =
    (if p = sysconf_get_config_dir s
        \<or> dir_entry (sysconf_get_config_dir s) p \<and> p \<in> fst ` set (sc_files s)
     then Some (uid, gid) else map_of (sc_owners (sysconf_create_config_dir s)) p)"
  using assms
  by (auto simp: sysconf_fix_permissions_def Let_def posix_chown_def update_conv'
      elim!: thenE_cases dest!: chown_all_owners split: if_splits) (force simp: image_iff)

section \<open>Concrete runs\<close>

definition ex_conf :: sysconf where
  "ex_conf = \<lparr>sc_config_env = None, sc_dirs = [''/var/lib/lockdown''], sc_files = [], sc_macs = [], sc_owners = []\<rparr>"

lemmas ex_conf_eval = ex_conf_def sysconf_get_config_dir_def sysconf_create_config_dir_def dir_exists_def
  record_path_def parent_of_def get_device_record_path_def writePlistToFile_def readPlist_def CONFIG_FILE_def
  thenE_def

lemma ex_conf_ok: "conf_ok L ex_conf"
  by (simp add: conf_ok_def readPlist_def ex_conf_def)

lemma record_store_roundtrip_witness:
  "\<exists>s'. sysconf_set_device_record tree_lib ''abc'' (Str ''record'') ex_conf = (Inr (), s')
    \<and> fst (sysconf_get_device_record tree_lib ''abc'' s') = Inr (Str ''record'')"
proof -
  have "fst (sysconf_set_device_record tree_lib ''abc'' (Str ''record'') ex_conf) = Inr ()"
    by (simp add: sysconf_set_device_record_def sysconf_load_known_macaddrs_def ex_conf_eval Let_def)
  from record_store_roundtrip [OF run_ok [OF this] plist_lawsD(8) [OF tree_lib_laws]] run_ok [OF this]
  show ?thesis by blast
qed

lemma uuid_of_record_path_witness:
  "uuid_of_path (record_path ''/var/lib/lockdown'' ''00008030-001'') = ''00008030-001''
   \<and> uuid_of_path (record_path ''/home/u/.config'' ''00008030-001'') = ''00008030-001.plist''"
  using uuid_of_record_path [of "''00008030-001''" "''/var/lib/lockdown''"]
    uuid_of_record_path [of "''00008030-001''" "''/home/u/.config''"]
  by simp

lemma buid_stable_witness:
  "\<exists>b s1. sysconf_get_system_buid tree_lib (\<lambda>_. 0) ex_conf = (Inr b, s1)
    \<and> fst (sysconf_get_system_buid tree_lib (\<lambda>i. i) s1) = Inr b"
proof -
  obtain b s1 where run: "sysconf_get_system_buid tree_lib (\<lambda>_. 0) ex_conf = (Inr b, s1)"
    by (simp add: sysconf_get_system_buid_def sysconf_get_value_def sysconf_set_value_def ex_conf_eval tree_lib_def)
  from buid_stable [OF tree_lib_laws ex_conf_ok run] run show ?thesis by blast
qed

lemma getconfig_bool_stable_witness:
  "\<exists>b s1. sysconf_try_getconfig_bool tree_lib ''doPreflight'' True ex_conf = (Inr b, s1)
    \<and> fst (sysconf_try_getconfig_bool tree_lib ''doPreflight'' False s1) = Inr b"
proof -
  obtain b s1 where run: "sysconf_try_getconfig_bool tree_lib ''doPreflight'' True ex_conf = (Inr b, s1)"
    by (simp add: sysconf_try_getconfig_bool_def sysconf_get_value_def sysconf_set_value_def ex_conf_eval tree_lib_def okE_def)
  from getconfig_bool_stable [OF tree_lib_laws ex_conf_ok run] run show ?thesis by blast
qed

end
