(* ===== verification/Client_Commands.thy ===== *)
theory Client_Commands
  imports Muxer Sysconf
begin

text \<open>
  What a client can ask for, the second half of \<^verbatim>\<open>Client.cpp\<close>: \<open>processData\<close> with all its commands, the
  event loop that drives it and the end of the client's thread. A command works on the muxer and on
  the configuration store; the state of the daemon is both. The client is named by its pointer and
  lives in the muxer's store. Exceptions are results; \<open>Trap\<close> is undefined behaviour, which no handler
  catches.
\<close>

section \<open>State\<close>

record daemon =
  dm_mux :: muxer
  dm_conf :: sysconf

definition on_mux :: "(muxer, 'a) act \<Rightarrow> (daemon, 'a) act" where
  "on_mux f s = (case f (dm_mux s) of (r, m) \<Rightarrow> (r, s\<lparr>dm_mux := m\<rparr>))"

definition on_conf :: "(sysconf, 'a) act \<Rightarrow> (daemon, 'a) act" where
  "on_conf f s = (case f (dm_conf s) of (r, c) \<Rightarrow> (r, s\<lparr>dm_conf := c\<rparr>))"

definition catchE :: "('s, 'a) act \<Rightarrow> ('s, 'a) act \<Rightarrow> ('s, 'a) act" where
  "catchE body handler s =
     (case body s of
        (Inl e, s') \<Rightarrow> if e = Trap then (Inl Trap, s') else handler s'
      | (Inr x, s') \<Rightarrow> (Inr x, s'))"

definition the_client :: "nat \<Rightarrow> daemon \<Rightarrow> client" where
  "the_client p s = mx_heap (dm_mux s) p"

definition upd_client :: "nat \<Rightarrow> (client \<Rightarrow> client) \<Rightarrow> (daemon, unit) act" where
  "upd_client p f = on_mux (on_client p (modE f))"

section \<open>Answers\<close>

definition EINVAL :: u32 where "EINVAL = 22"
definition ENOENT :: u32 where "ENOENT = 2"

definition reply_result :: "'p mux_env \<Rightarrow> nat \<Rightarrow> u32 \<Rightarrow> u32 \<Rightarrow> (daemon, unit) act" where
  "reply_result env p tag code =
     on_mux (on_client p (send_result (me_plist env) (me_sock env) tag code))"

definition reply_plist :: "'p mux_env \<Rightarrow> nat \<Rightarrow> u32 \<Rightarrow> 'p \<Rightarrow> (daemon, unit) act" where
  "reply_plist env p tag rsp =
     on_mux (on_client p (send_plist_pkt (me_plist env) (me_sock env) tag rsp))"

section \<open>Fields of a request\<close>

definition request_string :: "'p plist_lib \<Rightarrow> 'p \<Rightarrow> string \<Rightarrow> string option" where
  "request_string L req key =
     (case plist_dict_get L req key of None \<Rightarrow> None | Some n \<Rightarrow> plist_get_string L n)"

definition request_uint :: "'p plist_lib \<Rightarrow> 'p \<Rightarrow> string \<Rightarrow> u64 option" where
  "request_uint L req key =
     (case plist_dict_get L req key of None \<Rightarrow> None | Some n \<Rightarrow> plist_get_uint L n)"

section \<open>The commands\<close>

text \<open>The label \<open>PLIST_CLIENT_LISTEN_LOC\<close>.\<close>

definition listen_loc :: "'p mux_env \<Rightarrow> nat \<Rightarrow> u32 \<Rightarrow> (daemon, unit) act" where
  "listen_loc env p tag =
     thenE (reply_result env p tag (result_code RESULT_OK)) (\<lambda>_.
     thenE (upd_client p (\<lambda>c. c\<lparr>cl_isListening := True\<rparr>)) (\<lambda>_.
       on_mux (modE (notify_alldevices env p))))"

text \<open>
  The label \<open>PLIST_CLIENT_CONNECTION_LOC\<close>. The parameter of \<open>Muxer::start_connect\<close> is an \<open>int\<close>. A
  connection that was made ends the client's thread with an exception.
\<close>

definition connection_loc :: "'p mux_env \<Rightarrow> nat \<Rightarrow> u32 \<Rightarrow> u32 \<Rightarrow> u16 \<Rightarrow> (daemon, unit) act" where
  "connection_loc env p tag device_id portnum s =
     (case thenE (upd_client p (\<lambda>c. c\<lparr>cl_connectTag := tag\<rparr>))
             (\<lambda>_. on_mux (mux_start_connect env (sint device_id) portnum p)) s of
        (Inr u, s') \<Rightarrow> (Inl Graceful_kill, s')
      | (Inl e, s') \<Rightarrow>
          if e = Trap then (Inl Trap, s')
          else reply_result env p tag (result_code RESULT_CONNREFUSED) s')"

definition cmd_connect :: "'p mux_env \<Rightarrow> nat \<Rightarrow> u32 \<Rightarrow> 'p \<Rightarrow> (daemon, unit) act" where
  "cmd_connect env p tag req =
     (case request_uint (me_plist env) req ''DeviceID'' of
        None \<Rightarrow> reply_result env p tag (result_code RESULT_BADDEV)
      | Some tmpDeviceID \<Rightarrow>
          (case request_uint (me_plist env) req ''PortNumber'' of
             None \<Rightarrow> reply_result env p tag (result_code RESULT_BADDEV)
           | Some tmpPortNumber \<Rightarrow>
               connection_loc env p tag (ucast tmpDeviceID) (swap16 (ucast tmpPortNumber))))"

definition cmd_read_buid :: "'p mux_env \<Rightarrow> (nat \<Rightarrow> nat) \<Rightarrow> nat \<Rightarrow> u32 \<Rightarrow> (daemon, unit) act" where
  "cmd_read_buid env rnd p tag =
     (let L = me_plist env in
      thenE (on_conf (sysconf_get_system_buid L rnd)) (\<lambda>buid.
        reply_plist env p tag (plist_dict_set L (plist_new_dict L) ''BUID'' (plist_new_string L buid))))"

definition cmd_read_pair_record :: "'p mux_env \<Rightarrow> nat \<Rightarrow> u32 \<Rightarrow> 'p \<Rightarrow> (daemon, unit) act" where
  "cmd_read_pair_record env p tag req s =
     (let L = me_plist env in
      case request_string L req ''PairRecordID'' of
        None \<Rightarrow> reply_result env p tag EINVAL s
      | Some record_id \<Rightarrow>
          (case on_conf (sysconf_get_device_record L record_id) s of
             (Inl e, s') \<Rightarrow> if e = Trap then (Inl Trap, s') else reply_result env p tag ENOENT s'
           | (Inr devrecord, s') \<Rightarrow>
               reply_plist env p tag (plist_dict_set L (plist_new_dict L) ''PairRecordData''
                 (plist_new_data L (plist_to_bin L devrecord))) s'))"

definition cmd_save_pair_record :: "'p mux_env \<Rightarrow> nat \<Rightarrow> u32 \<Rightarrow> 'p \<Rightarrow> (daemon, unit) act" where
  "cmd_save_pair_record env p tag req =
     (let L = me_plist env in
      case (request_string L req ''PairRecordID'', plist_dict_get L req ''PairRecordData'') of
        (Some record_id, Some pairRecord) \<Rightarrow>
          (case plist_get_data L pairRecord of
             None \<Rightarrow> throwE Assure_failed
           | Some blob \<Rightarrow>
               (case plist_from_memory L blob of
                  None \<Rightarrow> throwE Bad_plist
                | Some parsedPairRecord \<Rightarrow>
                    thenE (on_conf (sysconf_set_device_record L record_id parsedPairRecord)) (\<lambda>_.
                    thenE (on_mux (modE (case request_uint L req ''DeviceID'' of
                             None \<Rightarrow> (\<lambda>m. m)
                           | Some intval \<Rightarrow> notify_device_paired env (sint (ucast intval :: u32))))) (\<lambda>_.
                    thenE (on_mux (modE (trigger_wifi_rediscovery_after_pairing record_id))) (\<lambda>_.
                      reply_result env p tag (result_code RESULT_OK))))))
      | _ \<Rightarrow> reply_result env p tag EINVAL)"

definition cmd_delete_pair_record :: "'p mux_env \<Rightarrow> nat \<Rightarrow> u32 \<Rightarrow> 'p \<Rightarrow> (daemon, unit) act" where
  "cmd_delete_pair_record env p tag req =
     (let L = me_plist env in
      case request_string L req ''PairRecordID'' of
        None \<Rightarrow> reply_result env p tag EINVAL
      | Some record_id \<Rightarrow>
          thenE (on_conf (sysconf_remove_device_record L record_id)) (\<lambda>_.
          thenE (on_mux (modE (cleanup_wifi_device_after_unpair record_id))) (\<lambda>_.
            reply_result env p tag (result_code RESULT_OK))))"

definition cmd_refresh_wifi :: "'p mux_env \<Rightarrow> nat \<Rightarrow> u32 \<Rightarrow> (daemon, unit) act" where
  "cmd_refresh_wifi env p tag =
     thenE (on_mux (modE (\<lambda>m. reconnect_wifi_sessions_now (refresh_wifi_discovery m)))) (\<lambda>_.
       reply_result env p tag (result_code RESULT_OK))"

definition plist_command ::
    "'p mux_env \<Rightarrow> (nat \<Rightarrow> nat) \<Rightarrow> nat \<Rightarrow> u32 \<Rightarrow> 'p \<Rightarrow> string \<Rightarrow> (daemon, unit) act" where
  "plist_command env rnd p tag req message =
     (if message = ''Listen'' then listen_loc env p tag
      else if message = ''Connect'' then cmd_connect env p tag req
      else if message = ''ListDevices'' then on_mux (send_deviceList env p tag)
      else if message = ''ReadBUID'' then cmd_read_buid env rnd p tag
      else if message = ''ReadPairRecord'' then cmd_read_pair_record env p tag req
      else if message = ''SavePairRecord'' then cmd_save_pair_record env p tag req
      else if message = ''DeletePairRecord'' then cmd_delete_pair_record env p tag req
      else if message = ''RefreshWifiDiscovery'' then cmd_refresh_wifi env p tag
      else if message = ''ListListeners'' then on_mux (send_listenerList env p tag)
      else reply_result env p tag (result_code RESULT_BADCOMMAND))"

section \<open>Messages\<close>

text \<open>
  The payload of a plist message. Its size is computed in 32 bits; a length field below the size of the
  header makes it wrap, and the parser then reads far behind the buffer.
\<close>

definition plist_request :: "'p plist_lib \<Rightarrow> client \<Rightarrow> 'p option" where
  "plist_request L c =
     plist_from_xml L (get_mem (cl_mem c) sizeof_usbmuxd_header
       (unat (uh_length (client_hdr c)) - sizeof_usbmuxd_header))"

definition process_plist :: "'p mux_env \<Rightarrow> (nat \<Rightarrow> nat) \<Rightarrow> nat \<Rightarrow> (daemon, unit) act" where
  "process_plist env rnd p s =
     (let L = me_plist env; c = the_client p s; hdr = client_hdr c;
          s1 = snd (upd_client p (\<lambda>c. c\<lparr>cl_proto_version := 1\<rparr>) s)
      in if unat (uh_length hdr) < sizeof_usbmuxd_header then (Inl Trap, s1)
         else (case plist_request L c of
           None \<Rightarrow> (Inl Missing_message_type, s1)
         | Some req \<Rightarrow>
             (case request_string L req ''MessageType'' of
                None \<Rightarrow> (Inl Missing_message_type, s1)
              | Some message \<Rightarrow>
                  thenE (upd_client p (update_client_info L req))
                    (\<lambda>_. plist_command env rnd p (uh_tag hdr) req message) s1)))"

text \<open>The binary form of a connection request; its fields are read whatever the message's length.\<close>

definition connect_request :: "client \<Rightarrow> usbmuxd_connect_request" where
  "connect_request c = decode_connect_request (get_mem (cl_mem c) 0 24)"

definition processData :: "'p mux_env \<Rightarrow> (nat \<Rightarrow> nat) \<Rightarrow> nat \<Rightarrow> (daemon, unit) act" where
  "processData env rnd p s =
     (let c = the_client p s; hdr = client_hdr c; tag = uh_tag hdr in
      if uh_version hdr \<noteq> 0 \<and> uh_version hdr \<noteq> 1
      then reply_result env p tag (result_code RESULT_BADVERSION) s
      else if uh_message hdr = msgtype_code MESSAGE_PLIST then process_plist env rnd p s
      else if uh_message hdr = msgtype_code MESSAGE_LISTEN then listen_loc env p tag s
      else if uh_message hdr = msgtype_code MESSAGE_CONNECT
      then connection_loc env p tag (cr_device_id (connect_request c)) (cr_port (connect_request c)) s
      else reply_result env p tag (result_code RESULT_BADCOMMAND) s)"

section \<open>The client's thread\<close>

text \<open>
  One turn of the event loop over the results of \<open>recv\<close>; the result says whether the message was
  complete. An exception ends the loop, and \<open>afterLoop\<close> takes the client out of the muxer.
\<close>

definition client_loopEvent ::
    "'p mux_env \<Rightarrow> (nat \<Rightarrow> nat) \<Rightarrow> nat \<Rightarrow> bytes option list \<Rightarrow> (daemon, bool) act" where
  "client_loopEvent env rnd p gots =
     thenE (on_mux (on_client p (\<lambda>c. recv_data RD_first gots (loopEvent_start c)))) (\<lambda>pc.
       if pc = RD_done then thenE (processData env rnd p) (\<lambda>_. okE True) else okE False)"

definition client_afterLoop :: "nat \<Rightarrow> daemon \<Rightarrow> daemon" where
  "client_afterLoop p s = s\<lparr>dm_mux := delete_client p (dm_mux s)\<rparr>"

datatype thread_end = Waiting | Ended muxerr

fun client_thread ::
    "'p mux_env \<Rightarrow> (nat \<Rightarrow> nat) \<Rightarrow> nat \<Rightarrow> bytes option list list \<Rightarrow> daemon \<Rightarrow> thread_end \<times> daemon" where
  "client_thread env rnd p [] s = (Waiting, s)"
| "client_thread env rnd p (gots # turns) s =
     (case client_loopEvent env rnd p gots s of
        (Inl e, s') \<Rightarrow> (Ended e, client_afterLoop p s')
      | (Inr finished, s') \<Rightarrow> if finished then client_thread env rnd p turns s' else (Waiting, s'))"

section \<open>What an answer is\<close>

lemma on_mux_cases:
  assumes "on_mux f s = (r, s')"
  obtains m where "f (dm_mux s) = (r, m)" and "s' = s\<lparr>dm_mux := m\<rparr>"
  using assms by (auto simp: on_mux_def split: prod.splits)

lemma on_mux_client_cases:
  assumes "on_mux (on_client p f) s = (r, s')"
  obtains c where "f (the_client p s) = (r, c)"
    and "s' = s\<lparr>dm_mux := (dm_mux s)\<lparr>mx_heap := (mx_heap (dm_mux s))(p := c)\<rparr>\<rparr>"
  using assms by (auto simp: on_client_def the_client_def split: prod.splits elim!: on_mux_cases)

lemma on_mux_modE [simp]: "on_mux (modE f) s = (Inr (), s\<lparr>dm_mux := f (dm_mux s)\<rparr>)"
  by (simp add: on_mux_def)

lemma upd_client_run [simp]:
  "upd_client p f s = (Inr (), s\<lparr>dm_mux := (dm_mux s)\<lparr>mx_heap :=
     (mx_heap (dm_mux s))(p := f (the_client p s))\<rparr>\<rparr>)"
  by (simp add: upd_client_def on_mux_def on_client_def the_client_def)

lemma on_conf_mux: "on_conf f s = (r, s') \<Longrightarrow> dm_mux s' = dm_mux s"
  by (auto simp: on_conf_def split: prod.splits)

lemma the_client_fold: "mx_heap (dm_mux s) p = the_client p s"
  by (simp add: the_client_def)

text \<open>
  \<open>quiet p s s'\<close>: on the way from \<open>s\<close> to \<open>s'\<close> the client \<open>p\<close> is sent nothing unless it listens, other
  clients do not change unless they listen, and nobody starts or stops listening.
\<close>

definition quiet :: "nat \<Rightarrow> daemon \<Rightarrow> daemon \<Rightarrow> bool" where
  "quiet p s s' \<longleftrightarrow>
     (\<exists>pre. cl_out (the_client p s') = cl_out (the_client p s) @ pre
       \<and> (\<not> cl_isListening (the_client p s) \<longrightarrow> pre = []))
     \<and> cl_isListening (the_client p s') = cl_isListening (the_client p s)
     \<and> (\<forall>q. q \<noteq> p \<and> \<not> cl_isListening (the_client q s) \<longrightarrow> the_client q s' = the_client q s)"

definition answered :: "bool \<Rightarrow> nat \<Rightarrow> u32 \<Rightarrow> daemon \<Rightarrow> daemon \<Rightarrow> bool" where
  "answered alone p tag s s' \<longleftrightarrow>
     (\<exists>pre pkt rest. cl_out (the_client p s') = cl_out (the_client p s) @ pre @ pkt @ rest
       \<and> sizeof_usbmuxd_header \<le> length pkt \<and> uh_tag (decode_usbmuxd_header pkt) = tag
       \<and> (alone \<and> \<not> cl_isListening (the_client p s) \<longrightarrow> pre = [])
       \<and> (\<not> cl_isListening (the_client p s') \<longrightarrow> rest = []))
     \<and> (\<forall>q. q \<noteq> p \<and> \<not> cl_isListening (the_client q s) \<longrightarrow> the_client q s' = the_client q s)"

lemma answeredI:
  assumes "cl_out (the_client p s') = cl_out (the_client p s) @ pre @ pkt @ rest"
    and "sizeof_usbmuxd_header \<le> length pkt" and "uh_tag (decode_usbmuxd_header pkt) = tag"
    and "alone \<and> \<not> cl_isListening (the_client p s) \<longrightarrow> pre = []"
    and "\<not> cl_isListening (the_client p s') \<longrightarrow> rest = []"
    and "\<And>q. q \<noteq> p \<Longrightarrow> \<not> cl_isListening (the_client q s) \<Longrightarrow> the_client q s' = the_client q s"
  shows "answered alone p tag s s'"
  unfolding answered_def using assms by (intro conjI exI [of _ pre] exI [of _ pkt] exI [of _ rest]) auto

lemma quiet_same: "mx_heap (dm_mux s') = mx_heap (dm_mux s) \<Longrightarrow> quiet p s s'"
  by (simp add: quiet_def the_client_def)

lemma quiet_answered:
  assumes "quiet p s s1" and "answered alone p tag s1 s'"
    and "\<And>q. q \<noteq> p \<Longrightarrow> \<not> cl_isListening (the_client q s) \<Longrightarrow> \<not> cl_isListening (the_client q s1)"
  shows "answered alone p tag s s'"
proof -
  from assms(1) obtain pre0 where a: "cl_out (the_client p s1) = cl_out (the_client p s) @ pre0"
    "\<not> cl_isListening (the_client p s) \<Longrightarrow> pre0 = []"
    "cl_isListening (the_client p s1) = cl_isListening (the_client p s)"
    "\<And>q. q \<noteq> p \<Longrightarrow> \<not> cl_isListening (the_client q s) \<Longrightarrow> the_client q s1 = the_client q s"
    by (auto simp: quiet_def)
  from assms(2) obtain pre pkt rest where b:
    "cl_out (the_client p s') = cl_out (the_client p s1) @ pre @ pkt @ rest"
    "sizeof_usbmuxd_header \<le> length pkt" "uh_tag (decode_usbmuxd_header pkt) = tag"
    "alone \<and> \<not> cl_isListening (the_client p s1) \<Longrightarrow> pre = []"
    "\<not> cl_isListening (the_client p s') \<Longrightarrow> rest = []"
    "\<And>q. q \<noteq> p \<Longrightarrow> \<not> cl_isListening (the_client q s1) \<Longrightarrow> the_client q s' = the_client q s1"
    by (auto simp: answered_def)
  show ?thesis
    unfolding answered_def
    using a b by (intro conjI exI [of _ "pre0 @ pre"] exI [of _ pkt] exI [of _ rest]) auto
qed

lemma send_pkt_answers:
  assumes "send_pkt sock tag msg payload c = (Inr u, c')"
  shows "\<exists>pkt. c' = c\<lparr>cl_out := cl_out c @ pkt\<rparr> \<and> sizeof_usbmuxd_header \<le> length pkt
    \<and> uh_tag (decode_usbmuxd_header pkt) = tag"
proof -
  let ?h = "\<lparr>uh_length = of_nat (sizeof_usbmuxd_header + length payload),
       uh_version = cl_proto_version c, uh_message = msgtype_code msg, uh_tag = tag\<rparr>"
  from assms writeData_ok [of sock ?h payload c u c']
  have "c' = c\<lparr>cl_out := cl_out c @ encode_usbmuxd_header ?h @ payload\<rparr>"
    by (simp add: send_pkt_def)
  then show ?thesis
    by (intro exI [of _ "encode_usbmuxd_header ?h @ payload"])
      (simp add: decode_usbmuxd_header_encode)
qed

lemma send_result_answers:
  assumes "send_result L sock tag code c = (Inr u, c')"
  shows "\<exists>pkt. c' = c\<lparr>cl_out := cl_out c @ pkt\<rparr> \<and> sizeof_usbmuxd_header \<le> length pkt
    \<and> uh_tag (decode_usbmuxd_header pkt) = tag"
  using assms by (auto simp: send_result_def send_plist_pkt_def split: if_splits dest!: send_pkt_answers)

lemma client_step_answers:
  assumes "on_mux (on_client p f) s = (Inr u, s')"
    and "\<And>c c'. f c = (Inr u, c') \<Longrightarrow> \<exists>pkt. c' = c\<lparr>cl_out := cl_out c @ pkt\<rparr>
      \<and> sizeof_usbmuxd_header \<le> length pkt \<and> uh_tag (decode_usbmuxd_header pkt) = tag"
  shows "answered alone p tag s s' \<and> cl_isListening (the_client p s') = cl_isListening (the_client p s)
    \<and> (\<forall>q. q \<noteq> p \<longrightarrow> the_client q s' = the_client q s)"
proof -
  from assms(1) obtain c' where f: "f (the_client p s) = (Inr u, c')"
    and h: "mx_heap (dm_mux s') = (mx_heap (dm_mux s))(p := c')"
    by (auto elim: on_mux_client_cases)
  from assms(2) [OF f] obtain pkt where "c' = (the_client p s)\<lparr>cl_out := cl_out (the_client p s) @ pkt\<rparr>"
    "sizeof_usbmuxd_header \<le> length pkt" "uh_tag (decode_usbmuxd_header pkt) = tag" by blast
  then have "cl_out (the_client p s') = cl_out (the_client p s) @ [] @ pkt @ []"
    "sizeof_usbmuxd_header \<le> length pkt" "uh_tag (decode_usbmuxd_header pkt) = tag"
    "cl_isListening (the_client p s') = cl_isListening (the_client p s)"
    "q \<noteq> p \<Longrightarrow> the_client q s' = the_client q s" for q
    using h by (simp_all add: the_client_def)
  with answeredI [of p s' s "[]" pkt "[]"] show ?thesis by simp
qed

lemma reply_result_answers:
  assumes "reply_result env p tag code s = (Inr (), s')"
  shows "answered alone p tag s s' \<and> cl_isListening (the_client p s') = cl_isListening (the_client p s)
    \<and> (\<forall>q. q \<noteq> p \<longrightarrow> the_client q s' = the_client q s)"
  by (rule client_step_answers [OF assms [unfolded reply_result_def]]) (auto dest: send_result_answers)

lemma plist_step_answers:
  assumes "on_mux (on_client p (send_plist_pkt L sock tag rsp)) s = (Inr (), s')"
  shows "answered alone p tag s s' \<and> cl_isListening (the_client p s') = cl_isListening (the_client p s)
    \<and> (\<forall>q. q \<noteq> p \<longrightarrow> the_client q s' = the_client q s)"
  by (rule client_step_answers [OF assms]) (auto simp: send_plist_pkt_def dest: send_pkt_answers)

lemma told_out:
  "\<exists>ex. snd (send_plist_pkt L sock tag rsp c) = c\<lparr>cl_out := cl_out c @ ex\<rparr>"
  using send_pkt_out [of sock tag MESSAGE_PLIST "plist_to_xml L rsp" c]
  by (cases "send_plist_pkt L sock tag rsp c") (simp add: send_plist_pkt_def)

lemma notify_fold_quiet:
  "\<exists>pre. mx_heap (fold (notify_client env msg) ps m) q = (mx_heap m q)\<lparr>cl_out := cl_out (mx_heap m q) @ pre\<rparr>
    \<and> (\<not> cl_isListening (mx_heap m q) \<longrightarrow> pre = [])"
proof (induction ps arbitrary: m)
  case (Cons p ps)
  have "\<exists>pre. mx_heap (notify_client env msg p m) q = (mx_heap m q)\<lparr>cl_out := cl_out (mx_heap m q) @ pre\<rparr>
    \<and> (\<not> cl_isListening (mx_heap m q) \<longrightarrow> pre = [])"
    using told_out [of "me_plist env" "me_sock env" 0 msg "mx_heap m q"]
    by (auto simp: told_def intro: exI [of _ "[]"])
  then obtain pre where pre: "mx_heap (notify_client env msg p m) q = (mx_heap m q)\<lparr>cl_out := cl_out (mx_heap m q) @ pre\<rparr>"
    "\<not> cl_isListening (mx_heap m q) \<longrightarrow> pre = []" by blast
  from Cons [of "notify_client env msg p m"] obtain pre2 where
    "mx_heap (fold (notify_client env msg) (p # ps) m) q
      = (mx_heap m q)\<lparr>cl_out := cl_out (mx_heap m q) @ pre @ pre2\<rparr>"
    "\<not> cl_isListening (mx_heap m q) \<longrightarrow> pre2 = []"
    using pre by auto
  with pre(2) show ?case by (intro exI [of _ "pre @ pre2"]) auto
qed (auto intro: exI [of _ "[]"])

lemma client_out_same: "(c :: client)\<lparr>cl_out := cl_out c\<rparr> = c"
  by (cases c) simp

lemma notify_quiet:
  assumes "s' = s\<lparr>dm_mux := notify_device_paired env i (dm_mux s)\<rparr>"
  shows "quiet p s s'" and "cl_isListening (the_client q s') = cl_isListening (the_client q s)"
proof -
  have told: "\<exists>pre. the_client q s' = (the_client q s)\<lparr>cl_out := cl_out (the_client q s) @ pre\<rparr>
      \<and> (\<not> cl_isListening (the_client q s) \<longrightarrow> pre = [])" for q
    unfolding assms the_client_def notify_device_paired_def notify_listening_def
    using notify_fold_quiet by simp
  from told [of q] show "cl_isListening (the_client q s') = cl_isListening (the_client q s)" by auto
  have "the_client q s' = the_client q s" if "\<not> cl_isListening (the_client q s)" for q
    using told [of q] that client_out_same [of "the_client q s"] by auto
  moreover have "\<exists>pre. cl_out (the_client p s') = cl_out (the_client p s) @ pre
      \<and> (\<not> cl_isListening (the_client p s) \<longrightarrow> pre = [])"
    "cl_isListening (the_client p s') = cl_isListening (the_client p s)"
    using told [of p] by auto
  ultimately show "quiet p s s'" unfolding quiet_def by blast
qed

section \<open>Every request is answered\<close>

lemma quiet_reply:
  assumes "quiet p s s1" and "\<And>q. cl_isListening (the_client q s1) = cl_isListening (the_client q s)"
    and "reply_result env p tag code s1 = (Inr (), s')"
  shows "answered alone p tag s s'"
  using quiet_answered [OF assms(1), of alone tag s'] reply_result_answers [OF assms(3), of alone] assms(2)
  by blast

lemma same_heap_answered:
  assumes "mx_heap (dm_mux s1) = mx_heap (dm_mux s)" and "answered alone p tag s1 s'"
  shows "answered alone p tag s s'"
  using assms by (simp add: answered_def the_client_def)

lemma same_heap_reply:
  assumes "mx_heap (dm_mux s1) = mx_heap (dm_mux s)" and "reply_result env p tag code s1 = (Inr (), s')"
  shows "answered alone p tag s s'"
  using same_heap_answered [OF assms(1)] reply_result_answers [OF assms(2)] by blast

lemma same_heap_plist:
  assumes "mx_heap (dm_mux s1) = mx_heap (dm_mux s)"
    and "on_mux (on_client p (send_plist_pkt L sock tag rsp)) s1 = (Inr (), s')"
  shows "answered alone p tag s s'"
  using same_heap_answered [OF assms(1)] plist_step_answers [OF assms(2)] by blast

lemma alldevices_heap:
  "\<exists>ex. mx_heap (notify_alldevices env p m) = (mx_heap m)(p := (mx_heap m p)\<lparr>cl_out := cl_out (mx_heap m p) @ ex\<rparr>)"
proof -
  let ?tell = "\<lambda>d m. snd (on_client p (send_plist_pkt (me_plist env) (me_sock env) 0 (getDevicePlist env d)) m)"
  have step: "\<exists>ex. mx_heap (?tell d m) = (mx_heap m)(p := (mx_heap m p)\<lparr>cl_out := cl_out (mx_heap m p) @ ex\<rparr>)" for d m
    using told_out [of "me_plist env" "me_sock env" 0 "getDevicePlist env d" "mx_heap m p"]
    by (auto simp: on_client_frame fun_eq_iff)
  have "\<exists>ex. mx_heap (fold ?tell ds m) = (mx_heap m)(p := (mx_heap m p)\<lparr>cl_out := cl_out (mx_heap m p) @ ex\<rparr>)" for ds
  proof (induction ds arbitrary: m)
    case Nil
    show ?case by (intro exI [of _ "[]"]) (simp add: client_out_same)
  next
    case (Cons d ds)
    from step [of d m] obtain ex where "mx_heap (?tell d m) = (mx_heap m)(p := (mx_heap m p)\<lparr>cl_out := cl_out (mx_heap m p) @ ex\<rparr>)" ..
    moreover from Cons [of "?tell d m"] obtain ex2 where "mx_heap (fold ?tell ds (?tell d m))
        = (mx_heap (?tell d m))(p := (mx_heap (?tell d m) p)\<lparr>cl_out := cl_out (mx_heap (?tell d m) p) @ ex2\<rparr>)" ..
    ultimately show ?case by (intro exI [of _ "ex @ ex2"]) simp
  qed
  then show ?thesis
    by (cases "cl_isListening (mx_heap m p)")
      (auto simp: notify_alldevices_def client_out_same intro: exI [of _ "[]"])
qed

lemma listen_answers:
  assumes "listen_loc env p tag s = (Inr (), s')"
  shows "answered alone p tag s s' \<and> cl_isListening (the_client p s')"
proof -
  from assms obtain s1 where r: "reply_result env p tag (result_code RESULT_OK) s = (Inr (), s1)"
    and s': "dm_mux s' = notify_alldevices env p ((dm_mux s1)\<lparr>mx_heap :=
      (mx_heap (dm_mux s1))(p := (the_client p s1)\<lparr>cl_isListening := True\<rparr>)\<rparr>)"
    by (auto simp: listen_loc_def thenE_def split: prod.splits sum.splits)
  let ?m = "(dm_mux s1)\<lparr>mx_heap := (mx_heap (dm_mux s1))(p := (the_client p s1)\<lparr>cl_isListening := True\<rparr>)\<rparr>"
  from alldevices_heap [of env p ?m] obtain ex where
    h: "mx_heap (dm_mux s') = (mx_heap ?m)(p := (mx_heap ?m p)\<lparr>cl_out := cl_out (mx_heap ?m p) @ ex\<rparr>)"
    unfolding s' ..
  then have here: "cl_out (the_client p s') = cl_out (the_client p s1) @ ex" "cl_isListening (the_client p s')"
    and else: "\<forall>q. q \<noteq> p \<longrightarrow> the_client q s' = the_client q s1"
    by (simp_all add: the_client_def)
  from reply_result_answers [OF r, of alone] have a: "answered alone p tag s s1"
    "\<forall>q. q \<noteq> p \<longrightarrow> the_client q s1 = the_client q s" by blast+
  from a(1) obtain pre pkt rest where out: "cl_out (the_client p s1) = cl_out (the_client p s) @ pre @ pkt @ rest"
    "sizeof_usbmuxd_header \<le> length pkt" "uh_tag (decode_usbmuxd_header pkt) = tag"
    "alone \<and> \<not> cl_isListening (the_client p s) \<longrightarrow> pre = []"
    unfolding answered_def by blast
  have "cl_out (the_client p s') = cl_out (the_client p s) @ pre @ pkt @ (rest @ ex)"
    using here(1) out(1) by simp
  then have "answered alone p tag s s'"
    by (rule answeredI) (use here(2) out(2-4) else a(2) in auto)
  with here(2) show ?thesis by blast
qed

text \<open>
  \<open>connect_appends\<close> is what the code relies on of the devices' \<open>start_connect\<close>: it can only add to what the
  client is sent.
\<close>

definition connect_appends :: "'p mux_env \<Rightarrow> bool" where
  "connect_appends env \<longleftrightarrow> (\<forall>d port c. \<exists>ex.
     cl_out (snd (me_connect env d port c)) = cl_out c @ ex
     \<and> cl_isListening (snd (me_connect env d port c)) = cl_isListening c)"

lemma connect_answers:
  assumes "connection_loc env p tag device_id portnum s = (Inr (), s')" and "connect_appends env"
  shows "answered False p tag s s'"
proof -
  let ?s0 = "s\<lparr>dm_mux := (dm_mux s)\<lparr>mx_heap := (mx_heap (dm_mux s))(p := (the_client p s)\<lparr>cl_connectTag := tag\<rparr>)\<rparr>\<rparr>"
  from assms(1) obtain e s1 where c: "on_mux (mux_start_connect env (sint device_id) portnum p) ?s0 = (Inl e, s1)"
    and r: "reply_result env p tag (result_code RESULT_CONNREFUSED) s1 = (Inr (), s')"
    by (auto simp: connection_loc_def thenE_def split: prod.splits sum.splits if_splits)
  have "\<exists>ex c'. mx_heap (dm_mux s1) = (mx_heap (dm_mux s))(p := c')
      \<and> cl_out c' = cl_out (the_client p s) @ ex \<and> cl_isListening c' = cl_isListening (the_client p s)"
  proof (cases "find (\<lambda>d. dv_id d = sint device_id) (mx_devices (dm_mux s))")
    case None
    with c have "s1 = ?s0" by (auto simp: mux_start_connect_def elim!: on_mux_cases)
    then show ?thesis
      by (intro exI [of _ "[]"] exI [of _ "(the_client p s)\<lparr>cl_connectTag := tag\<rparr>"]) simp
  next
    case (Some d)
    let ?c = "(the_client p s)\<lparr>cl_connectTag := tag\<rparr>"
    from Some c have "mx_heap (dm_mux s1) = (mx_heap (dm_mux s))(p := snd (me_connect env d portnum ?c))"
      by (auto simp: mux_start_connect_def on_client_def the_client_def elim!: on_mux_cases
          split: prod.splits)
    moreover from assms(2) obtain ex where "cl_out (snd (me_connect env d portnum ?c)) = cl_out ?c @ ex"
      "cl_isListening (snd (me_connect env d portnum ?c)) = cl_isListening ?c"
      unfolding connect_appends_def by blast
    ultimately show ?thesis by auto
  qed
  then obtain ex where out: "cl_out (the_client p s1) = cl_out (the_client p s) @ ex"
    "cl_isListening (the_client p s1) = cl_isListening (the_client p s)"
    "\<And>q. q \<noteq> p \<Longrightarrow> the_client q s1 = the_client q s"
    by (auto simp: the_client_def)
  from reply_result_answers [OF r, of False] obtain pre pkt rest where
    "cl_out (the_client p s') = cl_out (the_client p s) @ (ex @ pre) @ pkt @ rest"
    "sizeof_usbmuxd_header \<le> length pkt" "uh_tag (decode_usbmuxd_header pkt) = tag"
    "\<not> cl_isListening (the_client p s') \<longrightarrow> rest = []"
    "\<forall>q. q \<noteq> p \<longrightarrow> the_client q s' = the_client q s"
    using out unfolding answered_def by force
  then show ?thesis
    by (intro answeredI [of p s' s "ex @ pre" pkt rest]) (use out in auto)
qed

lemma answered_weaken: "answered True p tag s s' \<Longrightarrow> answered alone p tag s s'"
  unfolding answered_def by blast

lemma on_conf_cases:
  assumes "on_conf f s = (r, s')"
  obtains c where "f (dm_conf s) = (r, c)" and "s' = s\<lparr>dm_conf := c\<rparr>"
  using assms by (auto simp: on_conf_def split: prod.splits)

lemma save_answers:
  assumes "cmd_save_pair_record env p tag req s = (Inr (), s')"
  shows "answered alone p tag s s'"
proof (cases "request_string (me_plist env) req ''PairRecordID'' = None
    \<or> plist_dict_get (me_plist env) req ''PairRecordData'' = None")
  case True
  with assms have "reply_result env p tag EINVAL s = (Inr (), s')"
    by (auto simp: cmd_save_pair_record_def Let_def split: option.splits)
  then show ?thesis using reply_result_answers by blast
next
  case False
  let ?n = "case request_uint (me_plist env) req ''DeviceID'' of None \<Rightarrow> (\<lambda>m. m)
      | Some intval \<Rightarrow> notify_device_paired env (sint (ucast intval :: u32))"
  from False assms obtain record_id r s1 where
    c: "on_conf (sysconf_set_device_record (me_plist env) record_id r) s = (Inr (), s1)"
    and rep: "reply_result env p tag (result_code RESULT_OK)
      (s1\<lparr>dm_mux := trigger_wifi_rediscovery_after_pairing record_id (?n (dm_mux s1))\<rparr>) = (Inr (), s')"
    by (auto simp: cmd_save_pair_record_def thenE_def Let_def split: prod.splits sum.splits option.splits)
  let ?s2 = "s1\<lparr>dm_mux := ?n (dm_mux s1)\<rparr>"
  have m: "dm_mux s1 = dm_mux s" by (rule on_conf_mux [OF c])
  have q: "quiet p s ?s2 \<and> (\<forall>q. cl_isListening (the_client q ?s2) = cl_isListening (the_client q s))"
  proof (cases "request_uint (me_plist env) req ''DeviceID''")
    case None
    then show ?thesis by (simp add: quiet_same m the_client_def)
  next
    case (Some i)
    note notify_quiet [OF refl, where s = s1 and env = env and i = "sint (ucast i :: u32)"]
    then show ?thesis using Some by (auto simp: quiet_def the_client_def m)
  qed
  moreover have "mx_heap (trigger_wifi_rediscovery_after_pairing u m) = mx_heap m" for u m
    by (simp add: trigger_wifi_rediscovery_after_pairing_def call_def)
  ultimately have "quiet p s (s1\<lparr>dm_mux := trigger_wifi_rediscovery_after_pairing record_id (?n (dm_mux s1))\<rparr>)"
    "\<forall>q. cl_isListening (the_client q (s1\<lparr>dm_mux := trigger_wifi_rediscovery_after_pairing record_id (?n (dm_mux s1))\<rparr>))
       = cl_isListening (the_client q s)"
    by (simp_all add: quiet_def the_client_def)
  with quiet_reply [OF _ _ rep] show ?thesis by blast
qed

lemma reconnect_heap: "mx_heap (reconnect_wifi_sessions_now m) = mx_heap m"
proof -
  have "mx_heap (fold (\<lambda>d. if dv_conntype d \<noteq> MUXCONN_WIFI then (\<lambda>m. m)
      else call (Session_reconnect (dv_ptr d))) ds m) = mx_heap m" for ds
    by (induction ds arbitrary: m) (auto simp: call_def)
  then show ?thesis by (simp add: reconnect_wifi_sessions_now_def)
qed

lemma wifi_heap:
  "mx_heap (refresh_wifi_discovery m) = mx_heap m"
  "mx_heap (cleanup_wifi_device_after_unpair u m) = mx_heap m"
  by (auto simp: refresh_wifi_discovery_def cleanup_wifi_device_after_unpair_def call_def split: option.splits)

lemma record_answers:
  assumes "cmd_read_buid env rnd p tag s = (Inr (), s') \<or> cmd_read_pair_record env p tag req s = (Inr (), s')
    \<or> cmd_delete_pair_record env p tag req s = (Inr (), s') \<or> cmd_refresh_wifi env p tag s = (Inr (), s')"
  shows "answered alone p tag s s'"
  using assms
proof (elim disjE)
  assume "cmd_read_buid env rnd p tag s = (Inr (), s')"
  then show ?thesis
    by (auto simp: cmd_read_buid_def reply_plist_def Let_def elim!: thenE_cases on_conf_cases
        intro: same_heap_plist [rotated])
next
  assume "cmd_read_pair_record env p tag req s = (Inr (), s')"
  then show ?thesis
    by (auto simp: cmd_read_pair_record_def reply_plist_def Let_def elim!: on_conf_cases
        split: option.splits prod.splits sum.splits if_splits
        intro: same_heap_plist [rotated] same_heap_reply [rotated] dest: on_conf_mux)
next
  assume del: "cmd_delete_pair_record env p tag req s = (Inr (), s')"
  show ?thesis
  proof (cases "request_string (me_plist env) req ''PairRecordID''")
    case None
    with del show ?thesis
      by (auto simp: cmd_delete_pair_record_def dest: reply_result_answers)
  next
    case (Some u)
    with del obtain c where "reply_result env p tag (result_code RESULT_OK)
        (s\<lparr>dm_conf := c, dm_mux := cleanup_wifi_device_after_unpair u (dm_mux s)\<rparr>) = (Inr (), s')"
      by (auto simp: cmd_delete_pair_record_def Let_def elim!: thenE_cases on_conf_cases)
    then show ?thesis by (rule same_heap_reply [rotated]) (simp add: wifi_heap)
  qed
next
  assume "cmd_refresh_wifi env p tag s = (Inr (), s')"
  then show ?thesis
    by (auto simp: cmd_refresh_wifi_def reconnect_heap wifi_heap elim!: thenE_cases
        intro: same_heap_reply [rotated])
qed

lemma list_answers:
  assumes "on_mux (send_deviceList env p tag) s = (Inr (), s')
    \<or> on_mux (send_listenerList env p tag) s = (Inr (), s')"
  shows "answered alone p tag s s'"
  using assms
proof (elim disjE)
  assume "on_mux (send_deviceList env p tag) s = (Inr (), s')"
  then have "on_mux (on_client p (send_plist_pkt (me_plist env) (me_sock env) tag (device_list env (dm_mux s)))) s
      = (Inr (), s')" by (simp add: on_mux_def send_deviceList_def)
  then show ?thesis by (rule same_heap_plist [OF refl])
next
  assume "on_mux (send_listenerList env p tag) s = (Inr (), s')"
  then obtain arr where "on_mux (on_client p (send_plist_pkt (me_plist env) (me_sock env) tag arr)) s = (Inr (), s')"
    by (auto simp: on_mux_def send_listenerList_def Let_def split: sum.splits)
  then show ?thesis by (rule same_heap_plist [OF refl])
qed

lemma plist_command_answers:
  assumes "plist_command env rnd p tag req message s = (Inr (), s')" and "connect_appends env"
  shows "answered (message \<noteq> ''Connect'') p tag s s'"
proof (cases "message = ''Connect''")
  case True
  with assms show ?thesis
    by (auto simp: plist_command_def cmd_connect_def split: option.splits
        intro: connect_answers answered_weaken dest: reply_result_answers)
next
  case False
  with assms(1) show ?thesis
    unfolding plist_command_def
    by (auto split: if_splits simp del: not_Cons_self2
        intro: record_answers save_answers list_answers dest: listen_answers reply_result_answers)
qed

definition asks_connect :: "'p plist_lib \<Rightarrow> client \<Rightarrow> bool" where
  "asks_connect L c \<longleftrightarrow> uh_message (client_hdr c) = msgtype_code MESSAGE_CONNECT
     \<or> (case plist_request L c of None \<Rightarrow> False | Some req \<Rightarrow> request_string L req ''MessageType'' = Some ''Connect'')"

lemma update_client_info_frame [simp]:
  "cl_out (update_client_info L req c) = cl_out c"
  "cl_isListening (update_client_info L req c) = cl_isListening c"
  "cl_proto_version (update_client_info L req c) = cl_proto_version c"
  "cl_mem (update_client_info L req c) = cl_mem c"
  "cl_fd (update_client_info L req c) = cl_fd c"
  by (simp_all add: update_client_info_def Let_def)

text \<open>The state in which a plist command runs.\<close>

definition introduced :: "'p plist_lib \<Rightarrow> 'p \<Rightarrow> nat \<Rightarrow> daemon \<Rightarrow> daemon" where
  "introduced L req p s = s\<lparr>dm_mux := (dm_mux s)\<lparr>mx_heap := (mx_heap (dm_mux s))(p :=
     update_client_info L req ((the_client p s)\<lparr>cl_proto_version := 1\<rparr>))\<rparr>\<rparr>"

lemma introduced_client [simp]:
  "the_client q (introduced L req p s) =
     (if q = p then update_client_info L req ((the_client p s)\<lparr>cl_proto_version := 1\<rparr>) else the_client q s)"
  "dm_conf (introduced L req p s) = dm_conf s"
  by (simp_all add: introduced_def the_client_def)

lemma introduced_answered:
  assumes "answered alone p tag (introduced L req p s) s'"
  shows "answered alone p tag s s'"
proof -
  from assms obtain pre pkt rest where
    "cl_out (the_client p s') = cl_out (the_client p s) @ pre @ pkt @ rest"
    "sizeof_usbmuxd_header \<le> length pkt" "uh_tag (decode_usbmuxd_header pkt) = tag"
    "alone \<and> \<not> cl_isListening (the_client p s) \<longrightarrow> pre = []"
    "\<not> cl_isListening (the_client p s') \<longrightarrow> rest = []"
    "\<forall>q. q \<noteq> p \<and> \<not> cl_isListening (the_client q s) \<longrightarrow> the_client q s' = the_client q s"
    unfolding answered_def by auto
  then show ?thesis by (intro answeredI) auto
qed

text \<open>What a client's buffer asks for, where it holds a complete plist message.\<close>

definition plist_message :: "'p plist_lib \<Rightarrow> client \<Rightarrow> ('p \<times> string) option" where
  "plist_message L c =
     (if uh_version (client_hdr c) \<in> {0, 1} \<and> uh_message (client_hdr c) = msgtype_code MESSAGE_PLIST
         \<and> sizeof_usbmuxd_header \<le> unat (uh_length (client_hdr c))
      then (case plist_request L c of
              None \<Rightarrow> None
            | Some req \<Rightarrow> map_option (\<lambda>m. (req, m)) (request_string L req ''MessageType''))
      else None)"

lemma processData_plist:
  assumes "plist_message (me_plist env) (the_client p s) = Some (req, message)"
  shows "processData env rnd p s = plist_command env rnd p (uh_tag (client_hdr (the_client p s))) req message
    (introduced (me_plist env) req p s)"
  using assms
  by (auto simp: plist_message_def processData_def process_plist_def Let_def introduced_def the_client_def
      thenE_def split: if_splits option.splits)

text \<open>The ways a message is processed.\<close>

lemma processData_cases:
  assumes "processData env rnd p s = (r, s')"
  obtains (version) "uh_version (client_hdr (the_client p s)) \<notin> {0, 1}"
      "reply_result env p (uh_tag (client_hdr (the_client p s))) (result_code RESULT_BADVERSION) s = (r, s')"
    | (plist) req message where
      "plist_message (me_plist env) (the_client p s) = Some (req, message)"
      "plist_command env rnd p (uh_tag (client_hdr (the_client p s))) req message
         (introduced (me_plist env) req p s) = (r, s')"
    | (refused) e where "uh_message (client_hdr (the_client p s)) = msgtype_code MESSAGE_PLIST" "r = Inl e"
      "s' = snd (upd_client p (\<lambda>c. c\<lparr>cl_proto_version := 1\<rparr>) s)"
    | (listen) "listen_loc env p (uh_tag (client_hdr (the_client p s))) s = (r, s')"
    | (connect) i w where "uh_message (client_hdr (the_client p s)) = msgtype_code MESSAGE_CONNECT"
      "connection_loc env p (uh_tag (client_hdr (the_client p s))) i w s = (r, s')"
    | (unknown) "reply_result env p (uh_tag (client_hdr (the_client p s))) (result_code RESULT_BADCOMMAND) s = (r, s')"
proof -
  let ?c = "the_client p s"
  consider "uh_version (client_hdr ?c) \<notin> {0, 1}"
    | "uh_version (client_hdr ?c) \<in> {0, 1}" "uh_message (client_hdr ?c) = msgtype_code MESSAGE_PLIST"
    | "uh_version (client_hdr ?c) \<in> {0, 1}" "uh_message (client_hdr ?c) \<noteq> msgtype_code MESSAGE_PLIST" by blast
  then show thesis
  proof cases
    case 1
    with assms show thesis by (intro version) (auto simp: processData_def Let_def)
  next
    case 2
    show thesis
    proof (cases "plist_message (me_plist env) ?c")
      case (Some rm)
      obtain req m where "rm = (req, m)" by (metis prod.exhaust)
      with Some processData_plist [of env p s req m rnd] assms show thesis
        by (intro plist [of req m]) auto
    next
      case None
      with 2 assms show thesis
        by (auto simp: plist_message_def processData_def process_plist_def Let_def
            split: if_splits option.splits intro!: refused)
    qed
  next
    case 3
    with assms show thesis
      by (auto simp: processData_def Let_def split: if_splits intro: listen connect unknown)
  qed
qed


section \<open>What a request cannot change\<close>

definition same_sets :: "daemon \<Rightarrow> daemon \<Rightarrow> bool" where
  "same_sets s s' \<longleftrightarrow> mx_devices (dm_mux s') = mx_devices (dm_mux s)
     \<and> mx_clients (dm_mux s') = mx_clients (dm_mux s) \<and> mx_newid (dm_mux s') = mx_newid (dm_mux s)"

lemma same_sets_refl [simp]: "same_sets s s"
  by (simp add: same_sets_def)

lemma same_sets_trans: "same_sets s s1 \<Longrightarrow> same_sets s1 s2 \<Longrightarrow> same_sets s s2"
  by (simp add: same_sets_def)

lemma same_sets_mux:
  "mx_devices m = mx_devices (dm_mux s) \<Longrightarrow> mx_clients m = mx_clients (dm_mux s)
   \<Longrightarrow> mx_newid m = mx_newid (dm_mux s) \<Longrightarrow> same_sets s (s\<lparr>dm_mux := m\<rparr>)"
  by (simp add: same_sets_def)

lemma on_client_sets: "on_mux (on_client p f) s = (r, s') \<Longrightarrow> same_sets s s'"
  by (auto simp: same_sets_def elim!: on_mux_client_cases)

lemma on_conf_sets: "on_conf f s = (r, s') \<Longrightarrow> same_sets s s'"
  by (simp add: same_sets_def on_conf_mux)

lemma notify_fold_sets:
  "mx_devices (fold (notify_client env msg) ps m) = mx_devices m
   \<and> mx_clients (fold (notify_client env msg) ps m) = mx_clients m
   \<and> mx_newid (fold (notify_client env msg) ps m) = mx_newid m"
  by (induction ps arbitrary: m) auto

lemma notify_sets:
  "mx_devices (notify_device_paired env i m) = mx_devices m"
  "mx_clients (notify_device_paired env i m) = mx_clients m"
  "mx_newid (notify_device_paired env i m) = mx_newid m"
  by (simp_all add: notify_device_paired_def notify_listening_def notify_fold_sets)

lemma alldevices_sets:
  "mx_devices (notify_alldevices env p m) = mx_devices m"
  "mx_clients (notify_alldevices env p m) = mx_clients m"
  "mx_newid (notify_alldevices env p m) = mx_newid m"
proof -
  let ?tell = "\<lambda>d m. snd (on_client p (send_plist_pkt (me_plist env) (me_sock env) 0 (getDevicePlist env d)) m)"
  have "mx_devices (fold ?tell ds m) = mx_devices m \<and> mx_clients (fold ?tell ds m) = mx_clients m
      \<and> mx_newid (fold ?tell ds m) = mx_newid m" for ds
    by (induction ds arbitrary: m) (auto simp: on_client_frame)
  then show "mx_devices (notify_alldevices env p m) = mx_devices m"
    "mx_clients (notify_alldevices env p m) = mx_clients m"
    "mx_newid (notify_alldevices env p m) = mx_newid m"
    by (simp_all add: notify_alldevices_def)
qed

lemma wifi_sets:
  "mx_devices (refresh_wifi_discovery m) = mx_devices m"
  "mx_clients (refresh_wifi_discovery m) = mx_clients m"
  "mx_newid (refresh_wifi_discovery m) = mx_newid m"
  "mx_devices (cleanup_wifi_device_after_unpair u m) = mx_devices m"
  "mx_clients (cleanup_wifi_device_after_unpair u m) = mx_clients m"
  "mx_newid (cleanup_wifi_device_after_unpair u m) = mx_newid m"
  "mx_devices (trigger_wifi_rediscovery_after_pairing u m) = mx_devices m"
  "mx_clients (trigger_wifi_rediscovery_after_pairing u m) = mx_clients m"
  "mx_newid (trigger_wifi_rediscovery_after_pairing u m) = mx_newid m"
  by (auto simp: refresh_wifi_discovery_def cleanup_wifi_device_after_unpair_def call_def
      trigger_wifi_rediscovery_after_pairing_def split: option.splits)

lemma reconnect_fold_sets:
  "mx_devices (fold (\<lambda>d. if dv_conntype d \<noteq> MUXCONN_WIFI then (\<lambda>m. m)
     else call (Session_reconnect (dv_ptr d))) ds m) = mx_devices m"
  "mx_clients (fold (\<lambda>d. if dv_conntype d \<noteq> MUXCONN_WIFI then (\<lambda>m. m)
     else call (Session_reconnect (dv_ptr d))) ds m) = mx_clients m"
  "mx_newid (fold (\<lambda>d. if dv_conntype d \<noteq> MUXCONN_WIFI then (\<lambda>m. m)
     else call (Session_reconnect (dv_ptr d))) ds m) = mx_newid m"
  by (induction ds arbitrary: m) (simp_all add: call_def)

lemma reconnect_sets:
  "mx_devices (reconnect_wifi_sessions_now m) = mx_devices m"
  "mx_clients (reconnect_wifi_sessions_now m) = mx_clients m"
  "mx_newid (reconnect_wifi_sessions_now m) = mx_newid m"
  by (simp_all only: reconnect_wifi_sessions_now_def reconnect_fold_sets)

lemmas mux_sets = notify_sets alldevices_sets wifi_sets reconnect_sets

lemma thenE_sets:
  assumes "thenE m k s = (r, s')" and "\<And>r s1. m s = (r, s1) \<Longrightarrow> same_sets s s1"
    and "\<And>x s1 r. m s = (Inr x, s1) \<Longrightarrow> k x s1 = (r, s') \<Longrightarrow> same_sets s1 s'"
  shows "same_sets s s'"
  using assms(1)
proof (cases rule: thenE_cases)
  case (step x s1)
  then show ?thesis using assms(2,3) same_sets_trans by blast
qed (use assms(2) in blast)

lemma reply_sets: "reply_result env p tag code s = (r, s') \<Longrightarrow> same_sets s s'"
  unfolding reply_result_def by (rule on_client_sets)

lemma reply_plist_sets: "reply_plist env p tag rsp s = (r, s') \<Longrightarrow> same_sets s s'"
  unfolding reply_plist_def by (rule on_client_sets)

lemma modE_sets:
  "on_mux (modE f) s = (r, s') \<Longrightarrow> mx_devices (f (dm_mux s)) = mx_devices (dm_mux s)
   \<Longrightarrow> mx_clients (f (dm_mux s)) = mx_clients (dm_mux s) \<Longrightarrow> mx_newid (f (dm_mux s)) = mx_newid (dm_mux s)
   \<Longrightarrow> same_sets s s'"
  by (auto simp: same_sets_def)

lemma listen_sets: "listen_loc env p tag s = (r, s') \<Longrightarrow> same_sets s s'"
  unfolding listen_loc_def upd_client_def
  by (elim thenE_sets) (auto intro: reply_sets on_client_sets modE_sets simp: mux_sets)

lemma connection_sets:
  assumes "connection_loc env p tag i w s = (r, s')" shows "same_sets s s'"
proof -
  let ?run = "thenE (upd_client p (\<lambda>c. c\<lparr>cl_connectTag := tag\<rparr>)) (\<lambda>_. on_mux (mux_start_connect env (sint i) w p))"
  obtain r1 s1 where run: "?run s = (r1, s1)" by (metis prod.exhaust)
  have "same_sets s s1"
    using run unfolding upd_client_def
  proof (rule thenE_sets)
    fix x r s2 assume "on_mux (mux_start_connect env (sint i) w p) s2 = (r, s1)"
    then show "same_sets s2 s1"
      by (auto simp: mux_start_connect_def same_sets_def on_client_def split: option.splits prod.splits
          elim!: on_mux_cases)
  qed (auto intro: on_client_sets)
  moreover have "s1 = s' \<or> reply_result env p tag (result_code RESULT_CONNREFUSED) s1 = (r, s')"
    using assms run by (auto simp: connection_loc_def split: sum.splits if_splits)
  ultimately show ?thesis using reply_sets same_sets_trans by blast
qed

lemma record_sets:
  "cmd_read_buid env rnd p tag s = (r, s') \<Longrightarrow> same_sets s s'"
  "cmd_read_pair_record env p tag req s = (r, s') \<Longrightarrow> same_sets s s'"
  "cmd_delete_pair_record env p tag req s = (r, s') \<Longrightarrow> same_sets s s'"
  "cmd_refresh_wifi env p tag s = (r, s') \<Longrightarrow> same_sets s s'"
proof -
  show "cmd_read_buid env rnd p tag s = (r, s') \<Longrightarrow> same_sets s s'"
    unfolding cmd_read_buid_def Let_def
    by (elim thenE_sets) (auto intro: on_conf_sets reply_plist_sets)
  show "cmd_read_pair_record env p tag req s = (r, s') \<Longrightarrow> same_sets s s'"
    by (auto simp: cmd_read_pair_record_def Let_def
        split: option.splits prod.splits sum.splits if_splits
        intro: reply_sets same_sets_trans [OF on_conf_sets reply_sets]
          same_sets_trans [OF on_conf_sets reply_plist_sets] on_conf_sets)
  show "cmd_delete_pair_record env p tag req s = (r, s') \<Longrightarrow> same_sets s s'"
    unfolding cmd_delete_pair_record_def Let_def
    by (auto split: option.splits elim!: thenE_sets intro: on_conf_sets reply_sets modE_sets simp: mux_sets)
  show "cmd_refresh_wifi env p tag s = (r, s') \<Longrightarrow> same_sets s s'"
    unfolding cmd_refresh_wifi_def
    by (elim thenE_sets) (auto intro: reply_sets modE_sets simp: mux_sets)
qed

lemma save_sets: "cmd_save_pair_record env p tag req s = (r, s') \<Longrightarrow> same_sets s s'"
  unfolding cmd_save_pair_record_def Let_def
  by (auto split: option.splits elim!: thenE_sets intro: on_conf_sets reply_sets modE_sets simp: mux_sets)

lemma list_sets:
  "on_mux (send_deviceList env p tag) s = (r, s') \<Longrightarrow> same_sets s s'"
  "on_mux (send_listenerList env p tag) s = (r, s') \<Longrightarrow> same_sets s s'"
  by (auto simp: same_sets_def send_deviceList_def send_listenerList_def Let_def on_client_def
      split: prod.splits sum.splits elim!: on_mux_cases)

lemma plist_command_sets:
  assumes "plist_command env rnd p tag req message s = (r, s')"
  shows "same_sets s s'"
  using assms unfolding plist_command_def cmd_connect_def
  by (auto split: if_splits option.splits
      intro: listen_sets connection_sets record_sets save_sets list_sets reply_sets)

lemma introduced_sets: "same_sets s (introduced L req p s)"
  by (simp add: same_sets_def introduced_def)

lemma processData_sets:
  assumes "processData env rnd p s = (r, s')" shows "same_sets s s'"
  using assms
proof (cases rule: processData_cases)
  case (plist req message)
  show ?thesis
    by (rule same_sets_trans [OF introduced_sets plist_command_sets [OF plist(2)]])
next
  case (refused e)
  then show ?thesis by (simp add: same_sets_def)
qed (auto intro: reply_sets listen_sets connection_sets)

text \<open>
  Requests do not touch the sets of the muxer. Whatever a client asks for and however it ends, the
  devices with their identifiers, the counter and the set of clients are as before: only devices that
  come and go and clients that connect and leave change them.
\<close>

theorem request_keeps_sets:
  "mx_devices (dm_mux (snd (processData env rnd p s))) = mx_devices (dm_mux s)
   \<and> mx_clients (dm_mux (snd (processData env rnd p s))) = mx_clients (dm_mux s)
   \<and> mx_newid (dm_mux (snd (processData env rnd p s))) = mx_newid (dm_mux s)"
  using processData_sets [of env rnd p s] unfolding same_sets_def by (metis prod.exhaust snd_conv)

lemma loopEvent_sets: "client_loopEvent env rnd p gots s = (r, s') \<Longrightarrow> same_sets s s'"
  unfolding client_loopEvent_def
  by (elim thenE_sets) (auto intro: on_client_sets processData_sets elim!: thenE_sets split: if_splits)

text \<open>
  A client's thread that ends takes the client, and no other, out of the muxer's set, so that no
  notification is sent to it any more; as long as the thread runs the set stays as it is.
\<close>

theorem thread_end_removes_client:
  "mx_clients (dm_mux (snd (client_thread env rnd p turns s))) =
    (case fst (client_thread env rnd p turns s) of
       Waiting \<Rightarrow> mx_clients (dm_mux s) | Ended x \<Rightarrow> removeAll p (mx_clients (dm_mux s)))"
proof (induction env rnd p turns s rule: client_thread.induct)
  case (1 env rnd p s)
  then show ?case by simp
next
  case (2 env rnd p gots turns s)
  obtain r s1 where run: "client_loopEvent env rnd p gots s = (r, s1)" by (metis prod.exhaust)
  then have same: "mx_clients (dm_mux s1) = mx_clients (dm_mux s)"
    using loopEvent_sets [OF run] by (simp add: same_sets_def)
  show ?case
  proof (cases r)
    case (Inl x)
    with run same show ?thesis
      by (auto simp: client_afterLoop_def delete_client_def call_def)
  next
    case (Inr finished)
    with run 2 same show ?thesis by (auto split: if_splits thread_end.splits)
  qed
qed

section \<open>Pairing records\<close>

lemma save_pair_record_conf:
  assumes "cmd_save_pair_record env p tag req s = (Inr (), s')"
    and "request_string (me_plist env) req ''PairRecordID'' = Some u"
    and "plist_dict_get (me_plist env) req ''PairRecordData'' = Some n"
    and "plist_get_data (me_plist env) n = Some blob"
    and "plist_from_memory (me_plist env) blob = Some rec"
  shows "sysconf_set_device_record (me_plist env) u rec (dm_conf s) = (Inr (), dm_conf s')"
proof -
  have keep: "on_mux f s1 = (r, s2) \<Longrightarrow> dm_conf s2 = dm_conf s1" for f :: "(muxer, unit) act" and r s1 s2
    by (auto elim!: on_mux_cases)
  show ?thesis
    using assms
    by (auto simp: cmd_save_pair_record_def Let_def reply_result_def
        elim!: thenE_cases on_conf_cases dest!: keep)
qed

lemma read_pair_record_run:
  assumes "fst (sysconf_get_device_record (me_plist env) u (dm_conf s)) = Inr rec"
    and "request_string (me_plist env) req ''PairRecordID'' = Some u"
    and "cmd_read_pair_record env q tag req s = (r, s')"
  shows "(r, the_client q s') = send_plist_pkt (me_plist env) (me_sock env) tag
      (plist_dict_set (me_plist env) (plist_new_dict (me_plist env)) ''PairRecordData''
        (plist_new_data (me_plist env) (plist_to_bin (me_plist env) rec))) (the_client q s)"
proof -
  obtain c where "sysconf_get_device_record (me_plist env) u (dm_conf s) = (Inr rec, c)"
    using assms(1) by (metis run_ok)
  with assms(2,3) show ?thesis
    by (auto simp: cmd_read_pair_record_def Let_def on_conf_def reply_plist_def the_client_def
        elim!: on_mux_client_cases split: prod.splits)
qed

text \<open>
  C22: pairing records through the protocol. A record a client saved is what any client gets that asks
  for it later, however the muxer has changed in between, as long as the store has not: the answer is
  one packet with a dictionary whose \<open>PairRecordData\<close> is the binary form of the record.
\<close>

theorem save_then_read_pair_record:
  assumes "plist_laws L" and "me_plist env = L"
    and "plist_message L (the_client p s) = Some (req, ''SavePairRecord'')"
    and "request_string L req ''PairRecordID'' = Some u"
    and "plist_dict_get L req ''PairRecordData'' = Some n" and "plist_get_data L n = Some blob"
    and "plist_from_memory L blob = Some rec"
    and "processData env rnd p s = (Inr (), s1)"
    and "dm_conf s2 = dm_conf s1"
    and "plist_message L (the_client q s2) = Some (req2, ''ReadPairRecord'')"
    and "request_string L req2 ''PairRecordID'' = Some u"
    and "processData env rnd2 q s2 = (r, s3)"
  shows "(r, the_client q s3) = send_plist_pkt L (me_sock env) (uh_tag (client_hdr (the_client q s2)))
      (plist_dict_set L (plist_new_dict L) ''PairRecordData'' (plist_new_data L (plist_to_bin L rec)))
      (update_client_info L req2 ((the_client q s2)\<lparr>cl_proto_version := 1\<rparr>))"
proof -
  have "cmd_save_pair_record env p (uh_tag (client_hdr (the_client p s))) req (introduced L req p s) = (Inr (), s1)"
    using processData_plist [of env p s req] assms(2,3,8) by (simp add: plist_command_def)
  from save_pair_record_conf [OF this] assms(2,4-7)
  have "sysconf_set_device_record L u rec (dm_conf s) = (Inr (), dm_conf s1)" by simp
  from set_device_record_files [OF this] plist_lawsD(8) [OF assms(1)]
  have "fst (sysconf_get_device_record L u (dm_conf (introduced L req2 q s2))) = Inr rec"
    by (simp add: fst_get_device_record readPlist_def sysconf_get_config_dir_def update_conv' assms(9))
  moreover have "cmd_read_pair_record env q (uh_tag (client_hdr (the_client q s2))) req2 (introduced L req2 q s2)
      = (r, s3)"
    using processData_plist [of env q s2 req2] assms(2,10,12) by (simp add: plist_command_def)
  ultimately show ?thesis
    using read_pair_record_run [of env u "introduced L req2 q s2" rec req2] assms(2,11) by simp
qed

text \<open>
  After a deletion a record is gone: whoever asks for it, as long as nobody saved it again, is told
  that there is no such entry.
\<close>

theorem delete_then_read_pair_record:
  assumes "me_plist env = L"
    and "plist_message L (the_client p s) = Some (req, ''DeletePairRecord'')"
    and "request_string L req ''PairRecordID'' = Some u"
    and "processData env rnd p s = (Inr (), s1)"
    and "dm_conf s2 = dm_conf s1"
    and "plist_message L (the_client q s2) = Some (req2, ''ReadPairRecord'')"
    and "request_string L req2 ''PairRecordID'' = Some u"
    and "processData env rnd2 q s2 = (r, s3)"
  shows "(r, the_client q s3) = send_result L (me_sock env) (uh_tag (client_hdr (the_client q s2))) ENOENT
      (update_client_info L req2 ((the_client q s2)\<lparr>cl_proto_version := 1\<rparr>))"
proof -
  let ?s = "introduced L req p s" and ?s2 = "introduced L req2 q s2"
  have keep: "on_mux f t = (r, t') \<Longrightarrow> dm_conf t' = dm_conf t" for f :: "(muxer, unit) act" and r t t'
    by (auto elim!: on_mux_cases)
  have "cmd_delete_pair_record env p (uh_tag (client_hdr (the_client p s))) req ?s = (Inr (), s1)"
    using processData_plist [of env p s req] assms(1,2,4) by (simp add: plist_command_def)
  with assms(1,3) have del: "sysconf_remove_device_record L u (dm_conf s) = (Inr (), dm_conf s1)"
    by (auto simp: cmd_delete_pair_record_def Let_def reply_result_def
        elim!: thenE_cases on_conf_cases dest!: keep)
  let ?path = "record_path (sysconf_get_config_dir (dm_conf s)) u"
  from del have "sc_files (dm_conf s1) = AList.delete ?path (sc_files (dm_conf s))
      \<and> sc_config_env (dm_conf s1) = sc_config_env (dm_conf s)"
    by (auto simp: sysconf_remove_device_record_def get_device_record_path_def
        elim!: thenE_cases dest!: load_macs_frame split: if_splits)
  then have "fst (sysconf_get_device_record L u (dm_conf ?s2)) = Inl Record_not_found"
    by (simp add: fst_get_device_record readPlist_def sysconf_get_config_dir_def assms(5) delete_conv')
  then obtain c where none: "sysconf_get_device_record L u (dm_conf ?s2) = (Inl Record_not_found, c)"
    by (metis run_fails)
  have "cmd_read_pair_record env q (uh_tag (client_hdr (the_client q s2))) req2 ?s2 = (r, s3)"
    using processData_plist [of env q s2 req2] assms(1,6,8) by (simp add: plist_command_def)
  with none assms(1,7) have "reply_result env q (uh_tag (client_hdr (the_client q s2))) ENOENT
      (?s2\<lparr>dm_conf := c\<rparr>) = (r, s3)"
    by (auto simp: cmd_read_pair_record_def Let_def on_conf_def)
  then show ?thesis
    using assms(1) unfolding reply_result_def
    by (auto elim!: on_mux_client_cases simp: the_client_def introduced_def)
qed

section \<open>Listening\<close>

text \<open>The packet \<open>send_plist_pkt\<close> sends.\<close>

definition plist_packet :: "'p plist_lib \<Rightarrow> u32 \<Rightarrow> u32 \<Rightarrow> 'p \<Rightarrow> bytes" where
  "plist_packet L version tag p = encode_usbmuxd_header
     \<lparr>uh_length = of_nat (sizeof_usbmuxd_header + length (plist_to_xml L p)), uh_version = version,
      uh_message = msgtype_code MESSAGE_PLIST, uh_tag = tag\<rparr> @ plist_to_xml L p"

definition sock_takes_all :: "socket \<Rightarrow> bool" where
  "sock_takes_all sock \<longleftrightarrow> (\<forall>fd taken data. sock fd taken data = int (length data))"

lemma send_plist_pkt_all:
  "sock_takes_all sock \<Longrightarrow> send_plist_pkt L sock tag p c =
     (Inr (), c\<lparr>cl_out := cl_out c @ plist_packet L (cl_proto_version c) tag p\<rparr>)"
  by (simp add: send_plist_pkt_def send_pkt_def writeData_def sock_send_def sock_takes_all_def
      plist_packet_def Let_def)

lemma alldevices_all:
  assumes "sock_takes_all (me_sock env)" and "cl_isListening (mx_heap m p)"
  shows "mx_heap (notify_alldevices env p m) = (mx_heap m)(p := (mx_heap m p)\<lparr>cl_out := cl_out (mx_heap m p)
    @ concat (map (\<lambda>d. plist_packet (me_plist env) (cl_proto_version (mx_heap m p)) 0 (getDevicePlist env d))
        (mx_devices m))\<rparr>)"
proof -
  let ?tell = "\<lambda>d m. snd (on_client p (send_plist_pkt (me_plist env) (me_sock env) 0 (getDevicePlist env d)) m)"
  have "mx_heap (fold ?tell ds m) = (mx_heap m)(p := (mx_heap m p)\<lparr>cl_out := cl_out (mx_heap m p)
    @ concat (map (\<lambda>d. plist_packet (me_plist env) (cl_proto_version (mx_heap m p)) 0 (getDevicePlist env d)) ds)\<rparr>)" for ds
  proof (induction ds arbitrary: m)
    case Nil
    show ?case by (simp add: client_out_same)
  next
    case (Cons d ds)
    have "mx_heap (?tell d m) = (mx_heap m)(p := (mx_heap m p)\<lparr>cl_out := cl_out (mx_heap m p)
        @ plist_packet (me_plist env) (cl_proto_version (mx_heap m p)) 0 (getDevicePlist env d)\<rparr>)"
      by (simp add: on_client_def send_plist_pkt_all [OF assms(1)])
    with Cons [of "?tell d m"] show ?case by (simp add: fun_eq_iff)
  qed
  with assms(2) show ?thesis by (simp add: notify_alldevices_def)
qed


section \<open>Undefined behaviour\<close>

text \<open>
  A plist message whose length field is smaller than the header is undefined behaviour: the size of
  the payload is computed in 32 bits and wraps, and the parser reads some four gigabytes from the
  buffer on. Any client can send such a header.
\<close>

theorem short_plist_message_traps:
  assumes "recv_data RD_first gots (loopEvent_start (the_client p s)) = (Inr RD_done, c)"
    and "uh_version (client_hdr c) \<in> {0, 1}" and "uh_message (client_hdr c) = msgtype_code MESSAGE_PLIST"
    and "unat (uh_length (client_hdr c)) < sizeof_usbmuxd_header"
  shows "fst (client_loopEvent env rnd p gots s) = Inl Trap"
  using assms
  by (auto simp: client_loopEvent_def thenE_def on_mux_def on_client_def the_client_def processData_def
      process_plist_def Let_def)

section \<open>Concrete runs\<close>

text \<open>
  A library like \<open>tree_lib\<close> whose parser knows three short messages, which its own encoder never
  produces: a request to save, to read and to delete the record of one device.
\<close>

definition ex_save :: tree where
  "ex_save = Dict [(''MessageType'', Str ''SavePairRecord''), (''PairRecordID'', Str ''abc''),
     (''PairRecordData'', Dat [])]"

definition ex_read :: tree where
  "ex_read = Dict [(''MessageType'', Str ''ReadPairRecord''), (''PairRecordID'', Str ''abc'')]"

definition ex_delete :: tree where
  "ex_delete = Dict [(''MessageType'', Str ''DeletePairRecord''), (''PairRecordID'', Str ''abc'')]"

definition ex_lib :: "tree plist_lib" where
  "ex_lib = tree_lib\<lparr>plist_from_xml := (\<lambda>bs.
     if bs = [1] then Some ex_save else if bs = [2] then Some ex_read else if bs = [3] then Some ex_delete
     else Some (from_nat (length bs)))\<rparr>"

lemma ex_lib_dict: "plist_is_dict ex_lib d \<Longrightarrow> plist_is_dict tree_lib d"
  by (simp add: plist_is_dict_def ex_lib_def)

lemma ex_lib_laws: "plist_laws ex_lib"
proof -
  have "tree_bytes t \<noteq> [b]" if "b \<noteq> 0" for t b
    using that by (auto simp: tree_bytes_def replicate_eq_replicate [of _ _ 1 b, simplified]
        dest: arg_cong [of _ _ set] split: if_splits)
  then have "plist_from_xml ex_lib (plist_to_xml ex_lib p) = Some p" for p
    using plist_lawsD(10) [OF tree_lib_laws, of p] by (simp add: ex_lib_def tree_lib_def)
  moreover have "plist_is_dict ex_lib d \<Longrightarrow> plist_dict_get ex_lib (plist_dict_set ex_lib d k v) k = Some v" for d k v
    using plist_lawsD(1) [OF tree_lib_laws ex_lib_dict, of d k v] by (simp add: ex_lib_def)
  ultimately show ?thesis
    using plist_lawsD(2-9) [OF tree_lib_laws] unfolding plist_laws_def by (simp add: ex_lib_def)
qed

definition ex_env :: "tree mux_env" where
  "ex_env = ex_mux_env\<lparr>me_plist := ex_lib\<rparr>"

definition ex_bytes :: "u8 \<Rightarrow> bytes" where
  "ex_bytes b = encode_usbmuxd_header \<lparr>uh_length = 17, uh_version = 1, uh_message = 8, uh_tag = 5\<rparr> @ [b]"

definition ex_asking :: "u8 \<Rightarrow> client" where
  "ex_asking b = ex_client\<lparr>cl_mem := (\<lambda>i. ex_bytes b ! i), cl_recvBytesCnt := 17\<rparr>"

definition ex_daemon :: "u8 \<Rightarrow> daemon" where
  "ex_daemon b = \<lparr>dm_mux = ex_muxer\<lparr>mx_heap := (mx_heap ex_muxer)(2 := ex_asking b)\<rparr>, dm_conf = ex_conf\<rparr>"

lemma get_mem_nth: "k + n \<le> length xs \<Longrightarrow> get_mem (\<lambda>i. xs ! i) k n = take n (drop k xs)"
  by (rule nth_equalityI) (auto simp: get_mem_def)

lemma ex_asking_hdr:
  "client_hdr (ex_asking b) = \<lparr>uh_length = 17, uh_version = 1, uh_message = 8, uh_tag = 5\<rparr>"
  using get_mem_nth [of 0 16 "ex_bytes b"]
    decode_usbmuxd_header_encode [of "\<lparr>uh_length = 17, uh_version = 1, uh_message = 8, uh_tag = 5\<rparr>" "[]"]
  by (simp add: client_hdr_def ex_asking_def ex_bytes_def sizeof_usbmuxd_header_def)

lemma ex_asking_request: "plist_request ex_lib (ex_asking b) = plist_from_xml ex_lib [b]"
  using get_mem_nth [of 16 1 "ex_bytes b"]
  by (simp add: plist_request_def ex_asking_hdr sizeof_usbmuxd_header_def)
    (simp add: ex_asking_def ex_bytes_def sizeof_usbmuxd_header_def)

lemma ex_messages:
  "plist_message ex_lib (the_client 2 (ex_daemon 1)) = Some (ex_save, ''SavePairRecord'')"
  "plist_message ex_lib (the_client 2 (ex_daemon 2)) = Some (ex_read, ''ReadPairRecord'')"
  "plist_message ex_lib (the_client 2 (ex_daemon 3)) = Some (ex_delete, ''DeletePairRecord'')"
proof -
  have c: "the_client 2 (ex_daemon b) = ex_asking b" for b
    by (simp add: the_client_def ex_daemon_def)
  show "plist_message ex_lib (the_client 2 (ex_daemon 1)) = Some (ex_save, ''SavePairRecord'')"
    "plist_message ex_lib (the_client 2 (ex_daemon 2)) = Some (ex_read, ''ReadPairRecord'')"
    "plist_message ex_lib (the_client 2 (ex_daemon 3)) = Some (ex_delete, ''DeletePairRecord'')"
    unfolding c plist_message_def ex_asking_hdr ex_asking_request
    by (simp_all add: sizeof_usbmuxd_header_def ex_lib_def request_string_def)
      (simp_all add: ex_save_def ex_read_def ex_delete_def tree_lib_def)
qed

lemma ex_env_sock: "sock_takes_all (me_sock ex_env)"
  by (simp add: sock_takes_all_def ex_env_def ex_mux_env_def ex_socket_def)

lemma ex_env_plist [simp]: "me_plist ex_env = ex_lib"
  by (simp add: ex_env_def)

lemma ex_reply: "fst (reply_result ex_env p tag code s) = Inr ()"
  using ex_env_sock
  by (simp add: reply_result_def on_mux_def on_client_def send_result_def send_plist_pkt_def send_pkt_def
      writeData_def sock_send_def sock_takes_all_def Let_def split: prod.splits)

lemma ex_set_record: "fst (sysconf_set_device_record ex_lib ''abc'' p ex_conf) = Inr ()"
  by (simp add: sysconf_set_device_record_def sysconf_load_known_macaddrs_def ex_conf_eval Let_def)

lemma ex_tag: "uh_tag (client_hdr (the_client 2 (ex_daemon b))) = 5"
  by (simp add: the_client_def ex_daemon_def ex_asking_hdr)

lemma ex_commands:
  "processData ex_env rnd 2 (ex_daemon 1) =
     cmd_save_pair_record ex_env 2 5 ex_save (introduced ex_lib ex_save 2 (ex_daemon 1))"
  "processData ex_env rnd 2 (ex_daemon 3) =
     cmd_delete_pair_record ex_env 2 5 ex_delete (introduced ex_lib ex_delete 2 (ex_daemon 3))"
  using processData_plist [of ex_env 2 "ex_daemon 1" ex_save _ rnd] ex_messages(1)
    processData_plist [of ex_env 2 "ex_daemon 3" ex_delete _ rnd] ex_messages(3)
  by (simp_all add: ex_tag plist_command_def)

lemma ex_save_fields:
  "request_string ex_lib ex_save ''PairRecordID'' = Some ''abc''"
  "request_uint ex_lib ex_save ''DeviceID'' = None"
  "plist_dict_get ex_lib ex_save ''PairRecordData'' = Some (Dat [])"
  "plist_get_data ex_lib (Dat []) = Some []"
  "plist_from_memory ex_lib [] = Some (from_nat 0)"
  "request_string ex_lib ex_read ''PairRecordID'' = Some ''abc''"
  "request_string ex_lib ex_delete ''PairRecordID'' = Some ''abc''"
  by (simp_all add: request_string_def request_uint_def ex_lib_def tree_lib_def ex_save_def ex_read_def ex_delete_def)

lemma ex_save_runs: "\<exists>s1. processData ex_env rnd 2 (ex_daemon 1) = (Inr (), s1)"
proof -
  let ?s = "introduced ex_lib ex_save 2 (ex_daemon 1)"
  obtain c where c: "sysconf_set_device_record ex_lib ''abc'' (from_nat 0) ex_conf = (Inr (), c)"
    using run_ok [OF ex_set_record] by blast
  then have "on_conf (sysconf_set_device_record ex_lib ''abc'' (from_nat 0)) ?s = (Inr (), ?s\<lparr>dm_conf := c\<rparr>)"
    by (simp add: on_conf_def ex_daemon_def)
  then have "fst (cmd_save_pair_record ex_env 2 5 ex_save ?s) = Inr ()"
    by (simp add: cmd_save_pair_record_def Let_def ex_save_fields thenE_def ex_reply)
  from run_ok [OF this] show ?thesis unfolding ex_commands by blast
qed

lemma ex_connect_appends: "connect_appends ex_env"
  by (simp add: connect_appends_def ex_env_def ex_mux_env_def)


definition ex_reader :: "daemon \<Rightarrow> daemon" where
  "ex_reader s = (ex_daemon 2)\<lparr>dm_conf := dm_conf s\<rparr>"

lemma ex_reader_message:
  "plist_message ex_lib (the_client 2 (ex_reader s)) = Some (ex_read, ''ReadPairRecord'')"
  "uh_tag (client_hdr (the_client 2 (ex_reader s))) = 5"
  using ex_messages(2) ex_tag [of 2] by (simp_all add: ex_reader_def the_client_def)

lemma save_then_read_pair_record_witness:
  "\<exists>s1 r s3. processData ex_env (\<lambda>_. 0) 2 (ex_daemon 1) = (Inr (), s1)
    \<and> processData ex_env (\<lambda>_. 0) 2 (ex_reader s1) = (r, s3)
    \<and> (r, the_client 2 s3) = send_plist_pkt ex_lib (me_sock ex_env) 5
        (plist_dict_set ex_lib (plist_new_dict ex_lib) ''PairRecordData''
          (plist_new_data ex_lib (plist_to_bin ex_lib (from_nat 0))))
        (update_client_info ex_lib ex_read ((the_client 2 (ex_reader s1))\<lparr>cl_proto_version := 1\<rparr>))"
proof -
  obtain s1 where run: "processData ex_env (\<lambda>_. 0) 2 (ex_daemon 1) = (Inr (), s1)"
    using ex_save_runs by blast
  obtain r s3 where get: "processData ex_env (\<lambda>_. 0) 2 (ex_reader s1) = (r, s3)" by (metis prod.exhaust)
  have conf: "dm_conf (ex_reader s1) = dm_conf s1" by (simp add: ex_reader_def)
  from save_then_read_pair_record [OF ex_lib_laws ex_env_plist ex_messages(1) ex_save_fields(1,3,4,5) run conf
      ex_reader_message(1) ex_save_fields(6) get] run get
  show ?thesis by (auto simp: ex_reader_message(2))
qed

text \<open>A store that holds the record of the device.\<close>

definition ex_daemon_saved :: daemon where
  "ex_daemon_saved = (ex_daemon 3)\<lparr>dm_conf := ex_conf\<lparr>sc_files := [(''/var/lib/lockdown/abc.plist'', [])]\<rparr>\<rparr>"

lemma delete_then_read_pair_record_witness:
  "\<exists>s1 r s3. processData ex_env (\<lambda>_. 0) 2 ex_daemon_saved = (Inr (), s1)
    \<and> processData ex_env (\<lambda>_. 0) 2 (ex_reader s1) = (r, s3)
    \<and> (r, the_client 2 s3) = send_result ex_lib (me_sock ex_env) 5 ENOENT
        (update_client_info ex_lib ex_read ((the_client 2 (ex_reader s1))\<lparr>cl_proto_version := 1\<rparr>))"
proof -
  have m: "plist_message ex_lib (the_client 2 ex_daemon_saved) = Some (ex_delete, ''DeletePairRecord'')"
    "uh_tag (client_hdr (the_client 2 ex_daemon_saved)) = 5"
    using ex_messages(3) ex_tag [of 3] by (simp_all add: ex_daemon_saved_def the_client_def)
  have conf: "dm_conf (introduced ex_lib ex_delete 2 ex_daemon_saved)
      = ex_conf\<lparr>sc_files := [(''/var/lib/lockdown/abc.plist'', [])]\<rparr>"
    by (simp add: ex_daemon_saved_def)
  have "fst (sysconf_remove_device_record ex_lib ''abc''
      (ex_conf\<lparr>sc_files := [(''/var/lib/lockdown/abc.plist'', [])]\<rparr>)) = Inr ()"
    by (simp add: sysconf_remove_device_record_def sysconf_load_known_macaddrs_def ex_conf_eval Let_def)
  then have "fst (cmd_delete_pair_record ex_env 2 5 ex_delete (introduced ex_lib ex_delete 2 ex_daemon_saved)) = Inr ()"
    using conf by (auto simp: cmd_delete_pair_record_def ex_save_fields thenE_def on_conf_def ex_reply
        split: prod.splits)
  then have "fst (processData ex_env (\<lambda>_. 0) 2 ex_daemon_saved) = Inr ()"
    using processData_plist [of ex_env 2 ex_daemon_saved ex_delete] m by (simp add: plist_command_def)
  then obtain s1 where run: "processData ex_env (\<lambda>_. 0) 2 ex_daemon_saved = (Inr (), s1)"
    by (metis run_ok)
  obtain r s3 where get: "processData ex_env (\<lambda>_. 0) 2 (ex_reader s1) = (r, s3)" by (metis prod.exhaust)
  have conf: "dm_conf (ex_reader s1) = dm_conf s1" by (simp add: ex_reader_def)
  from delete_then_read_pair_record [OF ex_env_plist m(1) ex_save_fields(7) run conf
      ex_reader_message(1) ex_save_fields(6) get] run get
  show ?thesis by (auto simp: ex_reader_message(2))
qed


definition ex_short :: bytes where
  "ex_short = encode_usbmuxd_header \<lparr>uh_length = 15, uh_version = 1, uh_message = 8, uh_tag = 1\<rparr>"

lemma short_plist_message_traps_witness:
  "fst (client_loopEvent ex_env (\<lambda>_. 0) 2 [Some ex_short] (ex_daemon 1)) = Inl Trap"
proof -
  let ?c = "(ex_asking 1)\<lparr>cl_recvBytesCnt := 0\<rparr>"
  let ?c' = "?c\<lparr>cl_mem := put_mem (cl_mem ?c) 0 ex_short, cl_recvBytesCnt := 16\<rparr>"
  have len: "length ex_short = 16" "ex_short \<noteq> []"
    using length_encode_usbmuxd_header
    by (auto simp: ex_short_def sizeof_usbmuxd_header_def encode_usbmuxd_header_def le32_def be32_def)
  have hdr: "client_hdr ?c' = \<lparr>uh_length = 15, uh_version = 1, uh_message = 8, uh_tag = 1\<rparr>"
    using put_get_mem [of "cl_mem ?c" 0 ex_short] len
      decode_usbmuxd_header_encode [of "\<lparr>uh_length = 15, uh_version = 1, uh_message = 8, uh_tag = 1\<rparr>" "[]"]
    by (simp add: client_hdr_def sizeof_usbmuxd_header_def ex_short_def get_mem_def)
  have "recv_data RD_first [Some ex_short] (loopEvent_start (the_client 2 (ex_daemon 1))) = (Inr RD_done, ?c')"
    using len hdr
    by (simp add: the_client_def ex_daemon_def loopEvent_start_def thenE_def readData_def client_bufsize_def
        sizeof_usbmuxd_header_def rd_body_def)
  from short_plist_message_traps [OF this, of ex_env "\<lambda>_. 0"] hdr show ?thesis
    by (simp add: sizeof_usbmuxd_header_def)
qed

end
