(* ===== verification/Startup.thy ===== *)
theory Startup
  imports Client_Commands
begin

text \<open>
  The start of the daemon, \<^verbatim>\<open>main.cpp\<close>: the command line over the configuration, the single instance
  lock, the start of the managers, dropping privileges, and the signal handler. \<open>getopt_long\<close> and the
  operating system are parameters: the options as they are returned, and the results of the system
  calls in the order of the code. A build with systemd support is modelled; of the process that forks
  only the one that goes on.
\<close>

section \<open>The command line\<close>

text \<open>
  What \<open>getopt_long\<close> returns: a long option without a letter, by its name, or a letter; each with its
  argument. An unknown option is the letter \<open>?\<close>.
\<close>

datatype cli_opt = Opt_long string "string option" | Opt_char char "string option"

record options =
  op_config :: config
  op_verbose :: int
  op_exit_signal :: int

definition SIGINT :: int where "SIGINT = 2"
definition SIGUSR1 :: int where "SIGUSR1 = 10"
definition SIGUSR2 :: int where "SIGUSR2 = 12"
definition SIGTERM :: int where "SIGTERM = 15"

text \<open>\<open>atoi\<close>: blanks, a sign and the digits up to the first other character.\<close>

definition is_digit :: "char \<Rightarrow> bool" where
  "is_digit c \<longleftrightarrow> c \<in> set ''0123456789''"

definition digits_value :: "string \<Rightarrow> int" where
  "digits_value s = fold (\<lambda>c n. 10 * n + (of_char c - 48)) (takeWhile is_digit s) 0"

definition atoi :: "string \<Rightarrow> int" where
  "atoi s =
     (case dropWhile (\<lambda>c. c \<in> {CHR '' '', CHR 0x09, CHR 0x0A, CHR 0x0B, CHR 0x0C, CHR 0x0D}) s of
        [] \<Rightarrow> 0
      | c # cs \<Rightarrow> if c = CHR ''-'' then - digits_value cs
                 else if c = CHR ''+'' then digits_value cs else digits_value (c # cs))"

text \<open>
  One option: \<open>Inl n\<close> is \<open>exit(n)\<close>. \<open>reopens\<close> says for which files \<open>freopen\<close> succeeds.
\<close>

definition long_opt :: "string \<Rightarrow> string option \<Rightarrow> config \<Rightarrow> config" where
  "long_opt curopt optarg c =
     (if curopt = ''allow-heartless-wifi'' then c\<lparr>cf_allowHeartlessWifi := True\<rparr>
      else if curopt = ''retry-wifi-session'' then c\<lparr>cf_retryWifiSession := True\<rparr>
      else if curopt = ''debug'' then c\<lparr>cf_debugLevel := cf_debugLevel c + 1\<rparr>
      else if curopt = ''no-usb''
      then c\<lparr>cf_enableUSBDeviceManager := (case optarg of None \<Rightarrow> False | Some a \<Rightarrow> atoi a \<noteq> 0)\<rparr>
      else if curopt = ''no-wifi''
      then c\<lparr>cf_enableWifiDeviceManager := (case optarg of None \<Rightarrow> False | Some a \<Rightarrow> atoi a \<noteq> 0)\<rparr>
      else c)"

definition upd_config :: "(config \<Rightarrow> config) \<Rightarrow> options \<Rightarrow> options" where
  "upd_config f op = op\<lparr>op_config := f (op_config op)\<rparr>"

definition parse_opt :: "(string \<Rightarrow> bool) \<Rightarrow> cli_opt \<Rightarrow> options \<Rightarrow> int + options" where
  "parse_opt reopens opt op =
     (case opt of
        Opt_long curopt optarg \<Rightarrow> Inr (upd_config (long_opt curopt optarg) op)
      | Opt_char c optarg \<Rightarrow>
          if c = CHR ''h'' then Inl 0
          else if c = CHR ''d'' then Inr (upd_config (\<lambda>c. c\<lparr>cf_daemonize := True\<rparr>) op)
          else if c = CHR ''l''
          then (case optarg of
                  None \<Rightarrow> Inl 2
                | Some file \<Rightarrow>
                    if file = [] then Inl 2
                    else if cf_useLogfile (op_config op) then Inl 2
                    else if reopens file then Inr op
                    else Inr (upd_config (\<lambda>c. c\<lparr>cf_useLogfile := True\<rparr>) op))
          else if c = CHR ''p'' then Inr (upd_config (\<lambda>c. c\<lparr>cf_doPreflight := False\<rparr>) op)
          else if c = CHR ''U''
          then Inr (upd_config (\<lambda>c. c\<lparr>cf_dropUser := (case optarg of None \<Rightarrow> [] | Some u \<Rightarrow> u)\<rparr>) op)
          else if c = CHR ''s''
          then Inr (upd_config (\<lambda>c. c\<lparr>cf_enableExit := True, cf_daemonize := False\<rparr>) op)
          else if c = CHR ''v'' then Inr (op\<lparr>op_verbose := op_verbose op + 1\<rparr>)
          else if c = CHR ''V'' then Inl 0
          else if c = CHR ''x'' then Inr (op\<lparr>op_exit_signal := SIGUSR1\<rparr>)
          else if c = CHR ''X'' then Inr (op\<lparr>op_exit_signal := SIGTERM\<rparr>)
          else if c = CHR ''z'' then Inr (upd_config (\<lambda>c. c\<lparr>cf_enableExit := True\<rparr>) op)
          else Inl 2)"

fun parse_opts :: "(string \<Rightarrow> bool) \<Rightarrow> cli_opt list \<Rightarrow> options \<Rightarrow> int + options" where
  "parse_opts reopens [] op = Inr op"
| "parse_opts reopens (o1 # os) op =
     (case parse_opt reopens o1 op of Inl n \<Rightarrow> Inl n | Inr op' \<Rightarrow> parse_opts reopens os op')"

section \<open>Signals\<close>

datatype signal_effect = Sig_exit int | Sig_terminate | Sig_none

text \<open>\<open>ctrlcCounter\<close> is the static counter of the handler.\<close>

definition handle_signal :: "config \<Rightarrow> muxer \<Rightarrow> int \<Rightarrow> int \<Rightarrow> signal_effect \<times> int" where
  "handle_signal conf m sig ctrlcCounter =
     (if sig \<noteq> SIGUSR1 \<and> sig \<noteq> SIGUSR2
      then (if ctrlcCounter = 5 then Sig_exit 2 else Sig_terminate, ctrlcCounter + 1)
      else if cf_enableExit conf
      then (if sig = SIGUSR1
            then (if devices_cnt m > 0 then Sig_none else Sig_terminate, ctrlcCounter)
            else (Sig_none, ctrlcCounter))
      else (Sig_none, ctrlcCounter))"

section \<open>Starting\<close>

datatype startup_action =
    Signal_instance int int
  | Unlink_lockfile
  | Fork_daemon
  | Write_pidfile
  | Spawn_clients
  | Fix_permissions int int
  | Init_groups int
  | Set_gid int
  | Set_uid int
  | Spawn_usb
  | Spawn_wifi
  | Notify_parent int
  | Wait_for_termination

text \<open>
  The operating system: the results of the system calls of \<open>main\<close>. \<open>se_other\<close> is the process that holds
  the lock, 0 where its number is not known; \<open>se_chown\<close> says where \<open>chown\<close> succeeds and \<open>se_regain\<close>
  whether \<open>setuid(0)\<close> succeeds after privileges were dropped.
\<close>

record startup_env =
  se_open_lockfile :: bool
  se_other :: "int option"
  se_kill :: bool
  se_is_daemon :: bool
  se_daemonize :: bool
  se_pidfile :: bool
  se_passwd :: "string \<Rightarrow> (int \<times> int) option"
  se_chown :: "string \<Rightarrow> bool"
  se_initgroups :: bool
  se_setgid :: bool
  se_setuid :: bool
  se_regain :: bool
  se_spawn_clients :: bool
  se_spawn_usb :: bool
  se_spawn_wifi :: bool
  se_notify :: bool

record startup =
  st_options :: options
  st_conf :: sysconf
  st_mux :: "muxer option"
  st_uid :: int
  st_gid :: int
  st_report :: bool
  st_trace :: "startup_action list"

definition act_on :: "startup_action \<Rightarrow> startup \<Rightarrow> startup" where
  "act_on a s = s\<lparr>st_trace := st_trace s @ [a]\<rparr>"

abbreviation opt_config :: "startup \<Rightarrow> config" where
  "opt_config s \<equiv> op_config (st_options s)"

text \<open>A failed check jumps to the label \<open>error\<close> with \<open>err\<close> set; the result \<open>False\<close> is a jump without it.\<close>

definition instance_lock :: "startup_env \<Rightarrow> (startup, bool) act" where
  "instance_lock env s =
     (let sig = op_exit_signal (st_options s) in
      if \<not> se_open_lockfile env then (Inl Assure_failed, s)
      else case se_other env of
        Some pid \<Rightarrow>
          if sig = 0 then (Inl Assure_failed, s)
          else if pid = 0 then (Inl Assure_failed, s)
          else if \<not> se_kill env then (Inl Assure_failed, s)
          else (Inr False, act_on (Signal_instance pid sig) s)
      | None \<Rightarrow>
          let s1 = act_on Unlink_lockfile s in
          if sig \<noteq> 0 then (Inl Assure_failed, s1) else (Inr True, s1))"

definition go_daemon :: "startup_env \<Rightarrow> (startup, unit) act" where
  "go_daemon env s =
     (if \<not> cf_daemonize (opt_config s) \<or> se_is_daemon env then (Inr (), s)
      else let s1 = act_on Fork_daemon (s\<lparr>st_report := True\<rparr>) in
        if se_daemonize env then (Inr (), s1) else (Inl Assure_failed, s1))"

definition write_pidfile :: "startup_env \<Rightarrow> (startup, unit) act" where
  "write_pidfile env s =
     (if se_pidfile env then (Inr (), act_on Write_pidfile s) else (Inl Assure_failed, s))"

definition make_muxer :: "(nat \<Rightarrow> client) \<Rightarrow> startup \<Rightarrow> startup" where
  "make_muxer heap s =
     (let c = opt_config s;
          c' = (if cf_retryWifiSession c \<and> \<not> cf_allowHeartlessWifi c then c\<lparr>cf_retryWifiSession := False\<rparr> else c)
      in s\<lparr>st_options := (st_options s)\<lparr>op_config := c'\<rparr>,
           st_mux := Some (new_muxer heap (cf_doPreflight c') (cf_allowHeartlessWifi c') (cf_retryWifiSession c'))\<rparr>)"

text \<open>A manager is made before the muxer's field is set; its constructor may throw.\<close>

definition spawn :: "bool \<Rightarrow> startup_action \<Rightarrow> (muxer, unit) act \<Rightarrow> (startup, unit) act" where
  "spawn made a f s =
     (case st_mux s of
        None \<Rightarrow> (Inl Trap, s)
      | Some m \<Rightarrow>
          if \<not> made then (Inl Assure_failed, s)
          else (case f m of (r, m') \<Rightarrow> (r, act_on a (s\<lparr>st_mux := Some m'\<rparr>))))"

definition drop_privileges :: "startup_env \<Rightarrow> (startup, unit) act" where
  "drop_privileges env s =
     (let user = cf_dropUser (opt_config s) in
      if user = [] \<or> st_uid s \<noteq> 0 then (Inr (), s)
      else case se_passwd env user of
        None \<Rightarrow> (Inl Assure_failed, s)
      | Some (pw_uid, pw_gid) \<Rightarrow>
          if pw_uid = 0 then (Inr (), s)
          else (case sysconf_fix_permissions (se_chown env) pw_uid pw_gid (st_conf s) of
              (Inl e, conf) \<Rightarrow> (Inl e, s\<lparr>st_conf := conf\<rparr>)
            | (Inr u, conf) \<Rightarrow>
                let s1 = act_on (Fix_permissions pw_uid pw_gid) (s\<lparr>st_conf := conf\<rparr>) in
                if \<not> se_initgroups env then (Inl Assure_failed, s1)
                else let s2 = act_on (Init_groups pw_gid) s1 in
                if \<not> se_setgid env then (Inl Assure_failed, s2)
                else let s3 = act_on (Set_gid pw_gid) (s2\<lparr>st_gid := pw_gid\<rparr>) in
                if \<not> se_setuid env then (Inl Assure_failed, s3)
                else let s4 = act_on (Set_uid pw_uid) (s3\<lparr>st_uid := pw_uid\<rparr>) in
                if se_regain env then (Inl Assure_failed, s4)
                else if st_uid s4 = pw_uid \<or> st_gid s4 = pw_gid then (Inr (), s4)
                else (Inl Assure_failed, s4)))"

definition ignoreE :: "('s, unit) act \<Rightarrow> ('s, unit) act" where
  "ignoreE f s = (case f s of (Inl e, s') \<Rightarrow> if e = Trap then (Inl Trap, s') else (Inr (), s') | (Inr u, s') \<Rightarrow> (Inr (), s'))"

definition start_managers :: "startup_env \<Rightarrow> (startup, unit) act" where
  "start_managers env s =
     thenE (if cf_enableUSBDeviceManager (opt_config s)
            then ignoreE (spawn (se_spawn_usb env) Spawn_usb spawnUSBDeviceManager) else okE ()) (\<lambda>_.
     thenE (if cf_enableWifiDeviceManager (opt_config s)
            then ignoreE (spawn (se_spawn_wifi env) Spawn_wifi spawnWIFIDeviceManager) else okE ()) (\<lambda>_ s.
       case st_mux s of
         None \<Rightarrow> (Inl Trap, s)
       | Some m \<Rightarrow> if hasDeviceManager m then (Inr (), s) else (Inl Assure_failed, s))) s"

definition notify_parent :: "startup_env \<Rightarrow> int \<Rightarrow> (startup, unit) act" where
  "notify_parent env status s =
     (let s1 = s\<lparr>st_report := False\<rparr> in
      if se_notify env then (Inr (), act_on (Notify_parent status) s1) else (Inl Assure_failed, s1))"

definition start_up :: "startup_env \<Rightarrow> (nat \<Rightarrow> client) \<Rightarrow> (startup, unit) act" where
  "start_up env heap =
     thenE (instance_lock env) (\<lambda>alone.
       if \<not> alone then okE ()
       else
         thenE (go_daemon env) (\<lambda>_.
         thenE (write_pidfile env) (\<lambda>_.
         thenE (modE (make_muxer heap)) (\<lambda>_.
         thenE (spawn (se_spawn_clients env) Spawn_clients spawnClientManager) (\<lambda>_.
         thenE (drop_privileges env) (\<lambda>_.
         thenE (start_managers env) (\<lambda>_.
         thenE (\<lambda>s. if st_report s then notify_parent env 0 s else (Inr (), s)) (\<lambda>_.
           modE (act_on Wait_for_termination)))))))))"

text \<open>\<open>main\<close> from the loaded configuration on: the value is whether it returns an error.\<close>

definition main_run ::
    "startup_env \<Rightarrow> (string \<Rightarrow> bool) \<Rightarrow> (nat \<Rightarrow> client) \<Rightarrow> cli_opt list \<Rightarrow> startup \<Rightarrow> (int + bool) \<times> startup" where
  "main_run env reopens heap opts s =
     (case parse_opts reopens opts (st_options s) of
        Inl n \<Rightarrow> (Inl n, s)
      | Inr op \<Rightarrow>
          (case start_up env heap (s\<lparr>st_options := op\<rparr>) of
             (Inr u, s') \<Rightarrow> (Inr False, s')
           | (Inl e, s') \<Rightarrow> (Inr True, if st_report s' then snd (notify_parent env 0 s') else s')))"

section \<open>Privileges\<close>

lemma start_managers_run:
  assumes "start_managers env s = (Inr (), s')"
  shows "st_uid s' = st_uid s \<and> st_gid s' = st_gid s \<and> st_report s' = st_report s
    \<and> (\<exists>post. st_trace s' = st_trace s @ post \<and> set post \<subseteq> {Spawn_usb, Spawn_wifi})
    \<and> st_options s' = st_options s"
proof -
  have one: "ignoreE (spawn made a f) s = (Inr (), s') \<Longrightarrow> st_uid s' = st_uid s \<and> st_gid s' = st_gid s
      \<and> st_report s' = st_report s \<and> st_options s' = st_options s
      \<and> (\<exists>post. st_trace s' = st_trace s @ post \<and> set post \<subseteq> {a})" for made a f s s'
    by (auto simp: ignoreE_def spawn_def act_on_def split: option.splits prod.splits sum.splits if_splits)
  let ?usb = "if cf_enableUSBDeviceManager (opt_config s)
    then ignoreE (spawn (se_spawn_usb env) Spawn_usb spawnUSBDeviceManager) else okE ()"
  let ?wifi = "if cf_enableWifiDeviceManager (opt_config s)
    then ignoreE (spawn (se_spawn_wifi env) Spawn_wifi spawnWIFIDeviceManager) else okE ()"
  from assms obtain s1 where a: "?usb s = (Inr (), s1)" and b: "?wifi s1 = (Inr (), s')"
    unfolding start_managers_def by (auto elim!: thenE_cases split: option.splits if_splits)
  from a one have A: "st_uid s1 = st_uid s \<and> st_gid s1 = st_gid s \<and> st_report s1 = st_report s
      \<and> st_options s1 = st_options s \<and> (\<exists>post. st_trace s1 = st_trace s @ post \<and> set post \<subseteq> {Spawn_usb})"
    by (cases "cf_enableUSBDeviceManager (opt_config s)") auto
  from b one have B: "st_uid s' = st_uid s1 \<and> st_gid s' = st_gid s1 \<and> st_report s' = st_report s1
      \<and> st_options s' = st_options s1 \<and> (\<exists>post. st_trace s' = st_trace s1 @ post \<and> set post \<subseteq> {Spawn_wifi})"
    by (cases "cf_enableWifiDeviceManager (opt_config s)") auto
  from A obtain p1 where p1: "st_trace s1 = st_trace s @ p1" "set p1 \<subseteq> {Spawn_usb}" by blast
  from B obtain p2 where p2: "st_trace s' = st_trace s1 @ p2" "set p2 \<subseteq> {Spawn_wifi}" by blast
  from p1 p2 have "st_trace s' = st_trace s @ (p1 @ p2)" "set (p1 @ p2) \<subseteq> {Spawn_usb, Spawn_wifi}" by auto
  with A B show ?thesis by metis
qed

lemma drop_privileges_run:
  assumes "drop_privileges env s = (Inr (), s')"
  shows "st_report s' = st_report s \<and> st_options s' = st_options s
    \<and> (s' = s \<and> (cf_dropUser (opt_config s) = [] \<or> st_uid s \<noteq> 0
          \<or> (\<exists>g. se_passwd env (cf_dropUser (opt_config s)) = Some (0, g)))
      \<or> (\<exists>u g. se_passwd env (cf_dropUser (opt_config s)) = Some (u, g) \<and> u \<noteq> 0
          \<and> st_uid s' = u \<and> st_gid s' = g
          \<and> st_trace s' = st_trace s @ [Fix_permissions u g, Init_groups g, Set_gid g, Set_uid u]))"
  using assms
  by (auto simp: drop_privileges_def Let_def act_on_def split: if_splits option.splits prod.splits sum.splits)

text \<open>A start that gets to the end, section by section.\<close>

lemma start_up_run:
  assumes "start_up env heap s = (Inr (), s')" and "Wait_for_termination \<in> set (st_trace s')"
    and "st_trace s = []"
  obtains s1 s2 s3 where
    "set (st_trace s1) \<subseteq> {Unlink_lockfile, Fork_daemon, Write_pidfile}"
    "st_uid s1 = st_uid s" "cf_dropUser (opt_config s1) = cf_dropUser (opt_config s)"
    "st_trace s2 = st_trace s1 @ [Spawn_clients]" "st_uid s2 = st_uid s1"
    "opt_config s2 = opt_config s1"
    "drop_privileges env s2 = (Inr (), s3)"
    "st_uid s' = st_uid s3" "st_gid s' = st_gid s3"
    "\<exists>post. st_trace s' = st_trace s3 @ post \<and> set post \<subseteq> {Spawn_usb, Spawn_wifi, Notify_parent 0, Wait_for_termination}"
proof -
  from assms(1) obtain b t0 where lock: "instance_lock env s = (Inr b, t0)"
    and rest: "(if \<not> b then okE () else thenE (go_daemon env) (\<lambda>_. thenE (write_pidfile env) (\<lambda>_.
         thenE (modE (make_muxer heap)) (\<lambda>_.
         thenE (spawn (se_spawn_clients env) Spawn_clients spawnClientManager) (\<lambda>_.
         thenE (drop_privileges env) (\<lambda>_. thenE (start_managers env) (\<lambda>_.
         thenE (\<lambda>s. if st_report s then notify_parent env 0 s else (Inr (), s)) (\<lambda>_.
           modE (act_on Wait_for_termination))))))))) t0 = (Inr (), s')"
    unfolding start_up_def by (auto elim: thenE_cases)
  have t0: "set (st_trace t0) \<subseteq> (if b then {Unlink_lockfile} else UNIV - {Wait_for_termination})"
    "st_uid t0 = st_uid s" "st_options t0 = st_options s"
    using lock assms(3) by (auto simp: instance_lock_def Let_def act_on_def split: if_splits option.splits)
  have b using rest t0(1) assms(2) by (auto split: if_splits)
  with rest obtain t1 t2 t3 t4 t5 t6 where run: "go_daemon env t0 = (Inr (), t1)"
      "write_pidfile env t1 = (Inr (), t2)"
      "spawn (se_spawn_clients env) Spawn_clients spawnClientManager (make_muxer heap t2) = (Inr (), t3)"
      "drop_privileges env t3 = (Inr (), t4)" "start_managers env t4 = (Inr (), t5)"
      "(if st_report t5 then notify_parent env 0 t5 else (Inr (), t5)) = (Inr (), t6)"
      "s' = act_on Wait_for_termination t6"
    by (auto elim!: thenE_cases)
  have t2: "set (st_trace t2) \<subseteq> {Unlink_lockfile, Fork_daemon, Write_pidfile}" "st_uid t2 = st_uid s"
    "st_options t2 = st_options s"
    using run(1,2) t0 \<open>b\<close>
    by (auto simp: go_daemon_def write_pidfile_def act_on_def Let_def split: if_splits)
  let ?s1 = "make_muxer heap t2"
  have t3: "st_trace t3 = st_trace ?s1 @ [Spawn_clients]" "st_uid t3 = st_uid ?s1" "opt_config t3 = opt_config ?s1"
    using run(3) by (auto simp: spawn_def act_on_def split: option.splits if_splits prod.splits)
  have s1: "set (st_trace ?s1) \<subseteq> {Unlink_lockfile, Fork_daemon, Write_pidfile}" "st_uid ?s1 = st_uid s"
    "cf_dropUser (opt_config ?s1) = cf_dropUser (opt_config s)"
    using t2 by (auto simp: make_muxer_def Let_def)
  note mgr = start_managers_run [OF run(5)]
  then obtain p1 where p1: "st_trace t5 = st_trace t4 @ p1" "set p1 \<subseteq> {Spawn_usb, Spawn_wifi}" by blast
  have "\<exists>p2. st_trace t6 = st_trace t5 @ p2 \<and> set p2 \<subseteq> {Notify_parent 0} \<and> st_uid t6 = st_uid t5 \<and> st_gid t6 = st_gid t5"
    using run(6) by (auto simp: notify_parent_def act_on_def Let_def split: if_splits)
  then obtain p2 where p2: "st_trace t6 = st_trace t5 @ p2" "set p2 \<subseteq> {Notify_parent 0}"
    "st_uid t6 = st_uid t5" "st_gid t6 = st_gid t5" by blast
  have "st_trace s' = st_trace t4 @ (p1 @ p2 @ [Wait_for_termination])"
    using p1 p2 run(7) by (simp add: act_on_def)
  moreover have "set (p1 @ p2 @ [Wait_for_termination])
      \<subseteq> {Spawn_usb, Spawn_wifi, Notify_parent 0, Wait_for_termination}"
    using p1 p2 by auto
  moreover have "st_uid s' = st_uid t4" "st_gid s' = st_gid t4"
    using mgr p2 run(7) by (simp_all add: act_on_def)
  ultimately show thesis
    using that [OF s1 t3 run(4)] by blast
qed

text \<open>
  C37: the device managers run without privileges. A daemon that was started as root, for a user that is
  not root, and gets as far as waiting for its end has opened the clients' socket while it was
  privileged, has then handed the configuration over, and has given up group and user, before it
  started any manager of devices.
\<close>

theorem managers_run_unprivileged:
  assumes "main_run env reopens heap opts s = (Inr False, s')"
    and "Wait_for_termination \<in> set (st_trace s')" and "st_trace s = []" and "st_uid s = 0"
    and "parse_opts reopens opts (st_options s) = Inr op"
    and "se_passwd env (cf_dropUser (op_config op)) = Some (u, g)" and "u \<noteq> 0"
    and "cf_dropUser (op_config op) \<noteq> []"
  shows "st_uid s' = u \<and> st_gid s' = g \<and> (\<exists>pre post. st_trace s' =
      pre @ [Spawn_clients, Fix_permissions u g, Init_groups g, Set_gid g, Set_uid u] @ post
    \<and> set pre \<subseteq> {Unlink_lockfile, Fork_daemon, Write_pidfile}
    \<and> set post \<subseteq> {Spawn_usb, Spawn_wifi, Notify_parent 0, Wait_for_termination})"
proof -
  let ?s = "s\<lparr>st_options := op\<rparr>"
  from assms(1,5) have run: "start_up env heap ?s = (Inr (), s')"
    by (auto simp: main_run_def split: prod.splits sum.splits)
  have "st_trace ?s = []" using assms(3) by simp
  from start_up_run [OF run assms(2) this] obtain s1 s2 s3 where
    pre: "set (st_trace s1) \<subseteq> {Unlink_lockfile, Fork_daemon, Write_pidfile}"
    and s1: "st_uid s1 = st_uid ?s" "cf_dropUser (opt_config s1) = cf_dropUser (opt_config ?s)"
    and s2: "st_trace s2 = st_trace s1 @ [Spawn_clients]" "st_uid s2 = st_uid s1" "opt_config s2 = opt_config s1"
    and drop: "drop_privileges env s2 = (Inr (), s3)"
    and s': "st_uid s' = st_uid s3" "st_gid s' = st_gid s3"
      "\<exists>post. st_trace s' = st_trace s3 @ post \<and> set post \<subseteq> {Spawn_usb, Spawn_wifi, Notify_parent 0, Wait_for_termination}"
    by blast
  have user: "cf_dropUser (opt_config s2) = cf_dropUser (op_config op)" "st_uid s2 = 0"
    using s1 s2 assms(4) by simp_all
  with drop_privileges_run [OF drop] assms(6-8) have
    "st_uid s3 = u" "st_gid s3 = g"
    "st_trace s3 = st_trace s2 @ [Fix_permissions u g, Init_groups g, Set_gid g, Set_uid u]"
    by auto
  with s' s2 pre show ?thesis by auto
qed

section \<open>Failures\<close>

definition owes_report :: "startup \<Rightarrow> bool" where
  "owes_report s \<longleftrightarrow> (Fork_daemon \<in> set (st_trace s) \<longrightarrow> st_report s)"

definition keeps_report :: "(startup, 'a) act \<Rightarrow> bool" where
  "keeps_report f \<longleftrightarrow> (\<forall>s. owes_report s \<longrightarrow> owes_report (snd (f s)))"

lemma keeps_reportD: "keeps_report f \<Longrightarrow> f s = (r, s') \<Longrightarrow> owes_report s \<Longrightarrow> owes_report s'"
  unfolding keeps_report_def by (metis snd_conv)

lemma keeps_report_thenE:
  "keeps_report f \<Longrightarrow> (\<And>x. keeps_report (g x)) \<Longrightarrow> keeps_report (thenE f g)"
  unfolding keeps_report_def thenE_def by (force split: prod.splits sum.splits)

lemma keeps_report_steps:
  "keeps_report (instance_lock env)" "keeps_report (go_daemon env)" "keeps_report (write_pidfile env)"
  "keeps_report (modE (make_muxer heap))" "a \<noteq> Fork_daemon \<Longrightarrow> keeps_report (spawn made a f)"
  "keeps_report (drop_privileges env)" "keeps_report (okE x)"
  by (auto simp: keeps_report_def owes_report_def instance_lock_def go_daemon_def write_pidfile_def
      make_muxer_def spawn_def drop_privileges_def act_on_def Let_def
      split: option.splits prod.splits sum.splits)

lemma keeps_report_ignoreE: "keeps_report f \<Longrightarrow> keeps_report (ignoreE f)"
  by (force simp: keeps_report_def ignoreE_def split: prod.splits sum.splits)

lemma keeps_report_managers: "keeps_report (start_managers env)"
proof -
  let ?last = "\<lambda>s. case st_mux s of None \<Rightarrow> (Inl Trap, s)
      | Some m \<Rightarrow> if hasDeviceManager m then (Inr (), s) else (Inl Assure_failed, s)"
  have last: "keeps_report ?last" by (auto simp: keeps_report_def split: option.splits)
  have "keeps_report (thenE (if u then ignoreE (spawn (se_spawn_usb env) Spawn_usb spawnUSBDeviceManager) else okE ())
      (\<lambda>_. thenE (if w then ignoreE (spawn (se_spawn_wifi env) Spawn_wifi spawnWIFIDeviceManager) else okE ())
        (\<lambda>_. ?last)))" for u w
    by (cases u; cases w; simp only: if_True if_False)
      (intro keeps_report_thenE keeps_report_ignoreE keeps_report_steps last; simp)+
  then show ?thesis by (simp add: keeps_report_def start_managers_def)
qed

text \<open>An operation that still owes the report wherever it fails.\<close>

definition fails_owing :: "(startup, 'a) act \<Rightarrow> bool" where
  "fails_owing f \<longleftrightarrow> (\<forall>s e s'. owes_report s \<longrightarrow> f s = (Inl e, s') \<longrightarrow> owes_report s')"

lemma fails_owing_thenE:
  assumes "keeps_report f" and "\<And>x. fails_owing (g x)"
  shows "fails_owing (thenE f g)"
  unfolding fails_owing_def
proof (intro allI impI)
  fix s e s' assume s: "owes_report s" and run: "thenE f g s = (Inl e, s')"
  from run show "owes_report s'"
  proof (cases rule: thenE_cases)
    case (throw e)
    then show ?thesis using keeps_reportD [OF assms(1) _ s] by blast
  next
    case (step x t)
    then show ?thesis using keeps_reportD [OF assms(1) _ s] assms(2) unfolding fails_owing_def by blast
  qed
qed

lemma start_up_owes:
  assumes "start_up env heap s = (Inl e, s')" and "st_trace s = []" and "se_notify env"
  shows "owes_report s'"
proof -
  have last: "fails_owing (thenE (\<lambda>s. if st_report s then notify_parent env 0 s else (Inr (), s)) (\<lambda>_.
      modE (act_on Wait_for_termination)))"
    using assms(3) by (auto simp: fails_owing_def notify_parent_def thenE_def Let_def)
  have "fails_owing (if \<not> alone then okE () else thenE (go_daemon env) (\<lambda>_.
         thenE (write_pidfile env) (\<lambda>_. thenE (modE (make_muxer heap)) (\<lambda>_.
         thenE (spawn (se_spawn_clients env) Spawn_clients spawnClientManager) (\<lambda>_.
         thenE (drop_privileges env) (\<lambda>_. thenE (start_managers env) (\<lambda>_.
         thenE (\<lambda>s. if st_report s then notify_parent env 0 s else (Inr (), s)) (\<lambda>_.
           modE (act_on Wait_for_termination)))))))))" for alone
  proof (cases alone)
    case True
    then show ?thesis
      by (simp only: not_True_eq_False if_False)
        (intro fails_owing_thenE keeps_report_steps keeps_report_managers last; simp)
  qed (simp add: fails_owing_def)
  then have "fails_owing (start_up env heap)"
    unfolding start_up_def by (intro fails_owing_thenE keeps_report_steps)
  moreover have "owes_report s" using assms(2) by (simp add: owes_report_def)
  ultimately show ?thesis using assms(1) unfolding fails_owing_def by blast
qed

text \<open>
  A failed start is reported as a success. Where the daemon forked and then fails, the process that
  started it waits for a status and gets 0, the same as after a successful start: its caller cannot
  tell the two apart.
\<close>

theorem failure_reported_as_success:
  assumes "main_run env reopens heap opts s = (Inr True, s')" and "Fork_daemon \<in> set (st_trace s')"
    and "st_trace s = []" and "se_notify env"
  shows "Notify_parent 0 \<in> set (st_trace s')"
proof -
  from assms(1) obtain op e s1 where run: "start_up env heap (s\<lparr>st_options := op\<rparr>) = (Inl e, s1)"
    and s': "s' = (if st_report s1 then snd (notify_parent env 0 s1) else s1)"
    by (auto simp: main_run_def split: sum.splits prod.splits)
  from start_up_owes [OF run] assms(3,4) have "owes_report s1" by simp
  with s' assms(2,4) show ?thesis
    by (auto simp: owes_report_def notify_parent_def act_on_def Let_def split: if_splits)
qed

section \<open>Options\<close>

text \<open>
  The option for a log file has its test the wrong way round: where the file could be opened nothing is
  noted, and where it could not the daemon believes it has one.
\<close>

lemma logfile_inverted:
  assumes "file \<noteq> []" and "\<not> cf_useLogfile (op_config op)"
  shows "\<exists>op'. parse_opt reopens (Opt_char (CHR ''l'') (Some file)) op = Inr op'
    \<and> (cf_useLogfile (op_config op') \<longleftrightarrow> \<not> reopens file)"
  using assms by (auto simp: parse_opt_def upd_config_def)

text \<open>A muxer that retries WIFI sessions also keeps devices without a heartbeat, whatever the options.\<close>

lemma retry_needs_heartless:
  "st_mux (make_muxer heap s) = Some m \<Longrightarrow> mx_retryWifiSession m \<Longrightarrow> mx_allowHeartlessWifi m"
  by (auto simp: make_muxer_def new_muxer_def Let_def split: if_splits)

text \<open>Only a signal that is not for other instances, or SIGUSR1 without devices, ends the daemon.\<close>

lemma usr1_waits_for_devices:
  "handle_signal conf m SIGUSR1 n = (e, n') \<Longrightarrow>
   e = (if cf_enableExit conf \<and> mx_devices m = [] then Sig_terminate else Sig_none) \<and> n' = n"
  by (auto simp: handle_signal_def devices_cnt_def split: if_splits)

section \<open>Concrete runs\<close>

definition ex_config :: config where
  "ex_config = config_init\<lparr>cf_enableUSBDeviceManager := True, cf_daemonize := True\<rparr>"

definition ex_start :: startup where
  "ex_start = \<lparr>st_options = \<lparr>op_config = ex_config, op_verbose = 0, op_exit_signal = 0\<rparr>, st_conf = ex_conf,
     st_mux = None, st_uid = 0, st_gid = 0, st_report = False, st_trace = []\<rparr>"

definition ex_os :: "bool \<Rightarrow> startup_env" where
  "ex_os usb = \<lparr>se_open_lockfile = True, se_other = None, se_kill = True, se_is_daemon = False, se_daemonize = True,
     se_pidfile = True, se_passwd = (\<lambda>u. if u = ''usbmux'' then Some (140, 46) else None), se_chown = (\<lambda>_. True),
     se_initgroups = True, se_setgid = True, se_setuid = True, se_regain = False, se_spawn_clients = True,
     se_spawn_usb = usb, se_spawn_wifi = True, se_notify = True\<rparr>"

lemmas ex_start_eval = main_run_def parse_opt_def start_up_def instance_lock_def go_daemon_def write_pidfile_def
  make_muxer_def spawn_def drop_privileges_def start_managers_def ignoreE_def notify_parent_def act_on_def
  upd_config_def ex_start_def ex_os_def ex_config_def config_init_def thenE_def Let_def
  spawnClientManager_def spawnUSBDeviceManager_def hasDeviceManager_def new_muxer_def
  sysconf_fix_permissions_def posix_chown_def

definition ex_user :: "cli_opt list" where
  "ex_user = [Opt_char (CHR ''U'') (Some ''usbmux'')]"

lemma ex_parse: "parse_opts r ex_user (st_options ex_start) =
    Inr ((st_options ex_start)\<lparr>op_config := ex_config\<lparr>cf_dropUser := ''usbmux''\<rparr>\<rparr>)"
  by (simp add: ex_user_def ex_start_def parse_opt_def upd_config_def)

lemma ex_conf_fix: "sysconf_fix_permissions (\<lambda>_. True) u g ex_conf =
    (Inr (), ex_conf\<lparr>sc_owners := [(''/var/lib/lockdown'', (u, g))]\<rparr>)"
  by (simp add: sysconf_fix_permissions_def posix_chown_def ex_conf_eval Let_def)

lemma managers_run_unprivileged_witness:
  "\<exists>s'. main_run (ex_os True) (\<lambda>_. True) (\<lambda>_. ex_client) ex_user ex_start = (Inr False, s')
    \<and> st_uid s' = 140 \<and> st_gid s' = 46"
proof -
  obtain s' where run: "main_run (ex_os True) (\<lambda>_. True) (\<lambda>_. ex_client) ex_user ex_start = (Inr False, s')"
    "Wait_for_termination \<in> set (st_trace s')"
    using ex_conf_fix [of 140 46] by (simp add: main_run_def ex_parse) (simp add: ex_start_eval)
  have "st_trace ex_start = []" "st_uid ex_start = 0"
    "se_passwd (ex_os True) (cf_dropUser (ex_config\<lparr>cf_dropUser := ''usbmux''\<rparr>)) = Some (140, 46)"
    by (simp_all add: ex_start_def ex_os_def)
  with managers_run_unprivileged [OF run _ _ ex_parse] run show ?thesis by simp
qed

lemma failure_reported_as_success_witness:
  "\<exists>s'. main_run (ex_os False) (\<lambda>_. True) (\<lambda>_. ex_client) [] ex_start = (Inr True, s')
    \<and> Notify_parent 0 \<in> set (st_trace s')"
proof -
  obtain s' where run: "main_run (ex_os False) (\<lambda>_. True) (\<lambda>_. ex_client) [] ex_start = (Inr True, s')"
    "Fork_daemon \<in> set (st_trace s')"
    by (simp add: ex_start_eval)
  have "st_trace ex_start = []" "se_notify (ex_os False)" by (simp_all add: ex_start_def ex_os_def)
  from failure_reported_as_success [OF run this] run show ?thesis by blast
qed

end
