(* ===== verification/USB_Device.thy ===== *)
theory USB_Device
  imports TCP_Conn "HOL-Library.AList"
begin

text \<open>
  The rest of \<^verbatim>\<open>Devices/USBDevice.cpp\<close> and \<^verbatim>\<open>Devices/USBDevice_receiver.cpp\<close>: what a received transfer
  does (\<open>device_data_input\<close>), the version handshake, the ports of the connections
  (\<open>start_connect\<close>), the reaper of connections and the tear-down of the device. The transfer buffer
  is its whole allocation, of which \<open>actual_length\<close> bytes are the packet.
\<close>

section \<open>State\<close>

datatype mux_dev_state = MUXDEV_INIT | MUXDEV_ACTIVE | MUXDEV_DEAD

datatype mux_call = Mux_add_device | Mux_delete_device

text \<open>
  \<open>ud_conns\<close> is the map from source ports to connections, \<open>ud_rx_xfers\<close> the set of receive transfers,
  \<open>ud_reaped\<close> how many of the posts in \<open>ul_reapConnections\<close> the reaper has taken, \<open>ud_mux_calls\<close> the
  calls on the muxer, \<open>ud_cancelled\<close> the transfers cancelled.
\<close>

record usbdev = usblink +
  ud_state :: mux_dev_state
  ud_conns :: "(u16 \<times> tcp) list"
  ud_nextPort :: u16
  ud_rx_xfers :: "nat set"
  ud_reaped :: nat
  ud_mux_calls :: "mux_call list"
  ud_cancelled :: "nat set"

section \<open>The receive gate\<close>

definition rx_must_wait :: "u16 \<Rightarrow> u16 \<Rightarrow> nat \<Rightarrow> bool" where
  "rx_must_wait rx_seq txseq n \<longleftrightarrow>
     rx_seq + 1 < txseq \<or> unat (rx_seq + 1 + of_nat n) < unat txseq + n"

datatype gate = Gate_wait | Gate_discard | Gate_pass

text \<open>
  A receiver first looks whether its packet is the next one and only otherwise enters the waiting
  loop; after every wake-up it evaluates the loop condition again.
\<close>

definition rx_gate_enter :: "u16 \<Rightarrow> u16 \<Rightarrow> nat \<Rightarrow> gate" where
  "rx_gate_enter rx_seq txseq n =
     (if rx_seq + 1 \<noteq> txseq
      then (if rx_must_wait rx_seq txseq n then Gate_wait else Gate_discard)
      else Gate_pass)"

definition rx_gate_resume :: "u16 \<Rightarrow> u16 \<Rightarrow> nat \<Rightarrow> gate" where
  "rx_gate_resume rx_seq txseq n =
     (if rx_must_wait rx_seq txseq n then Gate_wait
      else if rx_seq + 1 \<noteq> txseq then Gate_discard else Gate_pass)"

section \<open>Gathering broken up transfers\<close>

datatype gathered = Gathered nat | Incomplete

definition write_pktbuf :: "bytes \<Rightarrow> nat \<Rightarrow> bytes \<Rightarrow> bytes" where
  "write_pktbuf pktbuf off bs = take off pktbuf @ bs @ drop (off + length bs) pktbuf"

text \<open>The result is the length the dispatch goes on with; its header is still the one in \<open>buffer\<close>.\<close>

definition gather :: "bytes \<Rightarrow> nat \<Rightarrow> (mux_device, gathered) act" where
  "gather buffer len m =
     (let total = len + unat (md_pktlen m); hdr_length = unat (get32 buffer 4) in
      if md_pktlen m \<noteq> 0
      then (if md_version m < 2 then (Inl V1_split_packet, m)
            else if \<not> total \<le> DEV_MRU then (Inl Split_too_large, m)
            else let m1 = m\<lparr>md_pktbuf := write_pktbuf (md_pktbuf m) (unat (md_pktlen m)) (take len buffer)\<rparr>
                 in if len < USB_MRU \<or> hdr_length = total
                    then (Inr (Gathered total), m1\<lparr>md_pktlen := 0\<rparr>)
                    else (Inr Incomplete, m1\<lparr>md_pktlen := of_nat total\<rparr>))
      else if len = USB_MRU \<and> len < hdr_length
      then (Inr Incomplete, m\<lparr>md_pktbuf := write_pktbuf (md_pktbuf m) 0 (take len buffer),
                              md_pktlen := of_nat len\<rparr>)
      else (Inr (Gathered len), m))"

section \<open>Packets of the device\<close>

definition mux_add_device :: "usbdev \<Rightarrow> usbdev" where
  "mux_add_device d = d\<lparr>ud_mux_calls := ud_mux_calls d @ [Mux_add_device]\<rparr>"

definition device_version_input :: "libusb_env \<Rightarrow> mux_version_header \<Rightarrow> (usbdev, unit) act" where
  "device_version_input env vh d =
     (if ud_state d \<noteq> MUXDEV_INIT then (Inl Already_initialised, d)
      else if vh_major vh \<noteq> 2 \<and> vh_major vh \<noteq> 1 then (Inr (), usbdev_kill d)
      else let d1 = d\<lparr>ul_muxdev := (ul_muxdev d)\<lparr>md_version := uint (vh_major vh)\<rparr>\<rparr> in
        (case (if md_version (ul_muxdev d1) \<ge> 2 then send_packet env MUX_PROTO_SETUP [7] None d1
               else (Inr (), d1)) of
           (Inl e, d2) \<Rightarrow> (Inl e, d2)
         | (Inr u, d2) \<Rightarrow> (Inr (), mux_add_device (d2\<lparr>ud_state := MUXDEV_ACTIVE\<rparr>))))"

text \<open>What \<open>device_control_input\<close> writes to the log: a prefix and the text, up to a zero byte.\<close>

datatype control_log = CL_none | CL_text string bytes | CL_nopayload u8

definition control_type :: "u8 \<Rightarrow> string" where
  "control_type b = (if b = 3 then ''ERROR'' else if b = 4 then ''2WARNING2''
     else if b = 5 then ''WARNING'' else if b = 7 then ''INFO'' else ''UNK'')"

definition c_text :: "bytes \<Rightarrow> int \<Rightarrow> bytes res" where
  "c_text s prec =
     (let shown = takeWhile (\<lambda>b. b \<noteq> 0) (if prec < 0 then s else take (nat prec) s)
      in if shown = s \<and> (prec < 0 \<or> int (length s) < prec) then Inl Trap else Inr shown)"

definition device_control_input :: "bytes \<Rightarrow> nat \<Rightarrow> u32 \<Rightarrow> control_log res" where
  "device_control_input buffer off payload_length =
     (if payload_length > 0
      then if \<not> off < length buffer then Inl Trap
           else if payload_length > 1
           then (case c_text (drop (Suc off) buffer) (sint (payload_length - 1)) of
                   Inl e \<Rightarrow> Inl e
                 | Inr text \<Rightarrow> Inr (CL_text (control_type (buffer ! off)) text))
           else Inr (CL_nopayload (buffer ! off))
      else Inr CL_none)"

text \<open>
  The dispatch: done, a message for the log, or a segment for the connection on port \<open>dport\<close>, whose
  \<open>handle_input\<close> the receiver then runs. A segment nobody claims is answered with a reset, whose
  failure is ignored.
\<close>

datatype dispatched = DP_done | DP_log control_log | DP_deliver u16 tcphdr bytes

definition dispatch :: "libusb_env \<Rightarrow> bytes \<Rightarrow> nat \<Rightarrow> nat \<Rightarrow> (usbdev, dispatched) act" where
  "dispatch env buffer len hs d =
     (let proto = get32 buffer 0 in
      if proto = proto_code MUX_PROTO_VERSION
      then if len < hs + sizeof_mux_version_header then (Inl Version_too_small, d)
           else (case device_version_input env (decode_version_header buffer hs) d of
                   (Inl e, d') \<Rightarrow> (Inl e, d') | (Inr u, d') \<Rightarrow> (Inr DP_done, d'))
      else if proto = proto_code MUX_PROTO_CONTROL
      then (case device_control_input buffer sizeof_mux_header (of_nat len - of_nat hs) of
              Inl e \<Rightarrow> (Inl e, d) | Inr msg \<Rightarrow> (Inr (DP_log msg), d))
      else if proto = proto_code MUX_PROTO_TCP
      then if len < hs + sizeof_tcphdr then (Inl Tcp_too_small, d)
           else let hdr = decode_tcphdr buffer hs;
                    payload = take (len - sizeof_tcphdr - hs) (drop (hs + sizeof_tcphdr) buffer)
                in (case map_of (ud_conns d) (th_dport hdr) of
                      None \<Rightarrow> (Inr DP_done, snd (send_RST (usb_ops env) hdr d))
                    | Some c \<Rightarrow> (Inr (DP_deliver (th_dport hdr) hdr payload), d))
      else (Inr DP_done, d))"

section \<open>Receiving a transfer\<close>

datatype data_input =
    DI_wait u16 nat
  | DI_return
  | DI_out dispatched

text \<open>
  \<open>data_accept\<close> is everything after the gate. \<open>data_input_enter\<close> runs from the start of
  \<open>device_data_input\<close> to its end or to the first wait; \<open>data_input_resume\<close> from a wake-up on, with
  the header size read before the wait.
\<close>

definition data_accept :: "libusb_env \<Rightarrow> bytes \<Rightarrow> nat \<Rightarrow> nat \<Rightarrow> (usbdev, data_input) act" where
  "data_accept env buffer len hs d =
     (case gather buffer len (ul_muxdev d) of
        (Inl e, m) \<Rightarrow> (Inl e, d\<lparr>ul_muxdev := m\<rparr>)
      | (Inr Incomplete, m) \<Rightarrow> (Inr DI_return, d\<lparr>ul_muxdev := m\<rparr>)
      | (Inr (Gathered len'), m) \<Rightarrow>
          (case dispatch env buffer len' hs (d\<lparr>ul_muxdev := m\<rparr>) of
             (Inl e, d') \<Rightarrow> (Inl e, d') | (Inr x, d') \<Rightarrow> (Inr (DI_out x), d')))"

definition data_gated ::
    "libusb_env \<Rightarrow> bytes \<Rightarrow> nat \<Rightarrow> nat \<Rightarrow> u16 \<Rightarrow> gate \<Rightarrow> (usbdev, data_input) act" where
  "data_gated env buffer len hs txseq g d =
     (case g of
        Gate_wait \<Rightarrow> (Inr (DI_wait txseq hs), d)
      | Gate_discard \<Rightarrow> (Inr DI_return, d)
      | Gate_pass \<Rightarrow>
          data_accept env buffer len hs (d\<lparr>ul_muxdev := (ul_muxdev d)\<lparr>md_rx_seq := txseq\<rparr>\<rparr>))"

definition data_input_enter :: "libusb_env \<Rightarrow> bytes \<Rightarrow> nat \<Rightarrow> (usbdev, data_input) act" where
  "data_input_enter env buffer len d =
     (let m = ul_muxdev d; hs = mux_header_size (md_version m); txseq = get16 buffer 12 in
      if len = 0 then (Inr DI_return, d)
      else if \<not> (len \<le> USB_MRU \<and> len \<le> DEV_MRU) then (Inl Too_much_data, d)
      else if unat (get32 buffer 4) \<noteq> len then (Inl Size_mismatch, d)
      else if md_version m \<ge> 2
      then data_gated env buffer len hs txseq
             (rx_gate_enter (md_rx_seq m) txseq (card (ud_rx_xfers d))) d
      else data_accept env buffer len hs d)"

definition data_input_resume ::
    "libusb_env \<Rightarrow> bytes \<Rightarrow> nat \<Rightarrow> nat \<Rightarrow> u16 \<Rightarrow> (usbdev, data_input) act" where
  "data_input_resume env buffer len hs txseq d =
     data_gated env buffer len hs txseq
       (rx_gate_resume (md_rx_seq (ul_muxdev d)) txseq (card (ud_rx_xfers d))) d"

text \<open>The receiver's \<open>loopEvent\<close>: an exception kills the device and ends the loop.\<close>

definition receiver_result :: "'x res \<Rightarrow> usbdev \<Rightarrow> bool \<times> usbdev" where
  "receiver_result r d = (case r of Inr x \<Rightarrow> (True, d) | Inl e \<Rightarrow> (False, usbdev_kill d))"

section \<open>Connections\<close>

definition port_measure :: "bool \<Rightarrow> u16 \<Rightarrow> nat" where
  "port_measure did p = (if did then 0 else 65537) + (if p = 0 then 0 else 65536 - unat p)"

lemma port_measure_next: "p \<noteq> 0 \<Longrightarrow> port_measure did (p + 1) < port_measure did p"
proof -
  assume "p \<noteq> 0"
  moreover have "unat p < 65536" using unat_lt_u16 [of p] by simp
  moreover have "unat (p + 1) = Suc (unat p)" if "p + 1 \<noteq> 0"
    using that u16_succ_unat [of p] by (simp add: word_unat_eq_iff split: if_splits)
  ultimately show ?thesis
    by (cases "p + 1 = 0") (auto simp: port_measure_def)
qed

text \<open>The search for a free port: \<open>_nextPort\<close> is the counter of the loop and keeps its last value.\<close>

function find_port :: "u16 list \<Rightarrow> bool \<Rightarrow> u16 \<Rightarrow> u16 res \<times> u16" where
  "find_port used didIterAllPorts p =
     (if p \<in> set used \<or> p = 0
      then if p = 0
           then if didIterAllPorts then (Inl No_free_port, p) else find_port used True (p + 1)
           else find_port used didIterAllPorts (p + 1)
      else (Inr p, p))"
  by pat_completeness auto

termination
  by (relation "measure (\<lambda>(used, did, p). port_measure did p)")
    (auto simp: port_measure_next, simp add: port_measure_def)

declare find_port.simps [simp del]

definition MAX_CONNS :: nat where "MAX_CONNS = 0xfff0"

definition add_connection :: "(nat \<Rightarrow> u8) \<Rightarrow> u32 \<Rightarrow> u16 \<Rightarrow> (usbdev, u16) act" where
  "add_connection mem rnd dport d =
     (if \<not> length (ud_conns d) < MAX_CONNS then (Inl Too_many_connections, d)
      else (case find_port (map fst (ud_conns d)) False (ud_nextPort d) of
              (Inl e, p) \<Rightarrow> (Inl e, d\<lparr>ud_nextPort := p\<rparr>)
            | (Inr sp, p) \<Rightarrow>
                (Inr sp, d\<lparr>ud_nextPort := p,
                           ud_conns := AList.update sp (new_tcp mem rnd sp dport) (ud_conns d)\<rparr>)))"

text \<open>
  \<open>start_connect\<close> then runs \<open>connect\<close> on the new connection, outside the guard; an exception of it
  goes on to the caller and leaves the connection in the map.
\<close>

definition reaper_step :: "usbdev \<Rightarrow> usbdev option" where
  "reaper_step d =
     (if \<not> ud_reaped d < length (ul_reapConnections d) then None
      else let conport = ul_reapConnections d ! ud_reaped d in
        (case map_of (ud_conns d) conport of
           Some c \<Rightarrow> if tc_lockStx c then None
             else Some (d\<lparr>ud_reaped := Suc (ud_reaped d), ud_conns := AList.delete conport (ud_conns d)\<rparr>)
         | None \<Rightarrow> Some (d\<lparr>ud_reaped := Suc (ud_reaped d), ud_conns := AList.delete conport (ud_conns d)\<rparr>)))"

text \<open>
  \<open>USBDevice::deconstruct\<close> up to its waiting loop, and the loop's condition. The reaper waits for
  \<open>_lockStx\<close> of the connection it takes down; \<open>None\<close> is that it cannot go on.
\<close>

definition usbdev_deconstruct :: "usbdev \<Rightarrow> usbdev" where
  "usbdev_deconstruct d = d\<lparr>ud_mux_calls := ud_mux_calls d @ [Mux_delete_device],
     ud_cancelled := ud_cancelled d \<union> ud_rx_xfers d \<union> ul_tx_xfers d,
     ul_reapConnections := ul_reapConnections d @ sort (map fst (ud_conns d))\<rparr>"

definition deconstruct_done :: "usbdev \<Rightarrow> bool" where
  "deconstruct_done d \<longleftrightarrow> ud_conns d = []"

definition isDeviceReadyForDestruction :: "usbdev \<Rightarrow> bool" where
  "isDeviceReadyForDestruction d \<longleftrightarrow> ud_rx_xfers d = {} \<and> ul_tx_xfers d = {}"

definition usb_location :: "u8 \<Rightarrow> u8 \<Rightarrow> u32" where
  "usb_location bus address = push_bit 16 (ucast bus) OR ucast address"

fun run_reaper :: "nat \<Rightarrow> usbdev \<Rightarrow> usbdev" where
  "run_reaper 0 d = d"
| "run_reaper (Suc n) d = (case reaper_step d of None \<Rightarrow> d | Some d' \<Rightarrow> run_reaper n d')"

section \<open>The gate\<close>

lemma rx_window_sum:
  assumes "n < 65536"
  shows "unat (rx_seq + 1 + of_nat n :: u16) =
    (if unat (rx_seq + 1) + n < 65536 then unat (rx_seq + 1) + n else unat (rx_seq + 1) + n - 65536)"
proof -
  let ?a = "rx_seq + 1"
  have "unat (of_nat n :: u16) = n" using assms by (intro unat_of_nat_u16) simp
  then have "unat (?a + of_nat n) = (unat ?a + n) mod 65536"
    by (simp add: unat_word_ariths)
  with assms unat_lt_u16 [of ?a] show ?thesis by (simp add: mod_if)
qed

text \<open>
  The receive gate away from the wrap of the 16-bit sequence and next to it. With room for the
  window above the expected number a receiver waits exactly while its packet is ahead. Without that
  room the loop condition always holds: a receiver that waits for the packet it holds is not released
  when its turn comes.
\<close>

theorem rx_gate_near_wrap:
  assumes "n < 65536"
  shows "rx_must_wait rx_seq txseq n =
    (unat (rx_seq + 1) + n < 65536 \<longrightarrow> rx_seq + 1 < txseq)"
  using unat_lt_u16 [of "rx_seq + 1"] assms
  by (auto simp: rx_must_wait_def rx_window_sum word_less_nat_alt)

lemma stamp_header_rx_seq:
  "proto \<noteq> MUX_PROTO_SETUP \<Longrightarrow> md_rx_seq (snd (stamp_header proto n m)) = md_rx_seq m"
  by (simp add: stamp_header_def Let_def)

lemma stamp_header_pktbuf [simp]: "md_pktbuf (snd (stamp_header proto n m)) = md_pktbuf m"
  by (simp add: stamp_header_def Let_def)

text \<open>Sending keeps the receiving half of the mux device.\<close>

lemma send_packet_receiving:
  assumes "send_packet env proto data header d = (r, d')"
  shows "md_pktlen (ul_muxdev d') = md_pktlen (ul_muxdev d)
    \<and> md_pktbuf (ul_muxdev d') = md_pktbuf (ul_muxdev d)
    \<and> md_version (ul_muxdev d') = md_version (ul_muxdev d)
    \<and> (proto \<noteq> MUX_PROTO_SETUP \<longrightarrow> md_rx_seq (ul_muxdev d') = md_rx_seq (ul_muxdev d))"
  using send_packet_muxdev [OF assms] by (auto simp: stamp_header_rx_seq)

lemma send_RST_receiving [simp]:
  "md_pktlen (ul_muxdev (snd (send_RST (usb_ops env) hdr d))) = md_pktlen (ul_muxdev d)"
  "md_pktbuf (ul_muxdev (snd (send_RST (usb_ops env) hdr d))) = md_pktbuf (ul_muxdev d)"
  "md_rx_seq (ul_muxdev (snd (send_RST (usb_ops env) hdr d))) = md_rx_seq (ul_muxdev d)"
  unfolding send_RST_def usb_ops_def tcp_dev_ops.simps
  using send_packet_receiving by (metis mux_protocol.distinct(11) prod.collapse)+

lemma version_input_receiving:
  assumes "device_version_input env vh d = (r, d')"
  shows "md_pktlen (ul_muxdev d') = md_pktlen (ul_muxdev d)
    \<and> md_pktbuf (ul_muxdev d') = md_pktbuf (ul_muxdev d)
    \<and> (ud_state d \<noteq> MUXDEV_INIT \<longrightarrow> md_rx_seq (ul_muxdev d') = md_rx_seq (ul_muxdev d))"
  using assms
  by (auto simp: device_version_input_def usbdev_kill_def mux_add_device_def Let_def
      dest: send_packet_receiving split: if_splits prod.splits sum.splits)

lemma dispatch_receiving:
  assumes "dispatch env buffer len hs d = (r, d')"
  shows "md_pktlen (ul_muxdev d') = md_pktlen (ul_muxdev d)
    \<and> md_pktbuf (ul_muxdev d') = md_pktbuf (ul_muxdev d)
    \<and> (ud_state d \<noteq> MUXDEV_INIT \<longrightarrow> md_rx_seq (ul_muxdev d') = md_rx_seq (ul_muxdev d))"
  using assms
  by (auto simp: dispatch_def Let_def dest: version_input_receiving
      split: if_splits prod.splits sum.splits option.splits)

lemma gather_whole:
  assumes "gather buffer len m = (r, m')" and "unat (get32 buffer 4) = len" and "md_pktlen m = 0"
  shows "r = Inr (Gathered len) \<and> m' = m"
  using assms by (auto simp: gather_def Let_def split: if_splits)

lemma gather_rx_seq: "gather buffer len m = (r, m') \<Longrightarrow> md_rx_seq m' = md_rx_seq m"
  by (auto simp: gather_def Let_def split: if_splits)

lemma data_accept_rx_seq:
  assumes "data_accept env buffer len hs d = (r, d')" and "ud_state d \<noteq> MUXDEV_INIT"
  shows "md_rx_seq (ul_muxdev d') = md_rx_seq (ul_muxdev d)"
proof -
  obtain g m where gather: "gather buffer len (ul_muxdev d) = (g, m)" by (metis prod.exhaust)
  obtain x d2 where run: "dispatch env buffer (case g of Inr (Gathered n) \<Rightarrow> n | _ \<Rightarrow> 0) hs
      (d\<lparr>ul_muxdev := m\<rparr>) = (x, d2)" by (metis prod.exhaust)
  with gather assms(1) have "ul_muxdev d' = m \<or> d' = d2"
    by (auto simp: data_accept_def split: prod.splits sum.splits gathered.splits)
  with gather_rx_seq [OF gather] dispatch_receiving [OF run] assms(2) show ?thesis by auto
qed

text \<open>The two ways into the gate, with what was checked before it.\<close>

definition gated_call ::
    "libusb_env \<Rightarrow> bytes \<Rightarrow> nat \<Rightarrow> usbdev \<Rightarrow> data_input res \<times> usbdev \<Rightarrow> bool" where
  "gated_call env buffer len d out \<longleftrightarrow> data_input_enter env buffer len d = out
     \<or> (unat (get32 buffer 4) = len
          \<and> (\<exists>hs. data_input_resume env buffer len hs (get16 buffer 12) d = out))"

lemma gated_call_cases:
  assumes "gated_call env buffer len d (r, d')" and "2 \<le> md_version (ul_muxdev d)"
  obtains (nothing) "d' = d" "r \<in> {Inl Too_much_data, Inl Size_mismatch, Inr DI_return}
      \<or> (\<exists>q hs. r = Inr (DI_wait q hs))"
    | (passes) hs where "get16 buffer 12 = md_rx_seq (ul_muxdev d) + 1" "unat (get32 buffer 4) = len"
      "data_accept env buffer len hs
         (d\<lparr>ul_muxdev := (ul_muxdev d)\<lparr>md_rx_seq := get16 buffer 12\<rparr>\<rparr>) = (r, d')"
proof -
  have gate: thesis if run: "data_gated env buffer len hs (get16 buffer 12) g d = (r, d')"
    and pass: "g = Gate_pass \<Longrightarrow> get16 buffer 12 = md_rx_seq (ul_muxdev d) + 1"
    and len: "unat (get32 buffer 4) = len" for hs g
  proof (cases g)
    case Gate_pass
    with run pass len show thesis by (intro passes) (auto simp: data_gated_def)
  next
    case Gate_wait
    show thesis
      by (rule nothing) (use run Gate_wait in \<open>auto simp: data_gated_def\<close>)
  next
    case Gate_discard
    show thesis
      by (rule nothing) (use run Gate_discard in \<open>auto simp: data_gated_def\<close>)
  qed
  from assms(1) consider
      (e) "data_input_enter env buffer len d = (r, d')"
    | (w) hs where "unat (get32 buffer 4) = len"
        "data_input_resume env buffer len hs (get16 buffer 12) d = (r, d')"
    by (auto simp: gated_call_def)
  then show thesis
  proof cases
    case e
    show thesis
    proof (cases "0 < len \<and> len \<le> USB_MRU \<and> len \<le> DEV_MRU \<and> unat (get32 buffer 4) = len")
      case True
      with e assms(2) have "data_gated env buffer len (mux_header_size (md_version (ul_muxdev d)))
          (get16 buffer 12)
          (rx_gate_enter (md_rx_seq (ul_muxdev d)) (get16 buffer 12) (card (ud_rx_xfers d))) d = (r, d')"
        by (simp add: data_input_enter_def Let_def)
      then show thesis
        by (rule gate) (use True in \<open>auto simp: rx_gate_enter_def split: if_splits\<close>)
    next
      case False
      show thesis
        by (rule nothing) (use e False in \<open>auto simp: data_input_enter_def Let_def split: if_splits\<close>)
    qed
  next
    case w
    show thesis
      by (rule gate [OF w(2) [unfolded data_input_resume_def]])
        (use w(1) in \<open>auto simp: rx_gate_resume_def split: if_splits\<close>)
  qed
qed

text \<open>
  C6: on an active version 2 device a transfer either leaves the device exactly as it was (it waits,
  is a duplicate or is refused) or it is the one packet whose sequence number is next, and the device
  then counts it: packets are accepted once each and in the order of their numbers.
\<close>

theorem rx_accepts_only_next:
  assumes "gated_call env buffer len d (r, d')" and "2 \<le> md_version (ul_muxdev d)"
    and "ud_state d = MUXDEV_ACTIVE"
  shows "d' = d \<or> (get16 buffer 12 = md_rx_seq (ul_muxdev d) + 1
    \<and> md_rx_seq (ul_muxdev d') = md_rx_seq (ul_muxdev d) + 1)"
  using assms(1,2)
proof (cases rule: gated_call_cases)
  case (passes hs)
  with data_accept_rx_seq [OF passes(3)] assms(3) show ?thesis by simp
qed simp

text \<open>
  The code for broken up transfers is never reached: a packet's length field has to equal the
  length of the transfer, so a device that has gathered nothing never starts to.
\<close>

theorem reassembly_unreachable:
  assumes "gated_call env buffer len d (r, d')" and "2 \<le> md_version (ul_muxdev d)"
    and "md_pktlen (ul_muxdev d) = 0"
  shows "md_pktlen (ul_muxdev d') = 0 \<and> md_pktbuf (ul_muxdev d') = md_pktbuf (ul_muxdev d)"
  using assms(1,2)
proof (cases rule: gated_call_cases)
  case (passes hs)
  let ?d = "d\<lparr>ul_muxdev := (ul_muxdev d)\<lparr>md_rx_seq := get16 buffer 12\<rparr>\<rparr>"
  obtain g m where gather: "gather buffer len (ul_muxdev ?d) = (g, m)" by (metis prod.exhaust)
  with gather_whole [OF gather passes(2)] assms(3) have "g = Inr (Gathered len)" "m = ul_muxdev ?d"
    by simp_all
  with gather passes(3) obtain x where "dispatch env buffer len hs ?d = (x, d')"
    by (auto simp: data_accept_def split: prod.splits sum.splits)
  from dispatch_receiving [OF this] assms(3) show ?thesis by simp
qed (use assms(3) in simp)

section \<open>Version handshake and unclaimed segments\<close>

text \<open>
  C11: the version handshake. A second version packet is refused, an unknown version kills the device,
  version 1 activates it as it is, version 2 after one SETUP packet that carries transmit number 0 and
  receive number 0xffff, so that the numbers of what follows start at 1 (sent) and 0 (expected). Only
  an activated device is handed to the muxer.
\<close>

theorem version_handshake:
  "case device_version_input env vh d of (r, d') \<Rightarrow>
     if ud_state d \<noteq> MUXDEV_INIT then r = Inl Already_initialised \<and> d' = d
     else if vh_major vh \<notin> {1, 2} then r = Inr () \<and> d' = usbdev_kill d
     else if vh_major vh = 1
     then r = Inr () \<and> ud_state d' = MUXDEV_ACTIVE \<and> md_version (ul_muxdev d') = 1
       \<and> ul_usb_out d' = ul_usb_out d \<and> ud_mux_calls d' = ud_mux_calls d @ [Mux_add_device]
     else (case r of
         Inl e \<Rightarrow> link_condemned d' \<and> ud_state d' = MUXDEV_INIT \<and> ud_mux_calls d' = ud_mux_calls d
       | Inr u \<Rightarrow> ud_state d' = MUXDEV_ACTIVE \<and> ud_mux_calls d' = ud_mux_calls d @ [Mux_add_device]
           \<and> md_version (ul_muxdev d') = 2 \<and> md_tx_seq (ul_muxdev d') = 1
           \<and> md_rx_seq (ul_muxdev d') = 0xffff)"
proof (cases "ud_state d = MUXDEV_INIT \<and> vh_major vh = 2")
  case True
  let ?d = "d\<lparr>ul_muxdev := (ul_muxdev d)\<lparr>md_version := 2\<rparr>\<rparr>"
  obtain r d2 where run: "send_packet env MUX_PROTO_SETUP [7] None ?d = (r, d2)"
    by (metis prod.exhaust)
  have more: "usblink.more d2 = usblink.more ?d" by (rule send_packet_more [OF run])
  have small: "packet_length (md_version (ul_muxdev ?d)) [7] None \<le> USB_MTU"
    by (simp add: packet_length_def mux_header_size_def struct_sizes usb_limits)
  from more have same: "ud_state d2 = MUXDEV_INIT" "ud_mux_calls d2 = ud_mux_calls d"
    using True by (cases d2; cases d; simp)+
  show ?thesis
  proof (cases r)
    case (Inl e)
    with send_packet_condemned [OF _ small] run have "link_condemned d2" by blast
    with True run Inl same show ?thesis by (simp add: device_version_input_def)
  next
    case (Inr u)
    with send_packet_muxdev_ok run have "ul_muxdev d2 = snd (stamp_header MUX_PROTO_SETUP
        (packet_length 2 [7] None) (ul_muxdev ?d))" by fastforce
    with True run Inr same show ?thesis
      by (simp add: device_version_input_def mux_add_device_def stamp_header_def Let_def)
  qed
next
  case False
  then show ?thesis
    by (auto simp: device_version_input_def mux_add_device_def Let_def)
qed

text \<open>
  A segment for a port without a connection is answered by at most one segment, a reset with the
  ports and the sequence numbers of the offender exchanged; the connections stay as they are and the
  receiver goes on even where the reset could not be sent.
\<close>

theorem unclaimed_segment_reset:
  assumes "get32 buffer 0 = proto_code MUX_PROTO_TCP" and "hs + sizeof_tcphdr \<le> len"
    and "map_of (ud_conns d) (th_dport (decode_tcphdr buffer hs)) = None"
    and "dispatch env buffer len hs d = (r, d')"
  shows "r = Inr DP_done \<and> ud_conns d' = ud_conns d
    \<and> (tcp_sent d' = tcp_sent d \<or> (\<exists>rst. tcp_sent d' = tcp_sent d @ [(rst, [])]
        \<and> th_flags rst = TH_RST \<and> th_sport rst = th_dport (decode_tcphdr buffer hs)
        \<and> th_dport rst = th_sport (decode_tcphdr buffer hs)
        \<and> th_seq rst = th_ack (decode_tcphdr buffer hs) \<and> th_ack rst = th_seq (decode_tcphdr buffer hs)))
    \<and> (tcp_sent d' = tcp_sent d \<longrightarrow> link_condemned d')"
proof -
  let ?h = "decode_tcphdr buffer hs"
  define rst where "rst = tcphdr_zero\<lparr>th_sport := th_dport ?h, th_dport := th_sport ?h,
    th_seq := th_ack ?h, th_ack := th_seq ?h, th_flags := TH_RST,
    th_off := of_nat (sizeof_tcphdr div 4), th_win := th_win ?h\<rparr>"
  obtain x d2 where run: "dev_send (usb_ops env) [] rst d = (x, d2)" by (metis prod.exhaust)
  from run assms have out: "r = Inr DP_done" "d' = d2"
    by (auto simp: dispatch_def send_RST_def rst_def Let_def)
  from run have "usblink.more d2 = usblink.more d"
    by (auto simp: usb_ops_def intro: send_packet_more)
  then have "ud_conns d2 = ud_conns d" by (cases d2; cases d; simp)
  moreover have "sizeof_mux_header + sizeof_tcphdr + length ([] :: bytes) \<le> USB_MTU"
    by (simp add: struct_sizes usb_limits)
  then have "tcp_sent d2 = tcp_sent d \<longrightarrow> link_condemned d2"
    using usb.send_err_condemned [of env "[]" rst d _ d2] usb.send_ok [of env "[]" rst d _ d2] run
    by (cases x) auto
  moreover have "tcp_sent d2 = tcp_sent d \<or> tcp_sent d2 = tcp_sent d @ [(rst, [])]"
    using usb.send_extends [OF run] by auto
  ultimately show ?thesis
    using out by (auto simp: rst_def)
qed

section \<open>Ports\<close>

lemma find_port_ok: "find_port used did p = (Inr q, p') \<Longrightarrow> q \<noteq> 0 \<and> q \<notin> set used \<and> p' = q"
proof (induction used did p rule: find_port.induct)
  case (1 used did p)
  then show ?case
    by (subst (asm) (3) find_port.simps) (auto split: if_splits)
qed

text \<open>Where the search fails, it has seen every port from \<open>p\<close> on, and all of them unless it started late.\<close>

lemma find_port_fails:
  "find_port used did p = (Inl e, p') \<Longrightarrow>
   \<forall>q. q \<noteq> 0 \<longrightarrow> (did \<longrightarrow> p \<noteq> 0 \<and> p \<le> q) \<longrightarrow> q \<in> set used"
proof (induction used did p rule: find_port.induct)
  case (1 used did p)
  have split: "find_port used did p = (if p \<in> set used \<or> p = 0
      then if p = 0 then if did then (Inl No_free_port, p) else find_port used True (p + 1)
           else find_port used did (p + 1) else (Inr p, p))"
    by (rule find_port.simps)
  have up: "p + 1 \<noteq> 0 \<and> p + 1 \<le> q" if "p < q" for q :: u16
  proof -
    have "unat p < unat q" "unat q < 65536"
      using that unat_lt_u16 [of q] by (auto simp: word_less_nat_alt)
    then show ?thesis
      using u16_succ_unat [of p] by (auto simp: word_le_nat_alt)
  qed
  consider "p = 0" "did" | "p = 0" "\<not> did" | "p \<noteq> 0" "p \<in> set used" | "p \<noteq> 0" "p \<notin> set used" by blast
  then show ?case
  proof cases
    case 1
    then show ?thesis by simp
  next
    case 2
    with "1.prems" split have fails: "find_port used True (p + 1) = (Inl e, p')" by simp
    have "1 \<le> q" if "q \<noteq> 0" for q :: u16
      using up [of q] that 2 by (simp add: word_gt_0)
    with "1.IH"(1) [OF _ 2 fails] 2 show ?thesis by simp
  next
    case 3
    with "1.prems" split have "find_port used did (p + 1) = (Inl e, p')" by simp
    with 3 "1.IH"(2) have IH: "\<forall>q. q \<noteq> 0 \<longrightarrow> (did \<longrightarrow> p + 1 \<noteq> 0 \<and> p + 1 \<le> q) \<longrightarrow> q \<in> set used"
      by simp
    show ?thesis
    proof (intro allI impI)
      fix q assume q: "q \<noteq> 0" "did \<longrightarrow> p \<noteq> 0 \<and> p \<le> q"
      show "q \<in> set used"
        using IH q up [of q] 3(2) by (cases "q = p") (auto simp: less_le)
    qed
  next
    case 4
    with split "1.prems" show ?thesis by simp
  qed
qed

lemma nonzero_ports: "card {q :: u16. q \<noteq> 0} = 65535"
proof -
  have "{q :: u16. q \<noteq> 0} = UNIV - {0}" by auto
  then show ?thesis by (simp add: card_Diff_subset card_word)
qed

lemma find_port_total:
  assumes "length used < MAX_CONNS"
  shows "\<exists>q. find_port used False p = (Inr q, q)"
proof (cases "find_port used False p")
  case (Pair r p')
  show ?thesis
  proof (cases r)
    case (Inl e)
    with Pair find_port_fails have "{q. q \<noteq> 0} \<subseteq> set used" by fastforce
    then have "65535 \<le> card (set used)"
      using card_mono [of "set used" "{q. q \<noteq> 0}"] by (simp add: nonzero_ports)
    with card_length [of used] assms show ?thesis by (simp add: MAX_CONNS_def)
  next
    case (Inr q)
    with Pair find_port_ok show ?thesis by fastforce
  qed
qed

text \<open>
  C10: a connection gets a port of its own. Below the limit the search for a port always ends with a
  port that is not 0 and that no connection has; the new connection is the only change to the map. At
  the limit the device is left as it was.
\<close>

theorem add_connection_fresh:
  "case add_connection mem rnd dport d of (r, d') \<Rightarrow>
     if length (ud_conns d) < MAX_CONNS
     then \<exists>sp. r = Inr sp \<and> sp \<noteq> 0 \<and> map_of (ud_conns d) sp = None
       \<and> map_of (ud_conns d') = (map_of (ud_conns d))(sp \<mapsto> new_tcp mem rnd sp dport)
       \<and> length (ud_conns d') = Suc (length (ud_conns d))
       \<and> (distinct (map fst (ud_conns d)) = distinct (map fst (ud_conns d')))
     else r = Inl Too_many_connections \<and> d' = d"
proof (cases "length (ud_conns d) < MAX_CONNS")
  case True
  let ?used = "map fst (ud_conns d)"
  from True find_port_total [of ?used] obtain sp where
    sp: "find_port ?used False (ud_nextPort d) = (Inr sp, sp)" by auto
  with find_port_ok have fresh: "sp \<noteq> 0" "sp \<notin> set ?used" by blast+
  let ?conns = "AList.update sp (new_tcp mem rnd sp dport) (ud_conns d)"
  have keys: "map fst ?conns = ?used @ [sp]" using fresh by (simp add: update_keys)
  from keys have "length ?conns = Suc (length (ud_conns d))" by (metis length_map length_append_singleton)
  moreover have "distinct (map fst ?conns) = distinct ?used" using keys fresh by simp
  ultimately show ?thesis
    using True sp fresh
    by (simp add: add_connection_def update_conv' map_of_eq_None_iff)
qed (simp add: add_connection_def)

section \<open>Tearing down\<close>

lemma run_reaper_drains:
  assumes "n = length (ul_reapConnections d) - ud_reaped d" and "ud_reaped d \<le> length (ul_reapConnections d)"
    and "\<forall>(p, c) \<in> set (ud_conns d). \<not> tc_lockStx c"
    and "fst ` set (ud_conns d) \<subseteq> set (drop (ud_reaped d) (ul_reapConnections d))"
  shows "ud_conns (run_reaper n d) = []"
  using assms
proof (induction n arbitrary: d)
  case 0
  then show ?case by auto
next
  case (Suc n)
  let ?R = "ul_reapConnections d" and ?i = "ud_reaped d"
  let ?d = "d\<lparr>ud_reaped := Suc ?i, ud_conns := AList.delete (?R ! ?i) (ud_conns d)\<rparr>"
  have i: "?i < length ?R" using Suc.prems(1) by simp
  have step: "reaper_step d = Some ?d"
    using i Suc.prems(3) by (auto simp: reaper_step_def Let_def split: option.splits dest!: map_of_SomeD)
  have sub: "set (ud_conns ?d) \<subseteq> set (ud_conns d)" by (auto simp: AList.delete_eq)
  have "fst ` set (ud_conns ?d) \<subseteq> set (drop (Suc ?i) ?R)"
  proof -
    have "drop ?i ?R = ?R ! ?i # drop (Suc ?i) ?R" using i by (simp add: Cons_nth_drop_Suc)
    with Suc.prems(4) show ?thesis by (auto simp: AList.delete_eq)
  qed
  moreover have "\<forall>(p, c) \<in> set (ud_conns ?d). \<not> tc_lockStx c"
    using Suc.prems(3) sub by blast
  ultimately have "ud_conns (run_reaper n ?d) = []"
    using Suc.prems(1) i by (intro Suc.IH) auto
  with step show ?case by simp
qed

text \<open>
  C38: \<open>deconstruct\<close> returns. Once it has posted the ports of all connections, the reaper takes every
  one of them down and empties the map its waiting loop looks at, where no connection's lock was left
  locked; the muxer was told, and every transfer in flight cancelled, before that.
\<close>

theorem deconstruct_terminates:
  assumes "ud_reaped d \<le> length (ul_reapConnections d)"
    and "\<forall>(p, c) \<in> set (ud_conns d). \<not> tc_lockStx c"
  shows "deconstruct_done (run_reaper (length (ul_reapConnections d) + length (ud_conns d) - ud_reaped d)
      (usbdev_deconstruct d))"
  unfolding deconstruct_done_def
  by (rule run_reaper_drains) (use assms in \<open>auto simp: usbdev_deconstruct_def\<close>)

lemma reaper_step_locked:
  assumes "reaper_step d = Some d'" and "map_of (ud_conns d) p = Some c" and "tc_lockStx c"
  shows "map_of (ud_conns d') p = Some c"
  using assms by (auto simp: reaper_step_def Let_def delete_conv' split: if_splits option.splits)

text \<open>
  A connection whose lock a failed \<open>send_data\<close> left locked is never taken down: the reaper does
  not get past it and \<open>deconstruct\<close> waits forever.
\<close>

theorem leaked_lock_blocks_deconstruct:
  assumes "map_of (ud_conns d) p = Some c" and "tc_lockStx c"
  shows "\<not> deconstruct_done (run_reaper n (usbdev_deconstruct d))"
proof -
  have "map_of (ud_conns (run_reaper n e)) p = Some c" if "map_of (ud_conns e) p = Some c" for e
    using that
    by (induction n arbitrary: e) (auto intro: reaper_step_locked [OF _ _ assms(2)] split: option.splits)
  moreover have "map_of (ud_conns (usbdev_deconstruct d)) p = Some c"
    using assms(1) by (simp add: usbdev_deconstruct_def)
  ultimately have "map_of (ud_conns (run_reaper n (usbdev_deconstruct d))) p = Some c" by blast
  then show ?thesis by (auto simp: deconstruct_done_def)
qed

section \<open>Concrete runs\<close>

text \<open>A device whose expected number is 4, with one connection on port 5 and one post not yet taken.\<close>

definition ex_dev :: usbdev where
  "ex_dev = usblink.extend ex_link (usbdev.fields MUXDEV_ACTIVE [(5, ex_tcp)] 5 {0, 1, 2} 0 [] {})"

definition ex_packet :: "u32 \<Rightarrow> u16 \<Rightarrow> bytes \<Rightarrow> bytes" where
  "ex_packet proto txseq rest = encode_mux_v2 \<lparr>h1_protocol = proto,
     h1_length = of_nat (16 + length rest), h2_magic = MUX_MAGIC, h2_tx_seq = txseq, h2_rx_seq = 0\<rparr> @ rest"

lemmas ex_dev_eval = ex_dev_def usblink.extend_def usbdev.fields_def ex_link_def

lemma rx_gate_near_wrap_witness:
  "rx_must_wait 65532 65533 3 = (unat (65532 + 1 :: u16) + 3 < 65536 \<longrightarrow> (65532 + 1 :: u16) < 65533)
   \<and> rx_must_wait 65532 65533 3"
  using rx_gate_near_wrap [of 3 65532 65533] by simp

lemma ex_call:
  obtains d' where "gated_call ex_env (ex_packet 99 4 []) 16 ex_dev (Inr (DI_out DP_done), d')" "d' \<noteq> ex_dev"
proof -
  have "data_input_enter ex_env (ex_packet 99 4 []) 16 ex_dev
      = (Inr (DI_out DP_done), ex_dev\<lparr>ul_muxdev := (ul_muxdev ex_dev)\<lparr>md_rx_seq := 4\<rparr>\<rparr>)"
    by (simp add: ex_packet_def ex_dev_eval data_input_enter_def data_gated_def data_accept_def gather_def
        dispatch_def rx_gate_enter_def encode_mux_v2_def field_simps_be usb_limits mux_header_size_def
        struct_sizes Let_def)
  then show thesis by (intro that) (auto simp: gated_call_def ex_dev_eval)
qed

lemma rx_accepts_only_next_witness:
  "\<exists>r d'. gated_call ex_env (ex_packet 99 4 []) 16 ex_dev (r, d') \<and> md_rx_seq (ul_muxdev d') = 4"
proof -
  obtain d' where run: "gated_call ex_env (ex_packet 99 4 []) 16 ex_dev (Inr (DI_out DP_done), d')"
    "d' \<noteq> ex_dev" by (rule ex_call)
  have "2 \<le> md_version (ul_muxdev ex_dev)" "ud_state ex_dev = MUXDEV_ACTIVE" "md_rx_seq (ul_muxdev ex_dev) = 3"
    by (simp_all add: ex_dev_eval)
  with rx_accepts_only_next [OF run(1)] run show ?thesis by (intro exI [of _ d'] exI) auto
qed

lemma reassembly_unreachable_witness:
  "\<exists>r d'. gated_call ex_env (ex_packet 99 4 []) 16 ex_dev (r, d') \<and> d' \<noteq> ex_dev \<and> md_pktlen (ul_muxdev d') = 0"
proof -
  obtain d' where run: "gated_call ex_env (ex_packet 99 4 []) 16 ex_dev (Inr (DI_out DP_done), d')"
    "d' \<noteq> ex_dev" by (rule ex_call)
  have "2 \<le> md_version (ul_muxdev ex_dev)" "md_pktlen (ul_muxdev ex_dev) = 0"
    by (simp_all add: ex_dev_eval)
  with reassembly_unreachable [OF run(1)] run show ?thesis by blast
qed

lemma unclaimed_segment_reset_witness:
  "\<exists>r d'. dispatch ex_env (ex_packet 6 4 (encode_tcphdr (tcphdr_zero\<lparr>th_dport := 9\<rparr>))) 36 16 ex_dev = (r, d')
    \<and> r = Inr DP_done \<and> ud_conns d' = ud_conns ex_dev"
proof -
  let ?b = "ex_packet 6 4 (encode_tcphdr (tcphdr_zero\<lparr>th_dport := 9\<rparr>))"
  obtain r d' where run: "dispatch ex_env ?b 36 16 ex_dev = (r, d')" by (metis prod.exhaust)
  have proto: "get32 ?b 0 = proto_code MUX_PROTO_TCP"
    by (simp add: ex_packet_def encode_mux_v2_def field_simps_be)
  have "decode_tcphdr ?b 16 = tcphdr_zero\<lparr>th_dport := 9\<rparr>"
    using decode_tcphdr_at [of "encode_mux_v2 \<lparr>h1_protocol = 6, h1_length = 36, h2_magic = MUX_MAGIC, h2_tx_seq = 4, h2_rx_seq = 0\<rparr>" 16 _ "[]"]
    by (simp add: ex_packet_def struct_sizes)
  then have "map_of (ud_conns ex_dev) (th_dport (decode_tcphdr ?b 16)) = None"
    by (simp add: ex_dev_eval)
  from unclaimed_segment_reset [OF proto _ this run] run show ?thesis
    by (simp add: struct_sizes)
qed

lemma deconstruct_terminates_witness:
  "deconstruct_done (run_reaper 1 (usbdev_deconstruct ex_dev))"
  using deconstruct_terminates [of ex_dev] by (simp add: ex_dev_eval ex_tcp_def new_tcp_def)

lemma leaked_lock_blocks_deconstruct_witness:
  "\<not> deconstruct_done (run_reaper 100 (usbdev_deconstruct
      (ex_dev\<lparr>ud_conns := [(5, ex_tcp\<lparr>tc_lockStx := True\<rparr>)]\<rparr>)))"
  by (rule leaked_lock_blocks_deconstruct [where p = 5]) auto

end
