(* ===== verification/USB_Manager.thy ===== *)
theory USB_Manager
  imports USB_Device Muxer
begin

text \<open>
  The manager of USB devices, \<^verbatim>\<open>Manager/USBDeviceManager.cpp\<close>: hotplug events, the selection of a device
  and of its interface (\<open>device_add\<close>), the set of devices under construction, the two control
  transfers that read the serial number, and the receive transfers. libusb is a parameter: a device is
  the record of the answers it gives to the calls \<open>device_add\<close> makes.
\<close>

section \<open>What libusb says of a device\<close>

definition VID_APPLE :: u16 where "VID_APPLE = 0x5ac"
definition PID_RANGE_LOW :: u16 where "PID_RANGE_LOW = 0x1290"
definition PID_RANGE_MAX :: u16 where "PID_RANGE_MAX = 0x12af"
definition INTERFACE_CLASS :: u8 where "INTERFACE_CLASS = 255"
definition INTERFACE_SUBCLASS :: u8 where "INTERFACE_SUBCLASS = 254"
definition INTERFACE_PROTOCOL :: u8 where "INTERFACE_PROTOCOL = 2"

datatype libusb_speed = SPEED_UNKNOWN | SPEED_LOW | SPEED_FULL | SPEED_HIGH | SPEED_SUPER

record usb_devdesc =
  dd_idVendor :: u16
  dd_idProduct :: u16
  dd_bNumConfigurations :: u8
  dd_iSerialNumber :: u8

text \<open>An interface's first alternate setting; the endpoints are their addresses.\<close>

record usb_intf =
  if_number :: u8
  if_class :: u8
  if_subclass :: u8
  if_protocol :: u8
  if_endpoints :: "u8 list"

text \<open>
  \<open>None\<close> and \<open>False\<close> are an error code; \<open>ld_old_config\<close> is the active configuration before it is changed
  and \<open>ld_config\<close> the one at the end.
\<close>

record libusb_dev =
  ld_bus :: u8
  ld_address :: u8
  ld_descriptor :: "usb_devdesc option"
  ld_open :: bool
  ld_configuration :: "int option"
  ld_old_config :: "usb_intf list option"
  ld_kernel_driver :: "u8 \<Rightarrow> int"
  ld_set_configuration :: bool
  ld_config :: "usb_intf list option"
  ld_claim :: "u8 \<Rightarrow> bool"
  ld_alloc_transfer :: bool
  ld_max_packet_size :: "u8 \<Rightarrow> int"
  ld_speed :: libusb_speed
  ld_submit :: bool

section \<open>State\<close>

text \<open>The fields of \<open>USBDevice\<close> that \<open>device_add\<close> fills in.\<close>

record usb_info =
  ui_pid :: u16
  ui_bus :: u8
  ui_address :: u8
  ui_interface :: u8
  ui_ep_out :: u8
  ui_ep_in :: u8
  ui_devdesc :: usb_devdesc
  ui_speed :: u64
  ui_serial :: string

datatype construction = Asks_langid | Asks_serial u16

text \<open>
  A device under construction: its fields, its link and the control transfer it waits for. \<open>um_pending\<close>
  are the devices a control transfer is under way for, by the pointer of the transfer,
  \<open>um_constructing\<close> the set of that name, \<open>um_detached\<close> the interfaces whose kernel driver was
  detached.
\<close>

record pending =
  pd_info :: usb_info
  pd_dev :: usbdev
  pd_phase :: construction

record usb_manager =
  um_constructing :: "u16 set"
  um_pending :: "(nat \<times> pending) list"
  um_next :: nat
  um_detached :: "(u8 \<times> u8 \<times> u8) list"
  um_mux :: muxer

definition constructing_key :: "u8 \<Rightarrow> u8 \<Rightarrow> u16" where
  "constructing_key bus addr = ucast (push_bit 16 (ucast bus :: u32)) OR ucast addr"

definition add_constructing :: "u8 \<Rightarrow> u8 \<Rightarrow> usb_manager \<Rightarrow> usb_manager" where
  "add_constructing bus addr s = s\<lparr>um_constructing := insert (constructing_key bus addr) (um_constructing s)\<rparr>"

definition del_constructing :: "u8 \<Rightarrow> u8 \<Rightarrow> usb_manager \<Rightarrow> usb_manager" where
  "del_constructing bus addr s = s\<lparr>um_constructing := um_constructing s - {constructing_key bus addr}\<rparr>"

definition is_constructing :: "u8 \<Rightarrow> u8 \<Rightarrow> usb_manager \<Rightarrow> bool" where
  "is_constructing bus addr s \<longleftrightarrow> constructing_key bus addr \<in> um_constructing s"

section \<open>Adding a device\<close>

definition is_out :: "u8 \<Rightarrow> bool" where "is_out ep \<longleftrightarrow> ep AND 0x80 = 0"
definition is_in :: "u8 \<Rightarrow> bool" where "is_in ep \<longleftrightarrow> ep AND 0x80 = 0x80"

text \<open>The loop over the interfaces: number, endpoint out and endpoint in of the first suitable one.\<close>

fun find_interface :: "usb_intf list \<Rightarrow> (u8 \<times> u8 \<times> u8) option" where
  "find_interface [] = None"
| "find_interface (i # is) =
     (if if_class i \<noteq> INTERFACE_CLASS \<or> if_subclass i \<noteq> INTERFACE_SUBCLASS
         \<or> if_protocol i \<noteq> INTERFACE_PROTOCOL then find_interface is
      else if length (if_endpoints i) \<noteq> 2 then find_interface is
      else let ep0 = if_endpoints i ! 0; ep1 = if_endpoints i ! 1 in
        if is_out ep0 \<and> is_in ep1 then Some (if_number i, ep0, ep1)
        else if is_out ep1 \<and> is_in ep0 then Some (if_number i, ep1, ep0)
        else find_interface is)"

text \<open>Setting the last configuration, where it is not the current one.\<close>

definition set_configuration :: "libusb_dev \<Rightarrow> usb_devdesc \<Rightarrow> int \<Rightarrow> (usb_manager, unit) act" where
  "set_configuration ld desc current s =
     (if current = uint (dd_bNumConfigurations desc) then (Inr (), s)
      else let s1 = (case ld_old_config ld of
               None \<Rightarrow> s
             | Some intfs \<Rightarrow> s\<lparr>um_detached := um_detached s
                 @ map (\<lambda>i. (ld_bus ld, ld_address ld, if_number i))
                     (filter (\<lambda>i. ld_kernel_driver ld (if_number i) = 1) intfs)\<rparr>)
           in if ld_set_configuration ld then (Inr (), s1) else (Inl Configuration_failed, s1))"

definition usb_speed :: "libusb_speed \<Rightarrow> u64" where
  "usb_speed sp = (case sp of SPEED_LOW \<Rightarrow> 1500000 | SPEED_FULL \<Rightarrow> 12000000
     | SPEED_SUPER \<Rightarrow> 5000000000 | SPEED_HIGH \<Rightarrow> 480000000 | SPEED_UNKNOWN \<Rightarrow> 480000000)"

definition packet_size :: "libusb_dev \<Rightarrow> u8 \<Rightarrow> nat" where
  "packet_size ld ep = (if ld_max_packet_size ld ep \<le> 0 then 64 else nat (ld_max_packet_size ld ep))"

definition new_usbdev :: "bytes \<Rightarrow> nat \<Rightarrow> usbdev" where
  "new_usbdev pktbuf wMaxPacketSize = \<lparr>ul_muxdev = \<lparr>md_version = 0, md_pktbuf = pktbuf, md_pktlen = 0,
       md_tx_seq = 0, md_rx_seq = 0\<rparr>,
     ul_wMaxPacketSize = wMaxPacketSize, ul_tx_xfers = {}, ul_next_xfer = 0, ul_usb_out = [],
     ul_reapConnections = [], ul_killed = 0, ud_state = MUXDEV_INIT, ud_conns = [], ud_nextPort = 0,
     ud_rx_xfers = {}, ud_reaped = 0, ud_mux_calls = [], ud_cancelled = {}\<rparr>"

text \<open>The end of \<open>device_add\<close>: a device whose interface was found is claimed and its first transfer submitted.\<close>

definition start_construction ::
    "bytes \<Rightarrow> libusb_dev \<Rightarrow> usb_devdesc \<Rightarrow> u8 \<times> u8 \<times> u8 \<Rightarrow> (usb_manager, unit) act" where
  "start_construction pktbuf ld desc found s =
     (case found of (ifc, ep_out, ep_in) \<Rightarrow>
        if \<not> ld_claim ld ifc then (Inl Claim_failed, s)
        else if \<not> ld_alloc_transfer ld then (Inl Alloc_transfer_failed, s)
        else if \<not> ld_submit ld then (Inl Transfer_failed, s)
        else
          let info = \<lparr>ui_pid = dd_idProduct desc, ui_bus = ld_bus ld, ui_address = ld_address ld,
                ui_interface = ifc, ui_ep_out = ep_out, ui_ep_in = ep_in, ui_devdesc = desc,
                ui_speed = usb_speed (ld_speed ld), ui_serial = []\<rparr>;
              pd = \<lparr>pd_info = info, pd_dev = new_usbdev pktbuf (packet_size ld ep_out), pd_phase = Asks_langid\<rparr>
          in (Inr (), add_constructing (ld_bus ld) (ld_address ld)
                (s\<lparr>um_pending := um_pending s @ [(um_next s, pd)], um_next := Suc (um_next s)\<rparr>)))"

definition device_add :: "bytes \<Rightarrow> libusb_dev \<Rightarrow> (usb_manager, unit) act" where
  "device_add pktbuf ld s =
     (let bus = ld_bus ld; address = ld_address ld in
      if \<not> address > 0 then (Inl Assure_failed, s)
      else if have_usb_device bus address (um_mux s) \<or> is_constructing bus address s then (Inr (), s)
      else case ld_descriptor ld of
        None \<Rightarrow> (Inl Descriptor_failed, s)
      | Some desc \<Rightarrow>
          if dd_idVendor desc \<noteq> VID_APPLE then (Inl Not_an_apple_device, s)
          else if \<not> (dd_idProduct desc \<ge> PID_RANGE_LOW \<and> dd_idProduct desc \<le> PID_RANGE_MAX)
          then (Inl Product_not_observed, s)
          else if \<not> ld_open ld then (Inl Open_failed, s)
          else (case ld_configuration ld of
            None \<Rightarrow> (Inl Configuration_failed, s)
          | Some current \<Rightarrow>
              thenE (set_configuration ld desc current) (\<lambda>_ s.
                case ld_config ld of
                  None \<Rightarrow> (Inl Configuration_failed, s)
                | Some intfs \<Rightarrow>
                    (case find_interface intfs of
                       None \<Rightarrow> (Inl No_usb_interface, s)
                     | Some found \<Rightarrow> start_construction pktbuf ld desc found s)) s))"

section \<open>Hotplug\<close>

datatype hotplug_event = DEVICE_ARRIVED | DEVICE_LEFT | OTHER_EVENT

definition usb_hotplug_cb ::
    "'p mux_env \<Rightarrow> bytes \<Rightarrow> libusb_dev \<Rightarrow> hotplug_event \<Rightarrow> usb_manager \<Rightarrow> usb_manager" where
  "usb_hotplug_cb env pktbuf ld event s =
     (case event of
        DEVICE_ARRIVED \<Rightarrow> snd (device_add pktbuf ld s)
      | DEVICE_LEFT \<Rightarrow> s\<lparr>um_mux := delete_device_at env (ld_bus ld) (ld_address ld) (um_mux s)\<rparr>
      | OTHER_EVENT \<Rightarrow> s)"

section \<open>Reading the serial number\<close>

definition end_construction :: "nat \<Rightarrow> pending \<Rightarrow> usb_manager \<Rightarrow> usb_manager" where
  "end_construction x pd s =
     (del_constructing (ui_bus (pd_info pd)) (ui_address (pd_info pd)) s)
       \<lparr>um_pending := AList.delete x (um_pending s)\<rparr>"

text \<open>
  The callback of the first transfer: \<open>data\<close> are the bytes read, \<open>submits\<close> whether the second transfer
  could be submitted. A device whose construction fails is gone with the transfer.
\<close>

definition usb_get_langid_callback ::
    "nat \<Rightarrow> libusb_transfer_status \<Rightarrow> bytes \<Rightarrow> bool \<Rightarrow> usb_manager \<Rightarrow> usb_manager" where
  "usb_get_langid_callback x status data submits s =
     (case map_of (um_pending s) x of
        None \<Rightarrow> s
      | Some pd \<Rightarrow>
          if status \<noteq> TRANSFER_COMPLETED then end_construction x pd s
          else let langid = (ucast (data ! 2) OR push_bit 8 (ucast (data ! 3)) :: u16) in
            if \<not> submits then end_construction x pd s
            else s\<lparr>um_pending := AList.update x (pd\<lparr>pd_phase := Asks_serial langid\<rparr>) (um_pending s)\<rparr>)"

definition serial_size :: nat where "serial_size = 256"

text \<open>The loop that takes the serial number out of a string descriptor; \<open>out\<close> is what it wrote.\<close>

function deunicode :: "bytes \<Rightarrow> nat \<Rightarrow> string \<Rightarrow> string" where
  "deunicode data si out =
     (if \<not> (si < unat (data ! 0) \<and> length out < serial_size - 1) then out
      else if data ! si AND 0x80 \<noteq> 0 \<or> data ! (si + 1) \<noteq> 0 then deunicode data (si + 2) (out @ ''?'')
      else if data ! si = 0 then out
      else deunicode data (si + 2) (out @ [char_of (unat (data ! si))]))"
  by pat_completeness auto

termination
  by (relation "measure (\<lambda>(data, si, out). unat (data ! 0) - si)") auto

declare deunicode.simps [simp del]

definition serial_of :: "bytes \<Rightarrow> string" where
  "serial_of data =
     (let s = deunicode data 2 [] in
      if length s = 24 then take 8 s @ ''-'' @ drop 8 s else s)"

section \<open>Receive transfers\<close>

text \<open>
  \<open>usb_start_rx_loop\<close> with the transfer \<open>x\<close>, where \<open>starts\<close> says whether libusb took it. A transfer that
  could not be submitted leaves the set again.
\<close>

definition usb_start_rx_loop :: "nat \<Rightarrow> bool \<Rightarrow> (usbdev, unit) act" where
  "usb_start_rx_loop x starts d =
     (let d1 = d\<lparr>ud_rx_xfers := insert x (ud_rx_xfers d)\<rparr> in
      if starts then (Inr (), d1)
      else (Inl Transfer_failed, d1\<lparr>ud_rx_xfers := ud_rx_xfers d1 - {x}\<rparr>))"

text \<open>The loop of \<open>usb_get_serial_callback\<close>: \<open>rx_loops\<close> counts its rounds.\<close>

fun start_rx_loops :: "(nat \<Rightarrow> bool) \<Rightarrow> nat \<Rightarrow> nat \<Rightarrow> usbdev \<Rightarrow> nat \<times> usbdev" where
  "start_rx_loops starts 0 rx_loops d = (rx_loops, d)"
| "start_rx_loops starts (Suc n) rx_loops d =
     start_rx_loops starts n (Suc rx_loops) (snd (usb_start_rx_loop rx_loops (starts rx_loops) d))"

definition finish_device :: "libusb_env \<Rightarrow> (nat \<Rightarrow> bool) \<Rightarrow> (usbdev, unit) act" where
  "finish_device lib starts d =
     (case start_rx_loops starts NUM_RX_LOOPS 0 d of
        (rx_loops, d1) \<Rightarrow> if rx_loops = 0 then (Inl No_rx_loop, d1) else mux_init lib d1)"

text \<open>
  The callback of the second transfer. Its result is the finished device, with its serial number, as it
  is when the transfer's reference to it goes away.
\<close>

definition usb_get_serial_callback ::
    "libusb_env \<Rightarrow> nat \<Rightarrow> libusb_transfer_status \<Rightarrow> bytes \<Rightarrow> (nat \<Rightarrow> bool) \<Rightarrow> usb_manager
      \<Rightarrow> (usb_info \<times> usbdev) option \<times> usb_manager" where
  "usb_get_serial_callback lib x status data starts s =
     (case map_of (um_pending s) x of
        None \<Rightarrow> (None, s)
      | Some pd \<Rightarrow>
          if status \<noteq> TRANSFER_COMPLETED then (None, end_construction x pd s)
          else (Some ((pd_info pd)\<lparr>ui_serial := serial_of data\<rparr>, snd (finish_device lib starts (pd_dev pd))),
                end_construction x pd s))"

text \<open>A receive transfer that is over: the result says whether it is posted to the receivers.\<close>

definition rx_callback :: "nat \<Rightarrow> libusb_transfer_status \<Rightarrow> usbdev \<Rightarrow> bool \<times> usbdev" where
  "rx_callback x status d =
     (if status = TRANSFER_COMPLETED then (True, d)
      else (False, usbdev_kill (d\<lparr>ud_rx_xfers := ud_rx_xfers d - {x}\<rparr>)))"

section \<open>Which devices are taken\<close>

definition suitable :: "usb_intf \<Rightarrow> bool" where
  "suitable i \<longleftrightarrow> if_class i = INTERFACE_CLASS \<and> if_subclass i = INTERFACE_SUBCLASS
     \<and> if_protocol i = INTERFACE_PROTOCOL
     \<and> length (if_endpoints i) = 2 \<and> is_out (if_endpoints i ! 0) \<noteq> is_out (if_endpoints i ! 1)"

lemma top_bit: "(b :: u8) AND 0x80 = (if bit b 7 then 0x80 else 0)"
proof -
  have b7: "bit (0x80 :: u8) n \<longleftrightarrow> n = 7" for n
    using bit_exp_iff [where 'a = u8, of 7 n] by auto
  show ?thesis
    by (rule bit_word_eqI) (simp only: bit_and_iff b7 bit_0_eq split: if_splits; blast)
qed

lemma in_or_out: "is_in ep \<longleftrightarrow> \<not> is_out ep"
  by (simp add: is_in_def is_out_def top_bit)

lemma find_interface_spec:
  "find_interface is = (case find suitable is of
     None \<Rightarrow> None
   | Some i \<Rightarrow> Some (if_number i, if is_out (if_endpoints i ! 0) then if_endpoints i ! 0 else if_endpoints i ! 1,
       if is_out (if_endpoints i ! 0) then if_endpoints i ! 1 else if_endpoints i ! 0))"
  by (induction "is") (simp_all add: suitable_def in_or_out Let_def)

text \<open>
  C40: the loop over the interfaces does what it is for: it is a search for the first interface of the
  right class with one endpoint in each direction, and gives the number of that interface and its two
  endpoints by their directions, in whatever order the descriptor lists them.
\<close>

theorem find_interface_reference:
  "find_interface is = map_option (\<lambda>i. (if_number i, hd (filter is_out (if_endpoints i)), hd (filter is_in (if_endpoints i))))
     (find suitable is)"
proof (cases "find suitable is")
  case (Some i)
  from find_at [OF Some] obtain a b where "if_endpoints i = [a, b]" "is_out a \<noteq> is_out b"
    by (auto simp: suitable_def length_Suc_conv eval_nat_numeral)
  with Some show ?thesis by (auto simp: find_interface_spec in_or_out)
qed (simp add: find_interface_spec)

lemma device_add_step:
  assumes run: "device_add pktbuf ld s = (r, s')"
  shows "um_pending s' = um_pending s \<and> um_constructing s' = um_constructing s \<and> um_next s' = um_next s
     \<or> um_next s' = Suc (um_next s)
       \<and> (\<exists>pd desc intfs i. r = Inr () \<and> um_pending s' = um_pending s @ [(um_next s, pd)]
        \<and> um_constructing s' = insert (constructing_key (ld_bus ld) (ld_address ld)) (um_constructing s)
        \<and> 0 < ld_address ld \<and> \<not> have_usb_device (ld_bus ld) (ld_address ld) (um_mux s)
        \<and> \<not> is_constructing (ld_bus ld) (ld_address ld) s
        \<and> ld_descriptor ld = Some desc \<and> dd_idVendor desc = VID_APPLE
        \<and> dd_idProduct desc \<in> {PID_RANGE_LOW .. PID_RANGE_MAX}
        \<and> ld_config ld = Some intfs \<and> find suitable intfs = Some i
        \<and> ui_interface (pd_info pd) = if_number i \<and> ld_claim ld (if_number i)
        \<and> set (if_endpoints i) = {ui_ep_out (pd_info pd), ui_ep_in (pd_info pd)}
        \<and> is_out (ui_ep_out (pd_info pd)) \<and> is_in (ui_ep_in (pd_info pd))
        \<and> ui_bus (pd_info pd) = ld_bus ld \<and> ui_address (pd_info pd) = ld_address ld
        \<and> 0 < ul_wMaxPacketSize (pd_dev pd))"
proof -
  have conf: "set_configuration ld desc c s = (q, t) \<Longrightarrow> um_pending t = um_pending s
      \<and> um_constructing t = um_constructing s \<and> um_next t = um_next s" for desc c q t
    by (auto simp: set_configuration_def Let_def split: if_splits option.splits)
  show ?thesis
  proof (cases "um_pending s' = um_pending s \<and> um_constructing s' = um_constructing s \<and> um_next s' = um_next s")
    case True
    then show ?thesis by blast
  next
    case False
    with run have addr: "0 < ld_address ld" "\<not> have_usb_device (ld_bus ld) (ld_address ld) (um_mux s)"
        "\<not> is_constructing (ld_bus ld) (ld_address ld) s"
      by (auto simp: device_add_def Let_def split: if_splits)
    with run False obtain desc c where desc: "ld_descriptor ld = Some desc" "dd_idVendor desc = VID_APPLE"
        "dd_idProduct desc \<in> {PID_RANGE_LOW .. PID_RANGE_MAX}"
      and rest: "thenE (set_configuration ld desc c) (\<lambda>_ s. case ld_config ld of
          None \<Rightarrow> (Inl Configuration_failed, s)
        | Some intfs \<Rightarrow> (case find_interface intfs of
             None \<Rightarrow> (Inl No_usb_interface, s)
           | Some found \<Rightarrow> start_construction pktbuf ld desc found s)) s = (r, s')"
      by (auto simp: device_add_def Let_def split: if_splits option.splits)
    from rest obtain t intfs found where t: "set_configuration ld desc c s = (Inr (), t)"
      and intfs: "ld_config ld = Some intfs" "find_interface intfs = Some found"
      and start: "start_construction pktbuf ld desc found t = (r, s')"
    proof (cases rule: thenE_cases)
      case (throw e)
      then show thesis using conf False by blast
    next
      case (step x t)
      then show thesis using conf [OF step(1)] False that
        by (auto split: option.splits)
    qed
    note same = conf [OF t]
    obtain i where i: "find suitable intfs = Some i"
      "found = (if_number i, if is_out (if_endpoints i ! 0) then if_endpoints i ! 0 else if_endpoints i ! 1,
         if is_out (if_endpoints i ! 0) then if_endpoints i ! 1 else if_endpoints i ! 0)"
      using intfs(2) by (auto simp: find_interface_spec split: option.splits)
    from find_at [OF i(1)] obtain a b where "if_endpoints i = [a, b]" "is_out a \<noteq> is_out b"
      by (auto simp: suitable_def length_Suc_conv eval_nat_numeral)
    then obtain out inp where eps: "is_out out" "is_in inp"
      and found: "found = (if_number i, out, inp)" "set (if_endpoints i) = {out, inp}"
      using i(2) by (cases "is_out a") (auto simp: in_or_out)
    from start False found(1) same obtain pd where
      "um_next s' = Suc (um_next s)" "r = Inr ()" "um_pending s' = um_pending s @ [(um_next s, pd)]"
      "um_constructing s' = insert (constructing_key (ld_bus ld) (ld_address ld)) (um_constructing s)"
      "ui_interface (pd_info pd) = if_number i" "ld_claim ld (if_number i)"
      "ui_ep_out (pd_info pd) = out" "ui_ep_in (pd_info pd) = inp"
      "ui_bus (pd_info pd) = ld_bus ld" "ui_address (pd_info pd) = ld_address ld"
      "0 < ul_wMaxPacketSize (pd_dev pd)"
      by (auto simp: start_construction_def Let_def add_constructing_def new_usbdev_def packet_size_def
          split: if_splits)
    with addr desc intfs(1) i(1) found(2) eps(1,2) show ?thesis
      by blast
  qed
qed

text \<open>
  C32: only a suitable device is taken up. Whatever \<open>device_add\<close> returns, either no construction starts, or
  exactly one does: of a device with an address, of the right vendor and product range, that is neither
  in the muxer nor under construction, through the first interface of the right class with one endpoint
  in each direction, and with a packet size that is not 0, which is what \<open>usb_send\<close> divides by.
\<close>

theorem device_add_takes_suitable:
  "case device_add pktbuf ld s of (r, s') \<Rightarrow>
     um_pending s' = um_pending s \<and> um_constructing s' = um_constructing s
     \<or> (\<exists>pd desc intfs i. r = Inr () \<and> um_pending s' = um_pending s @ [(um_next s, pd)]
        \<and> um_constructing s' = insert (constructing_key (ld_bus ld) (ld_address ld)) (um_constructing s)
        \<and> 0 < ld_address ld \<and> \<not> have_usb_device (ld_bus ld) (ld_address ld) (um_mux s)
        \<and> \<not> is_constructing (ld_bus ld) (ld_address ld) s
        \<and> ld_descriptor ld = Some desc \<and> dd_idVendor desc = VID_APPLE
        \<and> dd_idProduct desc \<in> {PID_RANGE_LOW .. PID_RANGE_MAX}
        \<and> ld_config ld = Some intfs \<and> find suitable intfs = Some i
        \<and> ui_interface (pd_info pd) = if_number i \<and> ld_claim ld (if_number i)
        \<and> set (if_endpoints i) = {ui_ep_out (pd_info pd), ui_ep_in (pd_info pd)}
        \<and> is_out (ui_ep_out (pd_info pd)) \<and> is_in (ui_ep_in (pd_info pd))
        \<and> ui_bus (pd_info pd) = ld_bus ld \<and> ui_address (pd_info pd) = ld_address ld
        \<and> 0 < ul_wMaxPacketSize (pd_dev pd))"
  using device_add_step [of pktbuf ld s] by (cases "device_add pktbuf ld s") auto

section \<open>Devices under construction\<close>

text \<open>The code shifts the bus out of the 16 bits of the key: what is left is the address.\<close>

lemma constructing_key_address: "constructing_key bus addr = ucast addr"
proof -
  have "(ucast (push_bit 16 (ucast bus :: u32)) :: u16) = 0"
    by (rule bit_word_eqI) (simp add: bit_simps)
  then show ?thesis by (simp add: constructing_key_def)
qed

lemma u8_to_u16_inject: "(ucast a :: u16) = ucast b \<longleftrightarrow> a = (b :: u8)"
  by (simp add: word_unat_eq_iff unsigned_ucast_eq take_bit_nat_eq_self unsigned_less [THEN less_le_trans])

text \<open>What happens to the manager: hotplug events, the callbacks, and changes of the muxer by others.\<close>

inductive usb_step :: "'p mux_env \<Rightarrow> usb_manager \<Rightarrow> usb_manager \<Rightarrow> bool" for env where
  hotplug: "usb_step env s (usb_hotplug_cb env pktbuf ld event s)"
| langid: "usb_step env s (usb_get_langid_callback x status data submits s)"
| serial: "usb_step env s (snd (usb_get_serial_callback lib x status data starts s))"
| muxer: "usb_step env s (s\<lparr>um_mux := m\<rparr>)"

inductive usb_reach :: "'p mux_env \<Rightarrow> usb_manager \<Rightarrow> usb_manager \<Rightarrow> bool" for env s where
  start: "usb_reach env s s"
| step: "usb_reach env s t \<Longrightarrow> usb_step env t u \<Longrightarrow> usb_reach env s u"

inductive_cases usb_step_cases [elim]: "usb_step env s t"

definition pending_address :: "nat \<times> pending \<Rightarrow> u8" where
  "pending_address xp = ui_address (pd_info (snd xp))"

definition construction_ok :: "usb_manager \<Rightarrow> bool" where
  "construction_ok s \<longleftrightarrow> distinct (map fst (um_pending s))
     \<and> (\<forall>x \<in> set (map fst (um_pending s)). x < um_next s)
     \<and> distinct (map pending_address (um_pending s))
     \<and> um_constructing s = ucast ` set (map pending_address (um_pending s))"

lemma delete_filter: "AList.delete x ps = filter (\<lambda>p. fst p \<noteq> x) ps"
  by (induction ps) auto

lemma map_snd_delete:
  assumes "distinct (map fst ps)" and "map_of ps x = Some v" and "distinct (map f ps)"
  shows "set (map f (AList.delete x ps)) = set (map f ps) - {f (x, v)}"
proof -
  have here: "(x, v) \<in> set ps" using assms(2) by (rule map_of_SomeD)
  have only: "snd p = v" if "p \<in> set ps" "fst p = x" for p
    using map_of_is_SomeI [OF assms(1), of x "snd p"] that assms(2) by (cases p) auto
  have "set (AList.delete x ps) = set ps - {(x, v)}"
    using here by (auto simp: delete_filter dest: only)
  moreover have "inj_on f (set ps)" using assms(3) by (simp add: distinct_map)
  ultimately show ?thesis
    using here by (simp add: inj_on_image_set_diff [of f "set ps" "set ps" "{(x, v)}", simplified])
qed

lemma map_update_same:
  assumes "distinct (map fst ps)" and "map_of ps x = Some v" and "f (x, w) = f (x, v)"
  shows "map f (AList.update x w ps) = map f ps"
  using assms by (induction ps) (auto split: if_splits)

lemma end_construction_ok:
  assumes "construction_ok s" and "map_of (um_pending s) x = Some pd"
  shows "construction_ok (end_construction x pd s)"
proof -
  let ?ps = "um_pending s"
  have dist: "distinct (map fst ?ps)" "distinct (map pending_address ?ps)"
    using assms(1) by (simp_all add: construction_ok_def)
  note gone = map_snd_delete [OF dist(1) assms(2) dist(2)]
  have "um_constructing (end_construction x pd s)
      = ucast ` set (map pending_address ?ps) - {ucast (ui_address (pd_info pd))}"
    using assms(1) by (simp add: construction_ok_def end_construction_def del_constructing_def constructing_key_address)
  also have "\<dots> = ucast ` (set (map pending_address ?ps) - {ui_address (pd_info pd)})"
    by (auto simp: u8_to_u16_inject)
  also have "\<dots> = ucast ` set (map pending_address (AList.delete x ?ps))"
    using gone by (simp add: pending_address_def)
  finally have key: "um_constructing (end_construction x pd s) = \<dots>" .
  moreover have "um_pending (end_construction x pd s) = AList.delete x ?ps"
    "um_next (end_construction x pd s) = um_next s"
    by (simp_all add: end_construction_def del_constructing_def)
  ultimately show ?thesis
    using assms(1) by (auto simp: construction_ok_def delete_filter distinct_map_filter)
qed

lemma langid_callback_ok:
  assumes "construction_ok s"
  shows "construction_ok (usb_get_langid_callback x status data submits s)"
proof (cases "map_of (um_pending s) x")
  case None
  with assms show ?thesis by (simp add: usb_get_langid_callback_def)
next
  case (Some pd)
  define pd' where "pd' = pd\<lparr>pd_phase := Asks_serial (ucast (data ! 2) OR push_bit 8 (ucast (data ! 3)))\<rparr>"
  have "construction_ok (s\<lparr>um_pending := AList.update x pd' (um_pending s)\<rparr>)"
  proof -
    have "distinct (map fst (um_pending s))" using assms by (simp add: construction_ok_def)
    from map_update_same [OF this Some, of fst pd'] map_update_same [OF this Some, of pending_address pd']
    have "map pending_address (AList.update x pd' (um_pending s)) = map pending_address (um_pending s)"
      "map fst (AList.update x pd' (um_pending s)) = map fst (um_pending s)"
      by (simp_all add: pending_address_def pd'_def)
    with assms show ?thesis by (simp add: construction_ok_def)
  qed
  with Some assms show ?thesis
    by (auto simp: usb_get_langid_callback_def pd'_def end_construction_ok Let_def)
qed

lemma serial_callback_ok:
  "construction_ok s \<Longrightarrow> construction_ok (snd (usb_get_serial_callback lib x status data starts s))"
  by (auto simp: usb_get_serial_callback_def end_construction_ok split: option.splits)

lemma device_add_ok:
  assumes "construction_ok s"
  shows "construction_ok (snd (device_add pktbuf ld s))"
proof -
  obtain r s' where run: "device_add pktbuf ld s = (r, s')" by (metis prod.exhaust)
  have next_same: "set_configuration ld desc c s = (q, t) \<Longrightarrow> um_next t = um_next s" for desc c q t
    by (auto simp: set_configuration_def Let_def split: if_splits option.splits)
  have step: "um_next s' = um_next s \<and> um_pending s' = um_pending s \<and> um_constructing s' = um_constructing s
    \<or> um_next s' = Suc (um_next s) \<and> (\<exists>pd. um_pending s' = um_pending s @ [(um_next s, pd)]
        \<and> ui_address (pd_info pd) = ld_address ld)
        \<and> um_constructing s' = insert (ucast (ld_address ld)) (um_constructing s)
        \<and> ucast (ld_address ld) \<notin> um_constructing s"
    using device_add_step [OF run] by (auto simp: constructing_key_address is_constructing_def)
  then show ?thesis
  proof
    assume "um_next s' = um_next s \<and> um_pending s' = um_pending s \<and> um_constructing s' = um_constructing s"
    with assms run show ?thesis by (simp add: construction_ok_def)
  next
    assume new: "um_next s' = Suc (um_next s) \<and> (\<exists>pd. um_pending s' = um_pending s @ [(um_next s, pd)]
        \<and> ui_address (pd_info pd) = ld_address ld)
        \<and> um_constructing s' = insert (ucast (ld_address ld)) (um_constructing s)
        \<and> ucast (ld_address ld) \<notin> um_constructing s"
    then obtain pd where pd: "um_pending s' = um_pending s @ [(um_next s, pd)]"
      "ui_address (pd_info pd) = ld_address ld" by blast
    with new assms have "pending_address (um_next s, pd) \<notin> set (map pending_address (um_pending s))"
      by (auto simp: construction_ok_def pending_address_def u8_to_u16_inject image_iff)
    with new pd assms run show ?thesis
      by (auto simp: construction_ok_def pending_address_def less_Suc_eq)
  qed
qed

lemma usb_step_ok: "usb_step env s t \<Longrightarrow> construction_ok s \<Longrightarrow> construction_ok t"
  by (elim usb_step_cases)
    (auto simp: usb_hotplug_cb_def langid_callback_ok serial_callback_ok device_add_ok
      split: hotplug_event.splits; simp add: construction_ok_def)+

lemma usb_reach_ok: "usb_reach env s t \<Longrightarrow> construction_ok s \<Longrightarrow> construction_ok t"
  by (induction rule: usb_reach.induct) (auto intro: usb_step_ok)

definition new_usb_manager :: "muxer \<Rightarrow> usb_manager" where
  "new_usb_manager m = \<lparr>um_constructing = {}, um_pending = [], um_next = 0, um_detached = [], um_mux = m\<rparr>"

lemma new_usb_manager_ok: "construction_ok (new_usb_manager m)"
  by (simp add: construction_ok_def new_usb_manager_def)

text \<open>
  C33: the set of devices under construction. In every state the events lead to it has exactly one entry
  per control transfer that is under way, the device's address: no construction is forgotten, whichever
  way it ended, and none is started twice.
\<close>

theorem constructing_exactly_pending:
  assumes "usb_reach env (new_usb_manager m) s"
  shows "um_constructing s = ucast ` set (map pending_address (um_pending s))
    \<and> distinct (map pending_address (um_pending s)) \<and> distinct (map fst (um_pending s))"
  using usb_reach_ok [OF assms new_usb_manager_ok] by (simp add: construction_ok_def)

text \<open>
  The bus is not part of the key. While a device is under construction every device with the same
  address on any other bus is ignored when it arrives, for good, since it is reported only once.
\<close>

theorem other_bus_ignored:
  assumes "usb_reach env (new_usb_manager m) s"
    and "(x, pd) \<in> set (um_pending s)" and "ui_address (pd_info pd) = ld_address ld"
  shows "usb_hotplug_cb env' pktbuf ld DEVICE_ARRIVED s = s"
proof -
  have "is_constructing (ld_bus ld) (ld_address ld) s"
    using usb_reach_ok [OF assms(1) new_usb_manager_ok] assms(2,3)
    by (auto simp: construction_ok_def is_constructing_def constructing_key_address pending_address_def
        intro!: image_eqI)
  then show ?thesis by (simp add: usb_hotplug_cb_def device_add_def Let_def)
qed

section \<open>Serial numbers\<close>

text \<open>The string descriptor of an ASCII serial number.\<close>

definition string_descriptor :: "string \<Rightarrow> bytes \<Rightarrow> bytes" where
  "string_descriptor s rest =
     [of_nat (2 + 2 * length s), 3] @ concat (map (\<lambda>c. [of_nat (of_char c), 0]) s) @ rest"

lemma concat_pairs_nth:
  "k < length s \<Longrightarrow> concat (map (\<lambda>c. [f c, z]) s) ! (2 * k) = f (s ! k)
    \<and> concat (map (\<lambda>c. [f c, z]) s) ! (Suc (2 * k)) = z"
proof (induction s arbitrary: k)
  case (Cons c s)
  then show ?case by (cases k) auto
qed simp

lemma length_concat_pairs: "length (concat (map (\<lambda>c. [f c, z]) s)) = 2 * length s"
  by (induction s) auto

lemma string_descriptor_nth:
  assumes "k < length s"
  shows "string_descriptor s rest ! (2 + 2 * k) = of_nat (of_char (s ! k))"
    and "string_descriptor s rest ! (3 + 2 * k) = 0"
  using concat_pairs_nth [OF assms, of "\<lambda>c. of_nat (of_char c) :: u8" 0] assms
  by (simp_all add: string_descriptor_def nth_append length_concat_pairs)

lemma ascii_byte:
  assumes "n < 128" shows "(of_nat n :: u8) AND 0x80 = 0" and "unat (of_nat n :: u8) = n"
proof -
  show u: "unat (of_nat n :: u8) = n" using assms by (intro unat_of_nat_u8) simp
  have "bit (unat (of_nat n :: u8)) 7 \<longleftrightarrow> bit (of_nat n :: u8) 7" by (simp only: bit_unsigned_iff) simp
  moreover have "\<not> bit n 7" using assms by (simp add: bit_iff_odd)
  ultimately have "\<not> bit (of_nat n :: u8) 7" unfolding u by blast
  then show "(of_nat n :: u8) AND 0x80 = 0" by (simp add: top_bit)
qed

lemma deunicode_descriptor:
  assumes "\<forall>c \<in> set s. 0 < (of_char c :: nat) \<and> (of_char c :: nat) < 128" and "length s \<le> 126"
    and "k \<le> length s"
  shows "deunicode (string_descriptor s rest) (2 + 2 * k) (take k s) = s"
  using assms(3)
proof (induction "length s - k" arbitrary: k)
  case 0
  have "unat (string_descriptor s rest ! 0) = 2 + 2 * length s"
    using assms(2) unat_of_nat_u8 [of "2 + 2 * length s"] by (simp add: string_descriptor_def)
  with 0 show ?case by (subst deunicode.simps) simp
next
  case (Suc n)
  let ?d = "string_descriptor s rest"
  have len: "unat (?d ! 0) = 2 + 2 * length s"
    using assms(2) unat_of_nat_u8 [of "2 + 2 * length s"] by (simp add: string_descriptor_def)
  from Suc have k: "k < length s" by simp
  have c: "0 < (of_char (s ! k) :: nat)" "(of_char (s ! k) :: nat) < 128" using assms(1) k by auto
  note at = string_descriptor_nth [OF k, of rest]
  have "?d ! (2 + 2 * k) \<noteq> 0" using at(1) c ascii_byte(2) [OF c(2)] by (metis unat_0 less_irrefl)
  moreover have "char_of (unat (?d ! (2 + 2 * k))) = s ! k"
    using at(1) ascii_byte(2) [OF c(2)] by simp
  moreover have "?d ! (2 + 2 * k) AND 0x80 = 0" using at(1) ascii_byte(1) [OF c(2)] by simp
  moreover have "?d ! (2 + 2 * k + 1) = 0" using at(2) by (simp add: numeral_3_eq_3)
  ultimately have "deunicode ?d (2 + 2 * k) (take k s) = deunicode ?d (2 + 2 * k + 2) (take k s @ [s ! k])"
    using k len assms(2) by (subst deunicode.simps) (simp add: serial_size_def)
  also have "\<dots> = deunicode ?d (2 + 2 * Suc k) (take (Suc k) s)"
    using k by (simp add: take_Suc_conv_app_nth)
  also have "\<dots> = s"
  proof -
    have "n = length s - Suc k" using Suc.hyps(2) by simp
    from Suc.hyps(1) [OF this] k show ?thesis by simp
  qed
  finally show ?case .
qed

text \<open>
  Serial numbers. From the string descriptor of an ASCII serial number the code reads that number,
  whole and unchanged, except that the 24 characters of a new style one get the hyphen after the
  eighth that other programs know it with; what the buffer holds after the descriptor does not matter.
\<close>

theorem serial_of_descriptor:
  assumes "\<forall>c \<in> set s. 0 < (of_char c :: nat) \<and> (of_char c :: nat) < 128" and "length s \<le> 126"
  shows "serial_of (string_descriptor s rest) = (if length s = 24 then take 8 s @ ''-'' @ drop 8 s else s)"
  using deunicode_descriptor [OF assms, of 0] by (simp add: serial_of_def numeral_2_eq_2)

section \<open>Receive transfers\<close>

lemma start_rx_loops_run:
  assumes "\<forall>x \<in> ud_rx_xfers d. x < k"
  shows "start_rx_loops starts n k d =
    (k + n, d\<lparr>ud_rx_xfers := ud_rx_xfers d \<union> {x. k \<le> x \<and> x < k + n \<and> starts x}\<rparr>)"
  using assms
proof (induction n arbitrary: k d)
  case 0
  have "{x. k \<le> x \<and> x < k \<and> starts x} = {}" by auto
  then show ?case by (cases d) (simp only: start_rx_loops.simps add_0_right, simp)
next
  case (Suc n)
  let ?d = "snd (usb_start_rx_loop k (starts k) d)"
  have d: "?d = d\<lparr>ud_rx_xfers := ud_rx_xfers d \<union> (if starts k then {k} else {})\<rparr>"
    using Suc.prems by (auto simp: usb_start_rx_loop_def Let_def
        intro!: arg_cong [where f = "\<lambda>X. d\<lparr>ud_rx_xfers := X\<rparr>"])
  have "\<forall>x \<in> ud_rx_xfers ?d. x < Suc k" using Suc.prems by (auto simp: d)
  from Suc.IH [OF this] have "start_rx_loops starts (Suc n) k d = (k + Suc n, ?d\<lparr>ud_rx_xfers :=
      ud_rx_xfers ?d \<union> {x. Suc k \<le> x \<and> x < Suc k + n \<and> starts x}\<rparr>)" by simp
  also have "ud_rx_xfers ?d \<union> {x. Suc k \<le> x \<and> x < Suc k + n \<and> starts x}
      = ud_rx_xfers d \<union> {x. k \<le> x \<and> x < k + Suc n \<and> starts x}"
    by (auto simp: d le_eq_less_or_eq Suc_le_eq)
  finally show ?case by (simp add: d)
qed

text \<open>
  The number of receive transfers is not counted. The counter of the loop in
  \<open>usb_get_serial_callback\<close> grows whether or not a transfer was started, so the test that at least one
  was never fails: a device goes on to the version handshake with whichever transfers there are, also
  with none, and then never hears from the device again.
\<close>

theorem rx_loops_not_checked:
  assumes "ud_rx_xfers d = {}"
  shows "finish_device lib starts d = mux_init lib (d\<lparr>ud_rx_xfers := {x. x < NUM_RX_LOOPS \<and> starts x}\<rparr>)"
  using start_rx_loops_run [of d 0 starts NUM_RX_LOOPS] assms
  by (simp add: finish_device_def NUM_RX_LOOPS_def)

section \<open>Concrete runs\<close>

text \<open>An iPhone on bus 1 at address 5, with a camera interface before the one of the mux.\<close>

definition ex_usb :: "u8 \<Rightarrow> libusb_dev" where
  "ex_usb bus = \<lparr>ld_bus = bus, ld_address = 5,
     ld_descriptor = Some \<lparr>dd_idVendor = 0x5ac, dd_idProduct = 0x12a8, dd_bNumConfigurations = 4, dd_iSerialNumber = 3\<rparr>,
     ld_open = True, ld_configuration = Some 1, ld_old_config = None, ld_kernel_driver = (\<lambda>_. 0),
     ld_set_configuration = True,
     ld_config = Some [\<lparr>if_number = 0, if_class = 6, if_subclass = 1, if_protocol = 1, if_endpoints = [0x81, 0x02, 0x83]\<rparr>,
                       \<lparr>if_number = 1, if_class = 255, if_subclass = 254, if_protocol = 2, if_endpoints = [0x85, 0x04]\<rparr>],
     ld_claim = (\<lambda>_. True), ld_alloc_transfer = True, ld_max_packet_size = (\<lambda>_. 512),
     ld_speed = SPEED_HIGH, ld_submit = True\<rparr>"

definition ex_manager :: usb_manager where
  "ex_manager = usb_hotplug_cb ex_mux_env [] (ex_usb 1) DEVICE_ARRIVED (new_usb_manager ex_muxer)"

lemma ex_manager_pending:
  "\<exists>pd. um_pending ex_manager = [(0, pd)] \<and> ui_address (pd_info pd) = 5 \<and> ui_ep_out (pd_info pd) = 4
    \<and> ui_ep_in (pd_info pd) = 0x85 \<and> ui_interface (pd_info pd) = 1"
  by (simp add: ex_manager_def usb_hotplug_cb_def device_add_def ex_usb_def new_usb_manager_def Let_def
      is_constructing_def have_usb_device_def ex_muxer_def ex_device_def new_muxer_def usb_at_def
      VID_APPLE_def PID_RANGE_LOW_def PID_RANGE_MAX_def set_configuration_def thenE_def is_out_def is_in_def
      INTERFACE_CLASS_def INTERFACE_SUBCLASS_def INTERFACE_PROTOCOL_def start_construction_def
      add_constructing_def)

lemma ex_manager_reach: "usb_reach ex_mux_env (new_usb_manager ex_muxer) ex_manager"
  unfolding ex_manager_def by (rule usb_reach.step [OF usb_reach.start usb_step.hotplug])

lemma device_add_takes_suitable_witness:
  "\<exists>s'. device_add [] (ex_usb 1) (new_usb_manager ex_muxer) = (Inr (), s')
    \<and> um_constructing s' = {constructing_key 1 5}"
proof -
  obtain r s' where run: "device_add [] (ex_usb 1) (new_usb_manager ex_muxer) = (r, s')" by (metis prod.exhaust)
  then have "s' = ex_manager" by (simp add: ex_manager_def usb_hotplug_cb_def)
  with ex_manager_pending have "um_pending s' \<noteq> um_pending (new_usb_manager ex_muxer)"
    by (auto simp: new_usb_manager_def)
  with device_add_takes_suitable [where pktbuf = "[]" and ld = "ex_usb 1" and s = "new_usb_manager ex_muxer"] run show ?thesis
    by (auto simp: new_usb_manager_def ex_usb_def)
qed

lemma constructing_exactly_pending_witness: "um_constructing ex_manager = {5}"
  using constructing_exactly_pending [OF ex_manager_reach] ex_manager_pending
  by (auto simp: pending_address_def)

lemma other_bus_ignored_witness:
  "usb_hotplug_cb ex_mux_env [] (ex_usb 2) DEVICE_ARRIVED ex_manager = ex_manager"
proof -
  from ex_manager_pending obtain pd where "(0, pd) \<in> set (um_pending ex_manager)"
    "ui_address (pd_info pd) = ld_address (ex_usb 2)"
    by (auto simp: ex_usb_def)
  from other_bus_ignored [OF ex_manager_reach this] show ?thesis .
qed

lemma serial_of_descriptor_witness:
  "serial_of (string_descriptor ''000080300011AABBCCDDEEFF'' []) = ''00008030-0011AABBCCDDEEFF''"
  using serial_of_descriptor [of "''000080300011AABBCCDDEEFF''" "[]"] by simp

lemma rx_loops_not_checked_witness:
  "finish_device lib (\<lambda>_. False) (new_usbdev [] 512) = mux_init lib ((new_usbdev [] 512)\<lparr>ud_rx_xfers := {}\<rparr>)"
  using rx_loops_not_checked [of "new_usbdev [] 512" lib "\<lambda>_. False"] by (simp add: new_usbdev_def)

end
