(* ===== verification/Children.thy ===== *)
theory Children
  imports Mux_Prelude
begin

text \<open>
  The life of the objects a manager makes: clients, USB devices and WIFI devices. All four managers
  keep a set of raw pointers to them, a queue of objects to be reaped with a thread that works on it,
  and a destructor that waits until the last object is gone; the objects themselves are kept alive by
  shared pointers and leave the set in their own destructors.
\<close>

section \<open>State\<close>

text \<open>
  \<open>fm_muxer\<close> are the objects in the muxer's set, \<open>fm_others\<close> counts the references that
  transfers, connections and threads hold, \<open>fm_queue\<close> is \<open>_reapDevices\<close> or \<open>_reapClients\<close> (an entry
  \<open>None\<close> is a null pointer), \<open>fm_current\<close> is the object the reaper holds and whether its
  \<open>deconstruct\<close> is over, \<open>fm_dying\<close> are objects without references whose destructor has
  not yet reached the set \<open>fm_children\<close>, and \<open>fm_events\<close> counts the events of \<open>_childrenEvent\<close>.
\<close>

record family =
  fm_children :: "nat set"
  fm_muxer :: "nat set"
  fm_others :: "nat \<Rightarrow> nat"
  fm_queue :: "nat option list"
  fm_current :: "(nat \<times> bool) option"
  fm_dying :: "nat set"
  fm_events :: nat

definition held :: "family \<Rightarrow> nat \<Rightarrow> bool" where
  "held f p \<longleftrightarrow> p \<in> fm_muxer f \<or> 0 < fm_others f p \<or> Some p \<in> set (fm_queue f)
     \<or> (\<exists>b. fm_current f = Some (p, b))"

section \<open>What an object does\<close>

text \<open>\<open>kill\<close>: the weak reference an object has to itself is null once nothing holds the object.\<close>

definition kill_child :: "nat \<Rightarrow> family \<Rightarrow> family" where
  "kill_child p f = f\<lparr>fm_queue := fm_queue f @ [if held f p then Some p else None]\<rparr>"

text \<open>A reference to \<open>p\<close> was given up.\<close>

definition let_go :: "nat \<Rightarrow> family \<Rightarrow> family" where
  "let_go p f = (if held f p then f else f\<lparr>fm_dying := insert p (fm_dying f)\<rparr>)"

text \<open>
  The part of \<open>deconstruct\<close> that concerns references: the muxer forgets the object. Forgetting a client
  posts it once more, which \<open>again\<close> says.
\<close>

definition muxer_forgets :: "bool \<Rightarrow> nat \<Rightarrow> family \<Rightarrow> family" where
  "muxer_forgets again p f =
     f\<lparr>fm_muxer := fm_muxer f - {p},
       fm_queue := fm_queue f @ (if again \<and> p \<in> fm_muxer f then [Some p] else [])\<rparr>"

text \<open>The critical section of the destructors.\<close>

definition destroy_child :: "nat \<Rightarrow> family \<Rightarrow> family" where
  "destroy_child p f =
     f\<lparr>fm_dying := fm_dying f - {p}, fm_children := fm_children f - {p}, fm_events := Suc (fm_events f)\<rparr>"

section \<open>The destructor of a manager\<close>

text \<open>
  \<open>Checking\<close> is the top of the loop, with the lock; \<open>Waiting n\<close> waits for the event number \<open>n\<close>;
  \<open>Past\<close> is behind the loop.
\<close>

datatype dtor = Before | Checking | Waiting nat | Past

definition enter_dtor :: "family \<Rightarrow> dtor" where
  "enter_dtor f = (if fm_children f = {} then Past else Checking)"

definition check_children :: "family \<Rightarrow> dtor \<times> family" where
  "check_children f =
     (if fm_children f = {} then (Past, f)
      else (Waiting (Suc (fm_events f)), fold kill_child (sorted_list_of_set (fm_children f)) f))"

section \<open>Steps\<close>

text \<open>
  The reaper takes an object, deconstructs it and lets it go; an object without references runs its
  destructor; the manager's destructor goes round its loop. A reaper that takes a null pointer calls
  \<open>deconstruct\<close> on it and there is no step.
\<close>

inductive own_step :: "bool \<Rightarrow> dtor \<times> family \<Rightarrow> dtor \<times> family \<Rightarrow> bool" for again where
  Take: "fm_current f = None \<Longrightarrow> fm_queue f = Some p # q
    \<Longrightarrow> own_step again (pc, f) (pc, f\<lparr>fm_queue := q, fm_current := Some (p, False)\<rparr>)"
| Work: "fm_current f = Some (p, False)
    \<Longrightarrow> own_step again (pc, f) (pc, (muxer_forgets again p f)\<lparr>fm_current := Some (p, True)\<rparr>)"
| Leave: "fm_current f = Some (p, True)
    \<Longrightarrow> own_step again (pc, f) (pc, let_go p (f\<lparr>fm_current := None\<rparr>))"
| Destroy: "p \<in> fm_dying f \<Longrightarrow> own_step again (pc, f) (pc, destroy_child p f)"
| Check: "own_step again (Checking, f) (check_children f)"
| Wake: "n \<le> fm_events f \<Longrightarrow> own_step again (Waiting n, f) (Checking, f)"

definition reaper_at_null :: "family \<Rightarrow> bool" where
  "reaper_at_null f \<longleftrightarrow> fm_current f = None \<and> fm_queue f \<noteq> [] \<and> hd (fm_queue f) = None"

text \<open>
  What the rest of the daemon does: objects are made until the destructor begins, references are copied
  and given up, the muxer learns of an object and forgets it, and anyone who holds an object may kill it.
\<close>

inductive env_step :: "bool \<Rightarrow> dtor \<times> family \<Rightarrow> dtor \<times> family \<Rightarrow> bool" for again where
  Create: "p \<notin> fm_children f
    \<Longrightarrow> env_step again (Before, f) (Before, f\<lparr>fm_children := insert p (fm_children f), fm_others := (fm_others f)(p := 1)\<rparr>)"
| Share: "held f p \<Longrightarrow> env_step again (pc, f) (pc, f\<lparr>fm_others := (fm_others f)(p := Suc (fm_others f p))\<rparr>)"
| Register: "held f p \<Longrightarrow> env_step again (pc, f) (pc, f\<lparr>fm_muxer := insert p (fm_muxer f)\<rparr>)"
| Release: "0 < fm_others f p
    \<Longrightarrow> env_step again (pc, f) (pc, let_go p (f\<lparr>fm_others := (fm_others f)(p := fm_others f p - 1)\<rparr>))"
| Forget: "p \<in> fm_muxer f \<Longrightarrow> env_step again (pc, f) (pc, let_go p (muxer_forgets again p f))"
| Kill: "held f p \<Longrightarrow> env_step again (pc, f) (pc, kill_child p f)"
| Enter: "env_step again (Before, f) (enter_dtor f, f)"

definition family_step :: "bool \<Rightarrow> dtor \<times> family \<Rightarrow> dtor \<times> family \<Rightarrow> bool" where
  "family_step again s s' \<longleftrightarrow> own_step again s s' \<or> env_step again s s'"

section \<open>The set of children\<close>

text \<open>
  Every object that is held or on its way out is in the set, every object in the set is one of the two, and
  a destructor that sleeps has something to wait for.
\<close>

definition family_ok :: "dtor \<times> family \<Rightarrow> bool" where
  "family_ok s \<longleftrightarrow> (case s of (pc, f) \<Rightarrow>
     finite (fm_children f) \<and> {p. held f p} \<union> fm_dying f = fm_children f \<and> (\<forall>p \<in> fm_dying f. \<not> held f p)
     \<and> (\<forall>n. pc = Waiting n \<longrightarrow> n \<le> Suc (fm_events f) \<and> (fm_events f < n \<longrightarrow> fm_children f \<noteq> {}))
     \<and> (pc = Past \<longrightarrow> fm_children f = {}))"

lemma held_cong:
  "fm_muxer g = fm_muxer f \<Longrightarrow> fm_others g = fm_others f \<Longrightarrow> set (fm_queue g) = set (fm_queue f)
    \<Longrightarrow> fm_current g = fm_current f \<Longrightarrow> held g = held f"
  by (simp add: held_def fun_eq_iff)

lemma kill_child_frame [simp]:
  "held (kill_child p f) = held f" "fm_children (kill_child p f) = fm_children f"
  "fm_dying (kill_child p f) = fm_dying f" "fm_events (kill_child p f) = fm_events f"
  "fm_muxer (kill_child p f) = fm_muxer f" "fm_others (kill_child p f) = fm_others f"
  "fm_current (kill_child p f) = fm_current f"
  by (auto simp: kill_child_def held_def fun_eq_iff)

lemma kill_all_frame [simp]:
  "held (fold kill_child ps f) = held f" "fm_children (fold kill_child ps f) = fm_children f"
  "fm_dying (fold kill_child ps f) = fm_dying f" "fm_events (fold kill_child ps f) = fm_events f"
  "fm_muxer (fold kill_child ps f) = fm_muxer f" "fm_others (fold kill_child ps f) = fm_others f"
  "fm_current (fold kill_child ps f) = fm_current f"
  by (induction ps arbitrary: f) simp_all

lemma kill_all_queue:
  "fm_queue (fold kill_child ps f) = fm_queue f @ map (\<lambda>p. if held f p then Some p else None) ps"
  by (induction ps arbitrary: f) (simp_all, simp add: kill_child_def)

lemma let_go_frame [simp]:
  "held (let_go p g) = held g" "fm_children (let_go p g) = fm_children g" "fm_events (let_go p g) = fm_events g"
  "fm_muxer (let_go p g) = fm_muxer g" "fm_others (let_go p g) = fm_others g"
  "fm_queue (let_go p g) = fm_queue g" "fm_current (let_go p g) = fm_current g"
  "fm_dying (let_go p g) = (if held g p then fm_dying g else insert p (fm_dying g))"
  by (simp_all add: let_go_def held_def fun_eq_iff)

text \<open>Giving up one reference: whoever else was held is still held.\<close>

lemma let_go_ok:
  assumes "family_ok (pc, f)" and "held f p" and others: "\<And>q. q \<noteq> p \<Longrightarrow> held g q = held f q"
    and same: "fm_children g = fm_children f" "fm_dying g = fm_dying f" "fm_events g = fm_events f"
  shows "family_ok (pc, let_go p g)"
proof -
  have f: "{q. held f q} \<union> fm_dying f = fm_children f" "\<And>q. q \<in> fm_dying f \<Longrightarrow> \<not> held f q"
    using assms(1) by (auto simp: family_ok_def)
  have held: "held g q \<longleftrightarrow> held f q \<and> (q = p \<longrightarrow> held g p)" for q
  proof (cases "q = p")
    case False
    then have "held g q = held f q" by (rule others)
    with False show ?thesis by simp
  next
    case True
    with assms(2) show ?thesis by simp
  qed
  have set: "{q. held g q} = (if held g p then {q. held f q} else {q. held f q} - {p})"
  proof (cases "held g p")
    case True
    with held have "held g q = held f q" for q by blast
    with True show ?thesis by simp
  next
    case False
    with held have "held g q \<longleftrightarrow> held f q \<and> q \<noteq> p" for q by blast
    with False show ?thesis by auto
  qed
  have "{q. held g q} \<union> fm_dying (let_go p g) = fm_children g"
    unfolding set let_go_frame same using f(1) assms(2) by auto
  moreover have "\<not> held g q" if "q \<in> fm_dying (let_go p g)" for q
  proof (cases "q = p")
    case False
    with that same(2) have "q \<in> fm_dying f" by (simp split: if_splits)
    with f(2) held show ?thesis by blast
  next
    case True
    have "p \<notin> fm_dying g" unfolding same(2) using f(2) [of p] assms(2) by blast
    with that True show ?thesis by (simp split: if_splits)
  qed
  moreover have "finite (fm_children g)" "\<forall>n. pc = Waiting n \<longrightarrow> n \<le> Suc (fm_events g) \<and> (fm_events g < n \<longrightarrow> fm_children g \<noteq> {})"
    "pc = Past \<longrightarrow> fm_children g = {}"
    using assms(1) unfolding same family_ok_def prod.case by blast+
  ultimately show ?thesis unfolding family_ok_def prod.case let_go_frame(1-3) by blast
qed

lemma same_held_ok:
  assumes "family_ok (pc, f)" and "held g = held f"
    and "fm_children g = fm_children f" and "fm_dying g = fm_dying f" and "fm_events g = fm_events f"
  shows "family_ok (pc, g)"
  using assms(1) unfolding family_ok_def prod.case assms(2-5) .

lemma own_step_ok:
  assumes "own_step again (pc, f) (pc', f')" and ok: "family_ok (pc, f)"
  shows "family_ok (pc', f')"
  using assms(1)
proof (cases rule: own_step.cases)
  case (Take p q)
  have "held (f\<lparr>fm_queue := q, fm_current := Some (p, False)\<rparr>) = held f"
    unfolding held_def fun_eq_iff using Take by auto
  from same_held_ok [OF ok this] Take show ?thesis by simp
next
  case (Work p)
  have "held ((muxer_forgets again p f)\<lparr>fm_current := Some (p, True)\<rparr>) = held f"
    unfolding held_def fun_eq_iff muxer_forgets_def using Work by auto
  from same_held_ok [OF ok this] Work show ?thesis by (simp add: muxer_forgets_def)
next
  case (Leave p)
  have "held f p" using Leave by (auto simp: held_def)
  moreover have "held (f\<lparr>fm_current := None\<rparr>) q = held f q" if "q \<noteq> p" for q
    using that Leave by (simp add: held_def)
  ultimately have "family_ok (pc, let_go p (f\<lparr>fm_current := None\<rparr>))" by (rule let_go_ok [OF ok]) simp_all
  with Leave show ?thesis by simp
next
  case (Destroy p)
  have "held (destroy_child p f) = held f" by (simp add: destroy_child_def held_def fun_eq_iff)
  with Destroy ok show ?thesis by (auto simp: family_ok_def destroy_child_def)
next
  case Check
  with ok show ?thesis by (auto simp: family_ok_def check_children_def split: if_splits)
next
  case (Wake n)
  with ok show ?thesis by (simp add: family_ok_def)
qed

lemma env_step_ok:
  assumes "env_step again (pc, f) (pc', f')" and ok: "family_ok (pc, f)"
  shows "family_ok (pc', f')"
  using assms(1)
proof (cases rule: env_step.cases)
  case (Create p)
  have "held (f\<lparr>fm_children := insert p (fm_children f), fm_others := (fm_others f)(p := 1)\<rparr>) = (held f)(p := True)"
    by (auto simp: held_def fun_eq_iff)
  with Create ok show ?thesis by (auto simp: family_ok_def)
next
  case (Share p)
  have "held (f\<lparr>fm_others := (fm_others f)(p := Suc (fm_others f p))\<rparr>) = held f"
    using Share(3) by (auto simp: held_def fun_eq_iff)
  from same_held_ok [OF ok this] Share show ?thesis by simp
next
  case (Register p)
  have "held (f\<lparr>fm_muxer := insert p (fm_muxer f)\<rparr>) = held f"
    using Register(3) by (auto simp: held_def fun_eq_iff)
  from same_held_ok [OF ok this] Register show ?thesis by simp
next
  case (Release p)
  have "held f p" using Release by (simp add: held_def)
  moreover have "held (f\<lparr>fm_others := (fm_others f)(p := fm_others f p - 1)\<rparr>) q = held f q" if "q \<noteq> p" for q
    using that by (simp add: held_def)
  ultimately have "family_ok (pc, let_go p (f\<lparr>fm_others := (fm_others f)(p := fm_others f p - 1)\<rparr>))"
    by (rule let_go_ok [OF ok]) simp_all
  with Release show ?thesis by simp
next
  case (Forget p)
  have "held f p" using Forget by (simp add: held_def)
  moreover have "held (muxer_forgets again p f) q = held f q" if "q \<noteq> p" for q
    using that by (auto simp: held_def muxer_forgets_def)
  ultimately have "family_ok (pc, let_go p (muxer_forgets again p f))"
    by (rule let_go_ok [OF ok]) (simp_all add: muxer_forgets_def)
  with Forget show ?thesis by simp
next
  case (Kill p)
  with same_held_ok [OF ok, of "kill_child p f"] show ?thesis by simp
next
  case Enter
  with ok show ?thesis by (auto simp: family_ok_def enter_dtor_def)
qed

lemma family_step_ok: "family_step again s s' \<Longrightarrow> family_ok s \<Longrightarrow> family_ok s'"
  using own_step_ok env_step_ok unfolding family_step_def by (metis prod.exhaust)

definition no_family :: family where
  "no_family = \<lparr>fm_children = {}, fm_muxer = {}, fm_others = (\<lambda>p. 0), fm_queue = [], fm_current = None,
     fm_dying = {}, fm_events = 0\<rparr>"

lemma no_family_ok: "family_ok (Before, no_family)"
  by (simp add: family_ok_def no_family_def held_def)

lemma family_run_ok: "(family_step again)\<^sup>*\<^sup>* s s' \<Longrightarrow> family_ok s \<Longrightarrow> family_ok s'"
  by (induction rule: rtranclp_induct) (auto intro: family_step_ok)


text \<open>
  A reference that is never given up, wherever it is, keeps the destructor in its loop.
\<close>

lemma held_child_blocks:
  assumes "(family_step again)\<^sup>*\<^sup>* (Before, no_family) (pc, f)" and "0 < fm_others f p"
  shows "pc \<noteq> Past"
proof
  assume "pc = Past"
  then have "family_ok (Past, f)" using family_run_ok [OF assms(1) no_family_ok] by simp
  with assms(2) show False by (auto simp: family_ok_def held_def)
qed

section \<open>The destructor comes to an end\<close>

text \<open>A destructor that sleeps: every child is on its way through the reaper, or nobody but a stranger holds it.\<close>

definition awaited :: "dtor \<times> family \<Rightarrow> bool" where
  "awaited s \<longleftrightarrow> (case s of (pc, f) \<Rightarrow> \<forall>n. pc = Waiting n \<and> fm_events f < n \<longrightarrow>
     (\<forall>p \<in> fm_children f. p \<in> fm_dying f \<or> Some p \<in> set (fm_queue f) \<or> fm_current f = Some (p, False) \<or> p \<notin> fm_muxer f))"

lemma check_awaited:
  assumes "family_ok (Checking, f)"
  shows "awaited (check_children f)"
proof -
  have fin: "finite (fm_children f)" and set: "{p. held f p} \<union> fm_dying f = fm_children f"
    using assms by (simp_all add: family_ok_def)
  have "p \<in> fm_dying f \<or> Some p \<in> set (fm_queue (fold kill_child (sorted_list_of_set (fm_children f)) f))"
    if p: "p \<in> fm_children f" for p
  proof (cases "held f p")
    case True
    with p fin show ?thesis by (force simp: kill_all_queue)
  qed (use p set in blast)
  then show ?thesis by (auto simp: awaited_def check_children_def)
qed

lemma own_step_awaited:
  assumes "own_step again (pc, f) (pc', f')" and "family_ok (pc, f)" and aw: "awaited (pc, f)"
  shows "awaited (pc', f')"
  using assms(1)
proof (cases rule: own_step.cases)
  case Check
  with check_awaited assms(2) show ?thesis by simp
next
  case (Destroy p)
  with assms(2) show ?thesis by (auto simp: awaited_def destroy_child_def family_ok_def)
next
  case (Take p q)
  with aw show ?thesis by (auto simp: awaited_def)
next
  case (Work p)
  with aw show ?thesis by (auto simp: awaited_def muxer_forgets_def)
next
  case (Leave p)
  with aw show ?thesis by (auto simp: awaited_def)
next
  case (Wake n)
  with aw show ?thesis by (simp add: awaited_def)
qed

definition stage :: "(nat \<times> bool) option \<Rightarrow> nat" where
  "stage c = (case c of None \<Rightarrow> 0 | Some (p, done_) \<Rightarrow> if done_ then 1 else 2)"

definition rank :: "dtor \<Rightarrow> nat \<Rightarrow> nat" where
  "rank pc events = (case pc of Checking \<Rightarrow> 1 | Waiting n \<Rightarrow> (if n \<le> events then 2 else 0) | _ \<Rightarrow> 0)"

definition to_do :: "dtor \<times> family \<Rightarrow> nat \<times> nat \<times> nat \<times> nat" where
  "to_do s = (case s of (pc, f) \<Rightarrow> (card (fm_children f), rank pc (fm_events f), card (fm_muxer f),
     3 * length (fm_queue f) + stage (fm_current f)))"

abbreviation less4 :: "((nat \<times> nat \<times> nat \<times> nat) \<times> (nat \<times> nat \<times> nat \<times> nat)) set" where
  "less4 \<equiv> less_than <*lex*> less_than <*lex*> less_than <*lex*> less_than"

lemma own_step_decreases:
  assumes "own_step again (pc, f) (pc', f')" and ok: "family_ok (pc, f)"
  shows "(to_do (pc', f'), to_do (pc, f)) \<in> less4"
proof -
  have fin: "finite (fm_children f)" and set: "{p. held f p} \<union> fm_dying f = fm_children f"
    using ok by (simp_all add: family_ok_def)
  have muxer: "finite (fm_muxer f)"
    using fin set by (rule_tac finite_subset [of _ "fm_children f"]) (auto simp: held_def)
  from assms(1) show ?thesis
  proof (cases rule: own_step.cases)
    case (Work p)
    show ?thesis
    proof (cases "p \<in> fm_muxer f")
      case True
      with muxer have "card (fm_muxer f - {p}) < card (fm_muxer f)" by (rule card_Diff1_less)
      with Work show ?thesis by (simp add: to_do_def muxer_forgets_def)
    qed (use Work in \<open>simp add: to_do_def muxer_forgets_def stage_def\<close>)
  next
    case (Destroy p)
    with set have "p \<in> fm_children f" by blast
    with fin have "card (fm_children f - {p}) < card (fm_children f)" by (rule card_Diff1_less)
    with Destroy show ?thesis by (simp add: to_do_def destroy_child_def)
  next
    case (Take p q)
    then show ?thesis by (simp add: to_do_def stage_def)
  next
    case (Leave p)
    then show ?thesis by (simp add: to_do_def stage_def)
  qed (auto simp: to_do_def check_children_def rank_def)
qed

lemma own_run_ok:
  "(own_step again)\<^sup>*\<^sup>* s s' \<Longrightarrow> family_ok s \<Longrightarrow> awaited s \<Longrightarrow> family_ok s' \<and> awaited s' \<and> fm_others (snd s') = fm_others (snd s)"
proof (induction rule: rtranclp_induct)
  case (step s1 s2)
  obtain pc f pc' f' where s: "s1 = (pc, f)" "s2 = (pc', f')" by fastforce
  have "fm_others f' = fm_others f"
    using step.hyps(2) unfolding s
    by (cases rule: own_step.cases) (auto simp: muxer_forgets_def destroy_child_def check_children_def split: if_splits)
  moreover have "family_ok s1" "awaited s1" "fm_others f = fm_others (snd s)" using step s by auto
  ultimately show ?case using step.hyps(2) own_step_ok own_step_awaited unfolding s by (metis snd_conv)
qed simp

lemma quiet_progress:
  assumes "family_ok (pc, f)" and "awaited (pc, f)" and strangers: "\<forall>p. fm_others f p = 0" and "pc \<noteq> Before"
    and stuck: "\<And>s. \<not> own_step again (pc, f) s"
  shows "pc = Past \<or> reaper_at_null f"
proof (cases pc)
  case (Waiting n)
  have asleep: "fm_events f < n" using stuck own_step.Wake [of n f again] unfolding Waiting by (meson not_le)
  have idle: "fm_current f = None"
  proof (cases "fm_current f")
    case (Some pb)
    obtain p b where "pb = (p, b)" by fastforce
    with Some stuck own_step.Work [of f p again pc] own_step.Leave [of f p again pc] show ?thesis by (cases b) auto
  qed
  have none_dying: "fm_dying f = {}" using stuck own_step.Destroy [of _ f again pc] by blast
  show ?thesis
  proof (cases "fm_queue f")
    case Nil
    have "fm_children f \<noteq> {}" "{p. held f p} \<union> fm_dying f = fm_children f"
      using assms(1) asleep by (simp_all add: family_ok_def Waiting)
    then obtain p where "p \<in> fm_children f" "held f p" using none_dying by blast
    with assms(2) asleep Nil idle none_dying have "p \<notin> fm_muxer f" by (auto simp: awaited_def Waiting)
    with \<open>held f p\<close> Nil idle strangers show ?thesis by (simp add: held_def)
  next
    case (Cons x q)
    with stuck own_step.Take [OF idle, of _ q again pc] show ?thesis
      by (cases x) (auto simp: reaper_at_null_def idle)
  qed
next
  case Checking
  with stuck own_step.Check show ?thesis by blast
qed (use assms(4) in simp_all)

text \<open>
  C16: the destructor of a manager comes to an end. Once no transfer, connection or thread holds an object
  any more, the reaper, the objects' destructors and the manager's destructor cannot go on for ever, in
  whatever order they take their turns; no wake-up is lost on the way, so where they stop the manager's destructor is past
  its loop with no object left, or the reaper has come to a null pointer, which it dereferences.
\<close>

theorem destructor_ends:
  assumes "family_ok (Checking, f)" and "\<forall>p. fm_others f p = 0"
  shows "\<not> (\<exists>run. run 0 = (Checking, f) \<and> (\<forall>i. own_step again (run i) (run (Suc i))))
    \<and> ((own_step again)\<^sup>*\<^sup>* (Checking, f) (pc, g) \<and> (\<forall>s. \<not> own_step again (pc, g) s)
        \<longrightarrow> pc = Past \<and> fm_children g = {} \<or> reaper_at_null g)"
proof (intro conjI notI impI)
  have start: "awaited (Checking, f)" by (simp add: awaited_def)
  assume "\<exists>run. run 0 = (Checking, f) \<and> (\<forall>i. own_step again (run i) (run (Suc i)))"
  then obtain run where run: "run 0 = (Checking, f)" "\<And>i. own_step again (run i) (run (Suc i))" by blast
  have ok: "family_ok (run i)" for i
  proof (induction i)
    case (Suc i)
    obtain pc1 f1 pc2 f2 where s: "run i = (pc1, f1)" "run (Suc i) = (pc2, f2)" by fastforce
    with own_step_ok run(2) [of i] Suc show ?case by simp
  qed (simp add: run(1) assms(1))
  have down: "(to_do (run (Suc i)), to_do (run i)) \<in> less4" for i
  proof -
    obtain pc1 f1 pc2 f2 where s: "run i = (pc1, f1)" "run (Suc i) = (pc2, f2)" by fastforce
    with own_step_decreases run(2) [of i] ok [of i] show ?thesis by simp
  qed
  have "\<exists>h. \<forall>i. (h (Suc i), h i) \<in> less4" by (rule exI [of _ "\<lambda>i. to_do (run i)"]) (use down in blast)
  moreover have "wf less4" by (intro wf_lex_prod wf_less_than)
  ultimately show False unfolding wf_iff_no_infinite_down_chain by simp
next
  assume run: "(own_step again)\<^sup>*\<^sup>* (Checking, f) (pc, g) \<and> (\<forall>s. \<not> own_step again (pc, g) s)"
  have "awaited (Checking, f)" by (simp add: awaited_def)
  with own_run_ok [OF conjunct1 [OF run] assms(1)] assms(2)
  have g: "family_ok (pc, g)" "awaited (pc, g)" "\<forall>p. fm_others g p = 0" by simp_all
  have "pc \<noteq> Before"
    using conjunct1 [OF run]
  proof (induction "(pc, g)" arbitrary: pc g rule: rtranclp_induct)
    case (step s)
    then show ?case by (cases s) (auto elim!: own_step.cases simp: check_children_def split: if_splits)
  qed simp
  with quiet_progress [OF g] run have "pc = Past \<or> reaper_at_null g" by blast
  with g(1) show "pc = Past \<and> fm_children g = {} \<or> reaper_at_null g" by (auto simp: family_ok_def)
qed

section \<open>A null pointer for the reaper\<close>

text \<open>
  C17: the null pointer is real. The destructor of the manager kills every object in the set, also one whose last
  reference is gone and whose own destructor only waits for the lock to leave the set: the weak reference
  is null then, and null is what the reaper gets.
\<close>

theorem dying_child_posts_null:
  assumes "family_ok (Checking, f)" and "p \<in> fm_dying f" and "fm_queue f = []" and "fm_current f = None"
    and "\<forall>q \<in> fm_children f. p \<le> q"
  shows "\<exists>n g. check_children f = (Waiting n, g) \<and> own_step again (Checking, f) (Waiting n, g) \<and> reaper_at_null g"
proof -
  have fin: "finite (fm_children f)" and p: "p \<in> fm_children f" "\<not> held f p"
    using assms(1,2) by (auto simp: family_ok_def)
  let ?g = "fold kill_child (sorted_list_of_set (fm_children f)) f"
  have least: "Min (fm_children f) = p" using fin p(1) assms(5) by (intro Min_eqI) auto
  have "sorted_list_of_set (fm_children f) = Min (fm_children f) # sorted_list_of_set (fm_children f - {Min (fm_children f)})"
    using fin p(1) by (intro sorted_list_of_set_nonempty) auto
  moreover have "fm_queue ?g = map (\<lambda>q. if held f q then Some q else None) (sorted_list_of_set (fm_children f))"
    by (simp only: kill_all_queue assms(3) append_Nil)
  ultimately have "hd (fm_queue ?g) = None" "fm_queue ?g \<noteq> []" using p(2) by (simp_all add: least)
  then have "reaper_at_null ?g" using assms(4) by (simp add: reaper_at_null_def)
  moreover have check: "check_children f = (Waiting (Suc (fm_events f)), ?g)" using p(1) by (auto simp: check_children_def)
  moreover have "own_step again (Checking, f) (check_children f)" by (rule own_step.Check)
  ultimately show ?thesis by metis
qed

section \<open>Concrete runs\<close>

definition ex_one :: family where
  "ex_one = no_family\<lparr>fm_children := {1}, fm_others := (\<lambda>p. 0)(1 := 1)\<rparr>"

definition ex_dying :: family where
  "ex_dying = no_family\<lparr>fm_children := {1}, fm_dying := {1}\<rparr>"

definition ex_registered :: family where
  "ex_registered = no_family\<lparr>fm_children := {1}, fm_muxer := {1}\<rparr>"

lemmas ex_family_eval = ex_one_def ex_dying_def ex_registered_def no_family_def held_def let_go_def

lemma ex_one_made: "family_step again (Before, no_family) (Before, ex_one)"
  using env_step.Create [of 1 no_family again] by (simp add: family_step_def ex_family_eval)

lemma ex_one_released: "family_step again (pc, ex_one) (pc, ex_dying)"
proof -
  have "0 < fm_others ex_one 1" by (simp add: ex_one_def)
  moreover have "let_go 1 (ex_one\<lparr>fm_others := (fm_others ex_one)(1 := fm_others ex_one 1 - 1)\<rparr>) = ex_dying"
    by (simp add: ex_family_eval fun_eq_iff)
  ultimately show ?thesis using env_step.Release [of ex_one 1 again pc] by (simp only: family_step_def simp_thms)
qed

lemma ex_dying_reached: "(family_step again)\<^sup>*\<^sup>* (Before, no_family) (Checking, ex_dying)"
proof -
  have "family_step again (Before, ex_one) (Checking, ex_one)"
    using env_step.Enter [of again ex_one] by (simp add: family_step_def enter_dtor_def ex_one_def)
  then show ?thesis using ex_one_made ex_one_released by (meson rtranclp.rtrancl_into_rtrancl rtranclp.rtrancl_refl)
qed


lemma destructor_ends_witness:
  "\<not> (\<exists>run. run 0 = (Checking, ex_registered) \<and> (\<forall>i. own_step True (run i) (run (Suc i))))"
proof -
  have "family_ok (Checking, ex_registered)" "\<forall>p. fm_others ex_registered p = 0"
    by (auto simp: family_ok_def ex_family_eval)
  from destructor_ends [OF this, of True] show ?thesis by blast
qed

lemma dying_child_posts_null_witness:
  "\<exists>n g. (family_step False)\<^sup>*\<^sup>* (Before, no_family) (Waiting n, g) \<and> reaper_at_null g"
proof -
  have "family_ok (Checking, ex_dying)" using family_run_ok [OF ex_dying_reached no_family_ok] .
  moreover have "1 \<in> fm_dying ex_dying" "fm_queue ex_dying = []" "fm_current ex_dying = None" "\<forall>q \<in> fm_children ex_dying. 1 \<le> q"
    by (simp_all add: ex_dying_def no_family_def)
  ultimately obtain n g where "own_step False (Checking, ex_dying) (Waiting n, g)" "reaper_at_null g"
    using dying_child_posts_null by metis
  with ex_dying_reached show ?thesis by (meson family_step_def rtranclp.rtrancl_into_rtrancl)
qed

end
