(* ===== verification/USB_Lifetime.thy ===== *)
theory USB_Lifetime
  imports USB_Manager Children
begin

text \<open>
  Beginnings and ends in the USB part: the constructor, \<open>stopAction\<close> and destructor of
  \<^verbatim>\<open>Manager/USBDeviceManager.cpp\<close>, and the constructor, receivers and destructor of
  \<^verbatim>\<open>Devices/USBDevice.cpp\<close>. The wait of the manager's destructor is \<open>check_children\<close> of
  \<^verbatim>\<open>Children\<close>.
\<close>

section \<open>The manager\<close>

text \<open>
  What libusb answers: whether it can report hotplug events and be initialised, the result of a
  registration with the handle it gives out, and the devices that are attached, which a registration with
  \<^verbatim>\<open>LIBUSB_HOTPLUG_ENUMERATE\<close> reports as arrived.
\<close>

record hotplug_env =
  he_has_hotplug :: bool
  he_init :: bool
  he_register :: int
  he_handle :: nat
  he_attached :: "libusb_dev list"

text \<open>
  \<open>sv_callbacks\<close> are the handles under which the manager's callback is registered, \<open>sv_torn_down\<close> counts how
  often the members of the object were destroyed.
\<close>

record usb_service =
  sv_manager :: usb_manager
  sv_ctx :: bool
  sv_handle :: nat
  sv_callbacks :: "nat set"
  sv_reaper :: bool
  sv_loop :: bool
  sv_torn_down :: nat

definition register_hotplug :: "'p mux_env \<Rightarrow> bytes \<Rightarrow> hotplug_env \<Rightarrow> usb_service \<Rightarrow> bool \<times> usb_service" where
  "register_hotplug env pktbuf h s =
     (if he_register h \<noteq> 0 then (False, s)
      else (True, s\<lparr>sv_handle := he_handle h, sv_callbacks := insert (he_handle h) (sv_callbacks s),
              sv_manager := fold (\<lambda>ld. usb_hotplug_cb env pktbuf ld DEVICE_ARRIVED) (he_attached h) (sv_manager s)\<rparr>))"

definition deregister_hotplug :: "usb_service \<Rightarrow> usb_service" where
  "deregister_hotplug s = s\<lparr>sv_callbacks := sv_callbacks s - {sv_handle s}, sv_handle := 0\<rparr>"

definition usb_loopEvent :: "int \<Rightarrow> (usb_service, bool) act" where
  "usb_loopEvent err s = (if err \<noteq> 0 then (Inl Handle_events_failed, s) else (Inr True, s))"

definition usb_stopAction :: "'p mux_env \<Rightarrow> bytes \<Rightarrow> hotplug_env \<Rightarrow> usb_service \<Rightarrow> usb_service" where
  "usb_stopAction env pktbuf h s = deregister_hotplug (snd (register_hotplug env pktbuf h s))"

text \<open>The destructor before and after the wait for the children.\<close>

definition usb_dtor_begin :: "usb_service \<Rightarrow> usb_service" where
  "usb_dtor_begin s = (if sv_handle s \<noteq> 0 then deregister_hotplug s else s)"

definition usb_dtor_end :: "'p mux_env \<Rightarrow> bytes \<Rightarrow> hotplug_env \<Rightarrow> usb_service \<Rightarrow> usb_service" where
  "usb_dtor_end env pktbuf h s =
     (let s1 = s\<lparr>sv_reaper := False\<rparr>;
          s2 = (if sv_loop s1 then (usb_stopAction env pktbuf h s1)\<lparr>sv_loop := False\<rparr> else s1)
      in s2\<lparr>sv_ctx := False, sv_torn_down := Suc (sv_torn_down s2)\<rparr>)"

text \<open>
  The constructor: a failure runs the destructor explicitly, before the exception leaves the constructor and
  destroys the members.
\<close>

definition usb_failed_start :: "'p mux_env \<Rightarrow> bytes \<Rightarrow> hotplug_env \<Rightarrow> muxerr \<Rightarrow> (usb_service, unit) act" where
  "usb_failed_start env pktbuf h e s =
     (let s1 = usb_dtor_end env pktbuf h (usb_dtor_begin s) in (Inl e, s1\<lparr>sv_torn_down := Suc (sv_torn_down s1)\<rparr>))"

definition usb_service_start :: "'p mux_env \<Rightarrow> bytes \<Rightarrow> hotplug_env \<Rightarrow> muxer \<Rightarrow> unit res \<times> usb_service" where
  "usb_service_start env pktbuf h m =
     (let s = \<lparr>sv_manager = new_usb_manager m, sv_ctx = False, sv_handle = 0, sv_callbacks = {}, sv_reaper = False,
            sv_loop = False, sv_torn_down = 0\<rparr> in
      if \<not> he_has_hotplug h then usb_failed_start env pktbuf h Hotplug_failed s
      else if \<not> he_init h then usb_failed_start env pktbuf h Assure_failed s
      else case register_hotplug env pktbuf h (s\<lparr>sv_ctx := True\<rparr>) of
        (False, s1) \<Rightarrow> usb_failed_start env pktbuf h Hotplug_failed s1
      | (True, s1) \<Rightarrow> (Inr (), s1\<lparr>sv_reaper := True\<rparr>))"

section \<open>Starting and stopping\<close>

lemma failed_start_tears_down_twice:
  assumes "usb_service_start env pktbuf h m = (Inl e, s)"
  shows "sv_torn_down s = 2 \<and> \<not> sv_ctx s \<and> \<not> sv_reaper s \<and> um_pending (sv_manager s) = []"
  using assms
  by (auto simp: usb_service_start_def usb_failed_start_def usb_dtor_end_def usb_dtor_begin_def register_hotplug_def
      new_usb_manager_def Let_def split: if_splits)

lemma hotplug_keeps_mux: "um_mux (usb_hotplug_cb env pktbuf ld DEVICE_ARRIVED u) = um_mux u"
proof -
  have conf: "um_mux t = um_mux s" if "set_configuration ld desc c s = (q, t)" for desc c s q t
    using that by (auto simp: set_configuration_def Let_def split: if_splits option.splits)
  have start: "um_mux (snd (start_construction pktbuf ld desc found s)) = um_mux s" for desc found s
    by (simp add: start_construction_def add_constructing_def Let_def split: prod.split)
  show ?thesis
    by (auto simp: usb_hotplug_cb_def device_add_def Let_def thenE_def start split: option.split prod.split sum.split
        dest: conf)
qed

text \<open>
  C19: stopping takes devices up again. The destructor waits until every device is gone, ends the reaper, and
  then stops the loop; \<open>stopAction\<close> registers for hotplug events once more, to wake the loop up, with the flag
  that reports every attached device. A device that is still plugged in is opened, claimed and
  put under construction again, by a manager that has no reaper and gives libusb's context back.
\<close>

theorem stopping_takes_devices_up:
  assumes "sv_loop s" and "he_register h = 0" and "he_attached h = [ld]" and "um_pending (sv_manager s) = []"
    and "um_pending (snd (device_add pktbuf ld (sv_manager s))) \<noteq> []"
  shows "\<exists>x pd. um_pending (sv_manager (usb_dtor_end env pktbuf h s)) = [(x, pd)]
      \<and> ui_bus (pd_info pd) = ld_bus ld \<and> ui_address (pd_info pd) = ld_address ld
    \<and> \<not> sv_reaper (usb_dtor_end env pktbuf h s) \<and> \<not> sv_ctx (usb_dtor_end env pktbuf h s)
    \<and> sv_handle (usb_dtor_end env pktbuf h s) = 0"
proof -
  obtain r u where run: "device_add pktbuf ld (sv_manager s) = (r, u)" by (metis prod.exhaust)
  with device_add_step [OF run] assms(4,5) obtain x pd where
    "um_pending u = [(x, pd)]" "ui_bus (pd_info pd) = ld_bus ld" "ui_address (pd_info pd) = ld_address ld"
    by auto
  with assms(1-3) run show ?thesis
    by (simp add: usb_dtor_end_def usb_stopAction_def register_hotplug_def deregister_hotplug_def usb_hotplug_cb_def Let_def)
qed

text \<open>Nothing of the kind happens where no device is attached: the manager is as it was, without context and reaper.\<close>

lemma quiet_stop:
  assumes "he_attached h = []"
  shows "sv_manager (usb_dtor_end env pktbuf h s) = sv_manager s"
  using assms by (simp add: usb_dtor_end_def usb_stopAction_def register_hotplug_def deregister_hotplug_def Let_def)

section \<open>The wait for the devices and the reaper\<close>

text \<open>One round of the loop in the destructor; \<open>f\<close> is the family of the USB devices.\<close>

definition usb_check_children :: "family \<Rightarrow> dtor \<times> family" where
  "usb_check_children f =
     (if fm_children f = {} then (Past, f)
      else (Waiting (Suc (fm_events f)), fold kill_child (sorted_list_of_set (fm_children f)) f))"

text \<open>
  The thread of the reaper on what is posted to it, over the devices by their addresses; the call on a null
  pointer has no result.
\<close>

fun usb_reaper :: "nat option list \<Rightarrow> (nat \<Rightarrow> usbdev) \<Rightarrow> (nat \<Rightarrow> usbdev) option" where
  "usb_reaper [] st = Some st"
| "usb_reaper (None # q) st = None"
| "usb_reaper (Some p # q) st = usb_reaper q (st(p := usbdev_deconstruct (st p)))"

lemma usb_wait_is_wait: "usb_check_children = check_children"
  by (simp add: fun_eq_iff usb_check_children_def check_children_def)

lemma usb_reaper_null: "usb_reaper q st = None \<longleftrightarrow> None \<in> set q"
proof (induction q arbitrary: st)
  case (Cons x q)
  then show ?case by (cases x) simp_all
qed simp

text \<open>Every device that was posted is out of the muxer and has its transfers cancelled; nothing undoes that.\<close>

lemma usb_reaper_cancels:
  assumes "usb_reaper q st = Some st'"
  shows "ud_rx_xfers (st' p) = ud_rx_xfers (st p) \<and> ul_tx_xfers (st' p) = ul_tx_xfers (st p)
    \<and> ud_cancelled (st p) \<subseteq> ud_cancelled (st' p)
    \<and> (Some p \<in> set q \<longrightarrow> ud_rx_xfers (st p) \<union> ul_tx_xfers (st p) \<subseteq> ud_cancelled (st' p))"
  using assms
proof (induction q arbitrary: st)
  case (Cons x q)
  then obtain y where x: "x = Some y" by (cases x) auto
  let ?st = "st(y := usbdev_deconstruct (st y))"
  have "usb_reaper q ?st = Some st'" using Cons.prems x by simp
  from Cons.IH [OF this] x show ?case by (cases "p = y") (auto simp: usbdev_deconstruct_def)
qed simp

text \<open>
  The wait for a device that is already dying ends the daemon. Where the destructor of the manager goes
  round its loop while a device that nothing holds is still in the set, the reaper's thread reaches a null
  pointer, whatever was posted before.
\<close>

theorem usb_wait_reaches_null:
  assumes "finite (fm_children f)" and "p \<in> fm_children f" and "\<not> held f p" and "usb_check_children f = (pc, f')"
  shows "usb_reaper (fm_queue f') st = None"
proof -
  have "f' = fold kill_child (sorted_list_of_set (fm_children f)) f"
    using assms(2,4) by (auto simp: usb_check_children_def split: if_splits)
  then have "None \<in> set (fm_queue f')" using assms(1-3) by (force simp: kill_all_queue)
  then show ?thesis by (simp add: usb_reaper_null)
qed

section \<open>A device\<close>

text \<open>
  \<open>ub_flight\<close> are the receive transfers libusb works on, \<open>ub_arrived\<close> is the queue of the completed
  ones; each transfer in \<open>ud_rx_xfers\<close> holds a reference to the device, which its callback gives up.
\<close>

record usb_body =
  ub_dev :: usbdev
  ub_flight :: "nat set"
  ub_arrived :: "nat list"
  ub_receivers :: nat
  ub_reaper :: bool
  ub_handle :: bool

definition usbdev_start :: "bytes option \<Rightarrow> usb_body res" where
  "usbdev_start pktbuf =
     (case pktbuf of
        None \<Rightarrow> Inl Assure_failed
      | Some b \<Rightarrow> Inr \<lparr>ub_dev = new_usbdev b 0, ub_flight = {}, ub_arrived = [], ub_receivers = 0,
          ub_reaper = True, ub_handle = False\<rparr>)"

definition addReceiver :: "usb_body \<Rightarrow> usb_body" where
  "addReceiver b = b\<lparr>ub_receivers := Suc (ub_receivers b)\<rparr>"

text \<open>
  The destructor, without the step that takes the device from the manager's set, which is \<open>destroy_child\<close>. The
  assertion at its end stops the daemon.
\<close>

definition usbdev_destroy :: "(usb_body, unit) act" where
  "usbdev_destroy b =
     (let b1 = b\<lparr>ub_arrived := [], ub_receivers := 0, ub_reaper := False,
            ub_dev := (ub_dev b)\<lparr>ul_muxdev := (ul_muxdev (ub_dev b))\<lparr>md_pktbuf := []\<rparr>\<rparr>, ub_handle := False\<rparr>
      in if isDeviceReadyForDestruction (ub_dev b1) then (Inr (), b1) else (Inl Trap, b1))"

text \<open>
  A turn of a receiver: \<open>process\<close> is \<open>device_data_input\<close> on the transfer it took, \<open>submits\<close> whether libusb
  takes the transfer back, which the code does not look at.
\<close>

definition receiver_turn :: "(usbdev \<Rightarrow> unit res \<times> usbdev) \<Rightarrow> bool \<Rightarrow> usb_body \<Rightarrow> (bool \<times> usb_body) option" where
  "receiver_turn process submits b =
     (case ub_arrived b of
        [] \<Rightarrow> None
      | x # xs \<Rightarrow>
          (case process (ub_dev b) of (r, d) \<Rightarrow>
             (case receiver_result r d of (goes_on, d') \<Rightarrow>
                Some (goes_on, b\<lparr>ub_dev := d', ub_arrived := xs,
                  ub_flight := (if submits then insert x (ub_flight b) else ub_flight b)\<rparr>))))"

text \<open>A callback of libusb for a receive transfer.\<close>

definition rx_arrives :: "nat \<Rightarrow> libusb_transfer_status \<Rightarrow> usb_body \<Rightarrow> usb_body" where
  "rx_arrives x status b =
     (case rx_callback x status (ub_dev b) of (posted, d) \<Rightarrow>
        b\<lparr>ub_dev := d, ub_flight := ub_flight b - {x},
          ub_arrived := (if posted then ub_arrived b @ [x] else ub_arrived b)\<rparr>)"

text \<open>
  What happens to a device: libusb completes what it works on, receivers take their turns, the manager
  deconstructs the device, new transfers are started, and everything else leaves the set of receive transfers as
  it is. A transfer that libusb does not have can be cancelled without any effect.
\<close>

inductive body_step :: "usb_body \<Rightarrow> usb_body \<Rightarrow> bool" where
  Callback: "x \<in> ub_flight b \<Longrightarrow> body_step b (rx_arrives x status b)"
| Receive: "receiver_turn process submits b = Some (goes_on, b')
    \<Longrightarrow> ud_rx_xfers (snd (process (ub_dev b))) = ud_rx_xfers (ub_dev b) \<Longrightarrow> body_step b b'"
| Deconstruct: "body_step b (b\<lparr>ub_dev := usbdev_deconstruct (ub_dev b)\<rparr>)"
| Start: "x \<notin> ud_rx_xfers (ub_dev b) \<Longrightarrow> usb_start_rx_loop x True (ub_dev b) = (r, d)
    \<Longrightarrow> body_step b (addReceiver (b\<lparr>ub_dev := d, ub_flight := insert x (ub_flight b)\<rparr>))"
| Other: "ud_rx_xfers d = ud_rx_xfers (ub_dev b) \<Longrightarrow> body_step b (b\<lparr>ub_dev := d\<rparr>)"

definition lost :: "nat \<Rightarrow> usb_body \<Rightarrow> bool" where
  "lost x b \<longleftrightarrow> x \<in> ud_rx_xfers (ub_dev b) \<and> x \<notin> ub_flight b \<and> x \<notin> set (ub_arrived b)"

lemma receiver_result_rx: "ud_rx_xfers (snd (receiver_result r d)) = ud_rx_xfers d"
  by (simp add: receiver_result_def usbdev_kill_def split: sum.split)

lemma receiver_turn_rx:
  assumes "receiver_turn process submits b = Some (goes_on, b')"
    and "ud_rx_xfers (snd (process (ub_dev b))) = ud_rx_xfers (ub_dev b)"
  shows "ud_rx_xfers (ub_dev b') = ud_rx_xfers (ub_dev b)"
    and "\<exists>x xs. ub_arrived b = x # xs \<and> ub_arrived b' = xs
      \<and> ub_flight b' = (if submits then insert x (ub_flight b) else ub_flight b)"
proof -
  obtain x xs where q: "ub_arrived b = x # xs" using assms(1) by (cases "ub_arrived b") (auto simp: receiver_turn_def)
  obtain r d where p: "process (ub_dev b) = (r, d)" by fastforce
  obtain g d' where rr: "receiver_result r d = (g, d')" by fastforce
  have b': "b' = b\<lparr>ub_dev := d', ub_arrived := xs, ub_flight := (if submits then insert x (ub_flight b) else ub_flight b)\<rparr>"
    using assms(1) by (simp add: receiver_turn_def q p rr)
  show "ud_rx_xfers (ub_dev b') = ud_rx_xfers (ub_dev b)"
    using receiver_result_rx [of r d] assms(2) by (simp add: b' p rr)
  show "\<exists>x xs. ub_arrived b = x # xs \<and> ub_arrived b' = xs
      \<and> ub_flight b' = (if submits then insert x (ub_flight b) else ub_flight b)" by (simp add: b' q)
qed

lemma lost_stays: "body_step b b' \<Longrightarrow> lost x b \<Longrightarrow> lost x b'"
proof (induction rule: body_step.induct)
  case (Callback y b status)
  then show ?case by (auto simp: lost_def rx_arrives_def rx_callback_def usbdev_kill_def)
next
  case (Receive process submits b goes_on b')
  from receiver_turn_rx [OF Receive.hyps] Receive.prems show ?case by (auto simp: lost_def split: if_splits)
next
  case (Deconstruct b)
  then show ?case by (simp add: lost_def usbdev_deconstruct_def)
next
  case (Start y b r d)
  then show ?case by (auto simp: lost_def usb_start_rx_loop_def addReceiver_def Let_def)
next
  case (Other d b)
  then show ?case by (simp add: lost_def)
qed

lemma lost_for_ever: "body_step\<^sup>*\<^sup>* b b' \<Longrightarrow> lost x b \<Longrightarrow> lost x b'"
  by (induction rule: rtranclp_induct) (auto intro: lost_stays)


text \<open>A device nothing holds has no transfers, and its destructor passes its assertion.\<close>

lemma unheld_device_ready:
  assumes "\<not> held f p" and "finite (ud_rx_xfers (ub_dev b))" and "finite (ul_tx_xfers (ub_dev b))"
    and "card (ud_rx_xfers (ub_dev b)) + card (ul_tx_xfers (ub_dev b)) \<le> fm_others f p"
  shows "fst (usbdev_destroy b) = Inr ()"
  using assms by (simp add: held_def usbdev_destroy_def isDeviceReadyForDestruction_def Let_def)

section \<open>Concrete runs\<close>

definition ex_service :: usb_service where
  "ex_service = \<lparr>sv_manager = new_usb_manager ex_muxer, sv_ctx = True, sv_handle = 0, sv_callbacks = {}, sv_reaper = True,
     sv_loop = True, sv_torn_down = 0\<rparr>"

definition ex_hotplug :: hotplug_env where
  "ex_hotplug = \<lparr>he_has_hotplug = True, he_init = True, he_register = 0, he_handle = 2, he_attached = [ex_usb 1]\<rparr>"

lemma stopping_takes_devices_up_witness:
  "\<exists>x pd. um_pending (sv_manager (usb_dtor_end ex_mux_env [] ex_hotplug ex_service)) = [(x, pd)]
     \<and> ui_address (pd_info pd) = 5"
proof -
  have "um_pending (snd (device_add [] (ex_usb 1) (sv_manager ex_service))) \<noteq> []"
    using ex_manager_pending by (auto simp: ex_manager_def usb_hotplug_cb_def ex_service_def)
  moreover have "sv_loop ex_service" "he_register ex_hotplug = 0" "he_attached ex_hotplug = [ex_usb 1]"
    "um_pending (sv_manager ex_service) = []" "ld_address (ex_usb 1) = 5"
    by (simp_all add: ex_service_def ex_hotplug_def new_usb_manager_def ex_usb_def)
  ultimately show ?thesis using stopping_takes_devices_up [of ex_service ex_hotplug "ex_usb 1" "[]" ex_mux_env] by auto
qed

definition ex_body :: usb_body where
  "ex_body = \<lparr>ub_dev = (new_usbdev [] 512)\<lparr>ud_rx_xfers := {0}\<rparr>, ub_flight = {}, ub_arrived = [0], ub_receivers = 1,
     ub_reaper = True, ub_handle = True\<rparr>"


lemma usb_wait_reaches_null_witness:
  "usb_reaper (fm_queue (snd (usb_check_children (no_family\<lparr>fm_children := {7}, fm_dying := {7}\<rparr>)))) (\<lambda>_. new_usbdev [] 512) = None"
  by (rule usb_wait_reaches_null [of "no_family\<lparr>fm_children := {7}, fm_dying := {7}\<rparr>" 7 "fst (usb_check_children (no_family\<lparr>fm_children := {7}, fm_dying := {7}\<rparr>))"])
    (simp_all add: no_family_def held_def)

end
