(* ===== verification/Client_Manager.thy ===== *)
theory Client_Manager
  imports Client_Commands TCP_Conn
begin

text \<open>
  The manager of clients, \<^verbatim>\<open>Manager/ClientManager.cpp\<close>: accepting connections on the listening socket,
  making clients of them and reaping them. What \<open>poll\<close> and \<open>accept\<close> return, where a new object is
  allocated and what its memory holds are parameters. \<open>cm_children\<close> is the set of the clients that are
  allocated; the state of the daemon is the part the clients work on.
\<close>

section \<open>State\<close>

record client_manager = daemon +
  cm_clientNumber :: u64
  cm_listenfd :: int
  cm_children :: "nat set"

datatype poll_result = Poll_interrupted | Poll_failure | Poll_revents u16 u16

section \<open>Accepting\<close>

text \<open>The first result of \<open>poll\<close> is for the listening socket, the second for the wake-up pipe.\<close>

definition accept_client :: "poll_result \<Rightarrow> int \<Rightarrow> int res" where
  "accept_client polled accepted =
     (case polled of
        Poll_interrupted \<Rightarrow> Inr (-1)
      | Poll_failure \<Rightarrow> Inl Poll_failed
      | Poll_revents listening wake \<Rightarrow>
          if wake AND POLLHUP \<noteq> 0 then Inl Graceful_kill
          else if listening AND POLLIN = 0 then Inl Unexpected_revents
          else if \<not> accepted \<ge> 0 then Inl Recv_failed
          else Inr accepted)"

text \<open>
  \<open>handle_client\<close>: \<open>made\<close> says whether the constructor of \<open>Client\<close> got its buffer; the number is used up
  either way.
\<close>

definition handle_client ::
    "'p mux_env \<Rightarrow> bool \<Rightarrow> (nat \<Rightarrow> u8) \<Rightarrow> nat \<Rightarrow> int \<Rightarrow> (client_manager, unit) act" where
  "handle_client env made mem p client_fd s =
     (let number = cm_clientNumber s; s1 = s\<lparr>cm_clientNumber := number + 1\<rparr> in
      if \<not> made then (Inl Assure_failed, s1)
      else
        let m = dm_mux s1;
            s2 = s1\<lparr>cm_children := insert p (cm_children s1),
                    dm_mux := m\<lparr>mx_heap := (mx_heap m)(p := new_client mem client_fd (unat number))\<rparr>\<rparr>
        in (case add_client env p (dm_mux s2) of (r, m') \<Rightarrow> (r, s2\<lparr>dm_mux := m'\<rparr>)))"

record accept_input =
  ai_poll :: poll_result
  ai_fd :: int
  ai_made :: bool
  ai_mem :: "nat \<Rightarrow> u8"
  ai_ptr :: nat

definition cm_loopEvent :: "'p mux_env \<Rightarrow> accept_input \<Rightarrow> (client_manager, bool) act" where
  "cm_loopEvent env i s =
     (case accept_client (ai_poll i) (ai_fd i) of
        Inl e \<Rightarrow> (Inl e, s)
      | Inr cfd \<Rightarrow>
          if cfd = -1 then (Inr True, s)
          else (Inr True, snd (handle_client env (ai_made i) (ai_mem i) (ai_ptr i) cfd s)))"

definition cm_afterLoop :: "client_manager \<Rightarrow> client_manager" where
  "cm_afterLoop s = (if cm_listenfd s > 0 then s\<lparr>cm_listenfd := -1\<rparr> else s)"

text \<open>The manager's thread: its loop over the results of \<open>poll\<close> and \<open>accept\<close>.\<close>

fun cm_thread :: "'p mux_env \<Rightarrow> accept_input list \<Rightarrow> client_manager \<Rightarrow> bool \<times> client_manager" where
  "cm_thread env [] s = (True, s)"
| "cm_thread env (i # is) s =
     (case cm_loopEvent env i s of
        (Inl e, s') \<Rightarrow> (False, cm_afterLoop s')
      | (Inr b, s') \<Rightarrow> cm_thread env is s')"

section \<open>Reaping\<close>

definition client_deconstruct :: "nat \<Rightarrow> client_manager \<Rightarrow> client_manager" where
  "client_deconstruct p s = s\<lparr>dm_mux := delete_client p (dm_mux s)\<rparr>"

text \<open>The destructor of \<open>Client\<close>, which runs when nothing refers to the client any more.\<close>

definition client_destroy :: "nat \<Rightarrow> client_manager \<Rightarrow> client_manager" where
  "client_destroy p s = s\<lparr>cm_children := cm_children s - {p}\<rparr>"

section \<open>What accepting does\<close>

definition numbers_ok :: "client_manager \<Rightarrow> bool" where
  "numbers_ok s \<longleftrightarrow> set (mx_clients (dm_mux s)) \<subseteq> cm_children s
     \<and> distinct (mx_clients (dm_mux s))
     \<and> (\<forall>p \<in> cm_children s. cl_number (mx_heap (dm_mux s) p) < unat (cm_clientNumber s))
     \<and> inj_on (\<lambda>p. cl_number (mx_heap (dm_mux s) p)) (cm_children s)"

lemma insert_ptr_set [simp]: "set (insert_ptr p ps) = insert p (set ps)"
  by (auto simp: insert_ptr_def set_insort_key)

lemma insert_ptr_distinct: "distinct ps \<Longrightarrow> distinct (insert_ptr p ps)"
  by (auto simp: insert_ptr_def distinct_insort)

lemma add_client_sets:
  assumes "add_client env p m = (r, m')"
  shows "set (mx_clients m') = (if me_start_client env p then insert p (set (mx_clients m)) else set (mx_clients m) - {p})"
    and "mx_heap m' = mx_heap m" and "mx_devices m' = mx_devices m" and "mx_newid m' = mx_newid m"
    and "distinct (mx_clients m) \<Longrightarrow> distinct (mx_clients m')"
    and "r = (if me_start_client env p then Inr () else Inl Assure_failed)"
  using assms insert_ptr_distinct [of "mx_clients m" p]
  by (auto simp: add_client_def delete_client_def call_def Let_def distinct_removeAll split: if_splits)

text \<open>
  C34: accepting a client. A turn of the manager's loop either changes nothing (it was interrupted, or
  fails) or uses up one number for at most one new client, whose object is the allocated one, with that
  number and an empty output; it is in the muxer's set exactly if its thread started, the clients that
  were there stay, and all numbers stay different.
\<close>

theorem accept_registers_client:
  assumes "numbers_ok s" and "ai_ptr i \<notin> cm_children s" and "cm_clientNumber s \<noteq> - 1"
    and "cm_loopEvent env i s = (r, s')"
  shows "numbers_ok s' \<and> (s' = s \<or>
    (cm_clientNumber s' = cm_clientNumber s + 1
     \<and> (if ai_made i
        then cm_children s' = insert (ai_ptr i) (cm_children s)
          \<and> mx_heap (dm_mux s') (ai_ptr i) = new_client (ai_mem i) (ai_fd i) (unat (cm_clientNumber s))
          \<and> set (mx_clients (dm_mux s')) = set (mx_clients (dm_mux s))
              \<union> (if me_start_client env (ai_ptr i) then {ai_ptr i} else {})
          \<and> (\<forall>q. q \<noteq> ai_ptr i \<longrightarrow> mx_heap (dm_mux s') q = mx_heap (dm_mux s) q)
        else dm_mux s' = dm_mux s \<and> cm_children s' = cm_children s)))"
proof (cases "\<exists>cfd. accept_client (ai_poll i) (ai_fd i) = Inr cfd \<and> cfd \<noteq> -1")
  case False
  with assms(4) have "s' = s" by (auto simp: cm_loopEvent_def split: sum.splits if_splits)
  with assms(1) show ?thesis by simp
next
  case True
  then have fd: "accept_client (ai_poll i) (ai_fd i) = Inr (ai_fd i)" "ai_fd i \<noteq> -1"
    by (auto simp: accept_client_def split: poll_result.splits if_splits)
  let ?p = "ai_ptr i" and ?m = "dm_mux s" and ?n = "cm_clientNumber s"
  have suc: "unat (?n + 1) = Suc (unat ?n)"
    using assms(3) unatSuc [of ?n] by (simp add: add_eq_0_iff add.commute)
  have more: "cl_number (mx_heap ?m q) < Suc (unat ?n)" if "q \<in> cm_children s" for q
    using assms(1) that by (auto simp: numbers_ok_def less_Suc_eq)
  show ?thesis
  proof (cases "ai_made i")
    case False
    with assms(4) fd have "s' = s\<lparr>cm_clientNumber := ?n + 1\<rparr>"
      by (simp add: cm_loopEvent_def handle_client_def Let_def)
    with False assms(1) more show ?thesis by (auto simp: numbers_ok_def suc)
  next
    case made: True
    let ?c = "new_client (ai_mem i) (ai_fd i) (unat ?n)"
    let ?m2 = "?m\<lparr>mx_heap := (mx_heap ?m)(?p := ?c)\<rparr>"
    obtain q m' where add: "add_client env ?p ?m2 = (q, m')" by (metis prod.exhaust)
    with assms(4) fd made have s': "s' = s\<lparr>cm_clientNumber := ?n + 1, cm_children := insert ?p (cm_children s), dm_mux := m'\<rparr>"
      by (auto simp: cm_loopEvent_def handle_client_def Let_def)
    note sets = add_client_sets [OF add]
    have fresh: "?p \<notin> set (mx_clients ?m)" using assms(1,2) by (auto simp: numbers_ok_def)
    have "inj_on (\<lambda>q. cl_number (mx_heap m' q)) (insert ?p (cm_children s))"
      unfolding sets(2) using assms(1,2)
      by (auto simp: numbers_ok_def inj_on_def new_client_def)
    then have "numbers_ok s'"
      using assms(1,2) sets(1,2,5) fresh more
      by (auto simp: numbers_ok_def s' suc new_client_def split: if_splits)
    with sets(1,2) fresh made show ?thesis by (simp add: s')
  qed
qed

text \<open>
  The end of the service. An \<open>accept\<close> that fails, for whatever passing reason (a peer that gave up, no
  descriptor left), is an exception outside the handler: the loop ends, the listening socket is closed
  and no client is served any more, while the daemon goes on.
\<close>

theorem accept_failure_ends_service:
  assumes "ai_poll i = Poll_revents listening wake" and "ai_fd i < 0" and "cm_listenfd s > 0"
    and "fst (cm_thread env is s) = True"
  shows "fst (cm_thread env (is @ i # later) s) = False
    \<and> cm_listenfd (snd (cm_thread env (is @ i # later) s)) = -1
    \<and> cm_children (snd (cm_thread env (is @ i # later) s)) = cm_children (snd (cm_thread env is s))"
  using assms(3,4)
proof (induction "is" arbitrary: s)
  case Nil
  with assms(1,2) show ?case
    by (auto simp: cm_loopEvent_def accept_client_def cm_afterLoop_def split: sum.splits if_splits)
next
  case (Cons j "is")
  obtain r s1 where run: "cm_loopEvent env j s = (r, s1)" by (metis prod.exhaust)
  with Cons.prems(2) obtain b where b: "r = Inr b" by (auto split: sum.splits)
  have "cm_listenfd s1 = cm_listenfd s"
    using run by (auto simp: cm_loopEvent_def handle_client_def Let_def split: sum.splits if_splits prod.splits)
  with Cons run b show ?case by simp
qed

section \<open>Concrete runs\<close>

definition ex_managed :: client_manager where
  "ex_managed = daemon.extend \<lparr>dm_mux = new_muxer (\<lambda>_. ex_client) False False False, dm_conf = ex_conf\<rparr>
     (client_manager.fields 0 3 {})"

definition ex_accept :: "int \<Rightarrow> accept_input" where
  "ex_accept fd = \<lparr>ai_poll = Poll_revents POLLIN 0, ai_fd = fd, ai_made = True, ai_mem = (\<lambda>_. 0), ai_ptr = 7\<rparr>"

lemmas ex_managed_eval = ex_managed_def daemon.extend_def client_manager.fields_def new_muxer_def

lemma ex_accept_ok: "accept_client (ai_poll (ex_accept 9)) (ai_fd (ex_accept 9)) = Inr 9"
  by (simp add: accept_client_def ex_accept_def POLLIN_def POLLHUP_def)

lemma accept_registers_client_witness:
  "\<exists>s'. cm_loopEvent ex_mux_env (ex_accept 9) ex_managed = (Inr True, s')
    \<and> cm_children s' = {7} \<and> set (mx_clients (dm_mux s')) = {7}"
proof -
  have ok: "numbers_ok ex_managed" "ai_ptr (ex_accept 9) \<notin> cm_children ex_managed"
    "cm_clientNumber ex_managed \<noteq> - 1"
    by (simp_all add: numbers_ok_def ex_managed_eval)
  define s' where "s' = snd (handle_client ex_mux_env True (\<lambda>_. 0) 7 9 ex_managed)"
  have run: "cm_loopEvent ex_mux_env (ex_accept 9) ex_managed = (Inr True, s')"
    using ex_accept_ok by (simp add: cm_loopEvent_def s'_def) (simp add: ex_accept_def)
  have "s' \<noteq> ex_managed"
    by (auto simp: s'_def handle_client_def ex_managed_eval Let_def split: prod.splits)
  with accept_registers_client [OF ok run] have "cm_children s' = {7}" "set (mx_clients (dm_mux s')) = {7}"
    by (auto simp: ex_accept_def ex_managed_eval ex_mux_env_def)
  with run show ?thesis by blast
qed

lemma accept_failure_ends_service_witness:
  "fst (cm_thread ex_mux_env ([] @ ex_accept (-1) # []) ex_managed) = False
   \<and> cm_listenfd (snd (cm_thread ex_mux_env ([] @ ex_accept (-1) # []) ex_managed)) = -1"
proof -
  have "ai_poll (ex_accept (-1)) = Poll_revents POLLIN 0" "ai_fd (ex_accept (-1)) < 0" "cm_listenfd ex_managed > 0"
    "fst (cm_thread ex_mux_env [] ex_managed) = True"
    by (simp_all add: ex_accept_def ex_managed_eval)
  from accept_failure_ends_service [OF this, of "[]"] show ?thesis by blast
qed

end
