(* ===== verification/Client_Lifetime.thy ===== *)
theory Client_Lifetime
  imports Client_Manager Children
begin

text \<open>
  Beginnings and ends of the manager of clients, \<^verbatim>\<open>Manager/ClientManager.cpp\<close>: the socket it listens on,
  \<open>stopAction\<close> and the destructor, whose wait for the clients is \<open>check_children\<close> of
  \<^verbatim>\<open>Children\<close>.
\<close>

section \<open>The socket\<close>

text \<open>
  What the kernel answers: \<open>so_enoent\<close> is whether \<open>errno\<close> is \<^verbatim>\<open>ENOENT\<close> after \<open>unlink\<close>, \<open>so_umask_mode\<close>
  is the mode the socket's file gets when it is bound.
\<close>

record socket_env =
  so_unlink :: int
  so_enoent :: bool
  so_socket :: int
  so_bind :: int
  so_umask_mode :: nat
  so_listen :: int
  so_chmod :: int
  so_pipe :: "(int \<times> int) option"

text \<open>
  \<open>cs_open\<close> are the manager's descriptors that are open, \<open>cs_shut\<close> the sockets that were shut down,
  \<open>cs_mode\<close> is the mode of the socket's file once there is one.
\<close>

record client_service = client_manager +
  cs_wake_read :: int
  cs_wake_write :: int
  cs_open :: "int set"
  cs_shut :: "int set"
  cs_mode :: "nat option"
  cs_reaper :: bool
  cs_loop :: bool

definition failing :: "bool \<Rightarrow> muxerr \<Rightarrow> (client_service, unit) act \<Rightarrow> (client_service, unit) act" where
  "failing b e k s = (if b then (Inl e, s) else k s)"

definition client_service_start :: "socket_env \<Rightarrow> daemon \<Rightarrow> unit res \<times> client_service" where
  "client_service_start env d =
     (let s0 = \<lparr>dm_mux = dm_mux d, dm_conf = dm_conf d, cm_clientNumber = 0, cm_listenfd = -1, cm_children = {},
            cs_wake_read = 0, cs_wake_write = 0, cs_open = {}, cs_shut = {}, cs_mode = None, cs_reaper = False,
            cs_loop = False\<rparr> in
      failing (so_unlink env = 1 \<and> \<not> so_enoent env) Unlink_failed (\<lambda>s.
        let s1 = s\<lparr>cm_listenfd := so_socket env,
               cs_open := (if so_socket env < 0 then cs_open s else insert (so_socket env) (cs_open s))\<rparr> in
        failing (so_socket env < 0) Socket_failed (
        failing (so_bind env \<noteq> 0) Bind_failed (\<lambda>s.
        failing (so_listen env \<noteq> 0) Listen_failed (
        failing (so_chmod env \<noteq> 0) Assure_failed (\<lambda>s.
          case so_pipe env of
            None \<Rightarrow> (Inl Assure_failed, s\<lparr>cs_mode := Some 438\<rparr>)
          | Some (r, w) \<Rightarrow> (Inr (), s\<lparr>cs_mode := Some 438, cs_wake_read := r, cs_wake_write := w,
              cs_open := {r, w} \<union> cs_open s, cs_reaper := True\<rparr>)))
          (s\<lparr>cs_mode := Some (so_umask_mode env)\<rparr>))) s1) s0)"

section \<open>Stopping\<close>

definition close_fd :: "int \<Rightarrow> client_service \<Rightarrow> client_service" where
  "close_fd fd s = s\<lparr>cs_open := cs_open s - {fd}\<rparr>"

text \<open>\<open>safeClose\<close> of libgeneral closes a descriptor that is not -1 and forgets it.\<close>

definition close_wake_write :: "client_service \<Rightarrow> client_service" where
  "close_wake_write s = (if cs_wake_write s = -1 then s else (close_fd (cs_wake_write s) s)\<lparr>cs_wake_write := -1\<rparr>)"

definition close_wake_read :: "client_service \<Rightarrow> client_service" where
  "close_wake_read s = (if cs_wake_read s = -1 then s else (close_fd (cs_wake_read s) s)\<lparr>cs_wake_read := -1\<rparr>)"

definition cs_stopAction :: "client_service \<Rightarrow> client_service" where
  "cs_stopAction s =
     close_wake_write (if cm_listenfd s \<noteq> 0 then s\<lparr>cs_shut := insert (cm_listenfd s) (cs_shut s)\<rparr> else s)"

definition close_listening :: "client_service \<Rightarrow> client_service" where
  "close_listening s = (if cm_listenfd s > 0 then (close_fd (cm_listenfd s) s)\<lparr>cm_listenfd := -1\<rparr> else s)"

text \<open>
  The destructor before and after the wait for the clients. Stopping the loop lets its thread come to its
  end, where \<open>afterLoop\<close> closes the listening socket.
\<close>

definition cs_dtor_begin :: "client_service \<Rightarrow> client_service" where
  "cs_dtor_begin s =
     (let s1 = (if cs_loop s then (close_listening (cs_stopAction s))\<lparr>cs_loop := False\<rparr> else s)
      in close_wake_write (close_wake_read s1))"

definition cs_dtor_end :: "client_service \<Rightarrow> client_service" where
  "cs_dtor_end s = close_listening (s\<lparr>cs_reaper := False\<rparr>)"

section \<open>What starting gives\<close>

text \<open>
  The socket of the daemon. The constructor succeeds exactly when every call does, and then clients of every user
  may connect to the socket and the wake-up pipe and the reaper are there; where it fails after the
  socket was made the descriptor stays open, since no destructor runs. A failure of \<open>unlink\<close> is never noticed, as the
  call does not return 1.
\<close>

theorem client_socket_start:
  assumes "client_service_start env d = (r, s)" and "so_unlink env \<noteq> 1"
  shows "(r = Inr () \<longleftrightarrow> so_socket env \<ge> 0 \<and> so_bind env = 0 \<and> so_listen env = 0 \<and> so_chmod env = 0 \<and> so_pipe env \<noteq> None)
    \<and> (r = Inr () \<longrightarrow> cs_mode s = Some 438 \<and> cs_reaper s \<and> cm_listenfd s = so_socket env
        \<and> so_pipe env = Some (cs_wake_read s, cs_wake_write s)
        \<and> cs_open s = {so_socket env, cs_wake_read s, cs_wake_write s} \<and> cm_children s = {} \<and> cm_clientNumber s = 0)
    \<and> (r \<noteq> Inr () \<and> so_socket env \<ge> 0 \<longrightarrow> cs_open s = {so_socket env} \<and> \<not> cs_reaper s)"
  using assms by (auto simp: client_service_start_def failing_def Let_def split: if_splits option.splits)

text \<open>
  C35: a service that was started leaves no descriptor behind. Whether or not its loop was running, the
  destructor closes the listening socket and both ends of the pipe, each once, unless the socket
  has the number 0, which it takes for none.
\<close>

theorem client_service_closes:
  assumes "client_service_start env d = (Inr (), s)" and "so_socket env \<noteq> 0" and "so_pipe env = Some (rd, wr)"
    and "rd \<ge> 0" and "wr \<ge> 0" and "so_unlink env \<noteq> 1"
  shows "cs_open (cs_dtor_end (cs_dtor_begin (s\<lparr>cs_loop := loop\<rparr>))) = {}
    \<and> cm_listenfd (cs_dtor_end (cs_dtor_begin (s\<lparr>cs_loop := loop\<rparr>))) = -1
    \<and> \<not> cs_reaper (cs_dtor_end (cs_dtor_begin (s\<lparr>cs_loop := loop\<rparr>)))"
proof -
  have ok: "so_socket env \<ge> 0" "cm_listenfd s = so_socket env" "cs_wake_read s = rd" "cs_wake_write s = wr"
      "cs_open s = {so_socket env, rd, wr}"
    using client_socket_start [OF assms(1,6)] assms(3) by auto
  then have fd: "so_socket env > 0" "rd \<noteq> -1" "wr \<noteq> -1" using assms(2,4,5) by auto
  show ?thesis
    by (cases loop) (simp_all add: cs_dtor_end_def cs_dtor_begin_def close_listening_def cs_stopAction_def
        close_wake_write_def close_wake_read_def close_fd_def ok fd, use fd(1) in auto)
qed

lemma client_service_closes_step: "cs_open (cs_dtor_begin s) \<subseteq> cs_open s"
  by (auto simp: cs_dtor_begin_def close_listening_def cs_stopAction_def close_wake_write_def close_wake_read_def
      close_fd_def Let_def)

text \<open>
  Once the write end of the pipe is closed \<open>poll\<close> reports a hang-up on the read end; the turn of the loop
  that sees it is the last one and takes no client.
\<close>

lemma stopped_loop_ends:
  assumes "ai_poll i = Poll_revents listening wake" and "wake AND POLLHUP \<noteq> 0"
  shows "cm_thread env (i # later) s = (False, cm_afterLoop s)"
  using assms by (simp add: cm_loopEvent_def accept_client_def)

section \<open>Concrete runs\<close>

definition ex_socket_env :: socket_env where
  "ex_socket_env = \<lparr>so_unlink = -1, so_enoent = False, so_socket = 3, so_bind = 0, so_umask_mode = 493, so_listen = 0,
     so_chmod = 0, so_pipe = Some (4, 5)\<rparr>"

definition ex_daemon_state :: daemon where
  "ex_daemon_state = \<lparr>dm_mux = new_muxer (\<lambda>_. ex_client) False False False, dm_conf = ex_conf\<rparr>"

lemma ex_socket_started: "fst (client_service_start ex_socket_env ex_daemon_state) = Inr ()"
  by (simp add: client_service_start_def ex_socket_env_def failing_def Let_def)

lemma client_socket_start_witness:
  "cs_mode (snd (client_service_start ex_socket_env ex_daemon_state)) = Some 438
   \<and> cs_open (snd (client_service_start ex_socket_env ex_daemon_state)) = {3, 4, 5}"
proof -
  have "client_service_start ex_socket_env ex_daemon_state = (Inr (), snd (client_service_start ex_socket_env ex_daemon_state))"
    using ex_socket_started by (metis prod.collapse)
  from client_socket_start [OF this] show ?thesis by (simp add: ex_socket_env_def)
qed

lemma client_service_closes_witness:
  "cs_open (cs_dtor_end (cs_dtor_begin ((snd (client_service_start ex_socket_env ex_daemon_state))\<lparr>cs_loop := True\<rparr>))) = {}"
proof -
  have "client_service_start ex_socket_env ex_daemon_state = (Inr (), snd (client_service_start ex_socket_env ex_daemon_state))"
    using ex_socket_started by (metis prod.collapse)
  from client_service_closes [OF this, of 4 5 True] show ?thesis by (simp add: ex_socket_env_def)
qed

end
