(* ===== verification/WIFI_Session.thy ===== *)
theory WIFI_Session
  imports Muxer
begin

text \<open>
  A device in the network and the thread that keeps its heartbeat, \<^verbatim>\<open>Devices/WIFIDevice.cpp\<close> and
  \<^verbatim>\<open>Devices/WIFIConnectionSession.cpp\<close>. The thread is a machine over program counters, \<open>runloop_step\<close>;
  what other threads do to the session (\<open>stop\<close>, \<open>requestReconnectNow\<close>, \<open>notifyDiscoveryUpdate\<close>) happens
  between two of its steps, and \<open>wifi_step\<close> is the relation that puts the two together. The results of
  libimobiledevice's calls are inputs. Waiting is one step.
\<close>

section \<open>State\<close>

datatype session_state = Idle | Connecting | Connected | Retrying | Stopping | Stopped

text \<open>
  \<open>RL_top\<close> is the start of the thread's outer loop with the index of the next delay, \<open>RL_beat\<close> the inner
  loop, \<open>RL_after\<close> what follows it, both with \<open>sleepyTimeReceived\<close>, \<open>RL_retry\<close> the end of the outer
  loop's body, \<open>RL_wait\<close> a wait of so many seconds, \<open>RL_leave\<close> the end of the method, \<open>RL_done\<close> a thread
  that is over or was never started.
\<close>

datatype rl_pc =
    RL_top nat
  | RL_beat bool
  | RL_after bool
  | RL_retry nat
  | RL_wait nat nat
  | RL_leave
  | RL_done

text \<open>
  \<open>ss_pc\<close> is where the thread is, \<open>ss_idev\<close> and \<open>ss_hbclient\<close> say that the pointers of these names are not null, \<open>ss_joinable\<close> that
  \<open>_worker\<close> is a thread that was not joined, \<open>ss_threads\<close> counts the threads that were started.
\<close>

record session =
  ss_pc :: rl_pc
  ss_joinable :: bool
  ss_stopRequested :: bool
  ss_started :: bool
  ss_reconnectRequested :: bool
  ss_pendingVersion :: u64
  ss_appliedVersion :: u64
  ss_state :: session_state
  ss_idev :: bool
  ss_hbclient :: bool
  ss_threads :: nat

text \<open>
  \<open>wd_dev\<close> is the part of the object the muxer sees, \<open>wd_kills\<close> counts the posts to the manager's reaper,
  \<open>wd_alive\<close> says that the object still exists. A serial of 256 characters or more is cut off; the code
  leaves it without a terminator then.
\<close>

record wifi_device =
  wd_dev :: device
  wd_discoveryVersion :: u64
  wd_session :: "session option"
  wd_rediscoverOnDestruct :: bool
  wd_alive :: bool
  wd_kills :: nat

definition new_session :: session where
  "new_session = \<lparr>ss_pc = RL_done, ss_joinable = False, ss_stopRequested = False, ss_started = False,
     ss_reconnectRequested = False, ss_pendingVersion = 0, ss_appliedVersion = 0, ss_state = Idle,
     ss_idev = False, ss_hbclient = False, ss_threads = 0\<rparr>"

definition new_wifi_device :: "nat \<Rightarrow> string \<Rightarrow> string list \<Rightarrow> string \<Rightarrow> u32 \<Rightarrow> wifi_device" where
  "new_wifi_device p uuid ipaddr serviceName interfaceIndex = \<lparr>wd_dev =
       \<lparr>dv_ptr = p, dv_conntype = MUXCONN_WIFI, dv_id = 0, dv_serial = take 256 uuid, dv_speed = 0,
        dv_location = 0, dv_pid = 0, dv_serviceName = serviceName, dv_ipaddr = ipaddr,
        dv_interfaceIndex = interfaceIndex\<rparr>,
     wd_discoveryVersion = 1, wd_session = None, wd_rediscoverOnDestruct = True, wd_alive = True, wd_kills = 0\<rparr>"

section \<open>The session's thread\<close>

definition cleanupConnection :: "session \<Rightarrow> session" where
  "cleanupConnection ss = ss\<lparr>ss_hbclient := False, ss_idev := False\<rparr>"

text \<open>The delays in seconds; the index wraps.\<close>

definition backoff_seq :: "nat list" where "backoff_seq = [1, 2, 4, 8, 16, 30]"

definition nextBackoff :: "nat \<Rightarrow> nat \<times> nat" where
  "nextBackoff idx = (backoff_seq ! idx, (idx + 1) mod length backoff_seq)"

definition runAttempt :: "bool \<Rightarrow> bool \<Rightarrow> u64 \<Rightarrow> session \<Rightarrow> bool \<times> session" where
  "runAttempt found starts version ss =
     (let ss1 = cleanupConnection (ss\<lparr>ss_appliedVersion := version, ss_reconnectRequested := False\<rparr>) in
      if \<not> found then (False, cleanupConnection ss1)
      else let ss2 = ss1\<lparr>ss_idev := True\<rparr> in
        if \<not> starts then (False, cleanupConnection ss2) else (True, ss2\<lparr>ss_hbclient := True\<rparr>))"

text \<open>
  The results of the calls: whether the lookup and the heartbeat service succeed, the command of the
  heartbeat received (\<open>None\<close> for a failure, \<open>Some None\<close> for one without a command) and whether the
  answer could be sent.
\<close>

record rl_input =
  in_found :: bool
  in_starts :: bool
  in_beat :: "string option option"
  in_sent :: bool

text \<open>What the muxer's settings say: \<open>allowHeartlessWifi\<close> and \<open>retryWifiSession\<close>.\<close>

record wifi_settings =
  ws_allowHeartless :: bool
  ws_retry :: bool

definition wants_reconnect :: "session \<Rightarrow> bool" where
  "wants_reconnect ss \<longleftrightarrow> ss_reconnectRequested ss \<or> ss_pendingVersion ss \<noteq> ss_appliedVersion ss"

definition wifi_kill :: "wifi_device \<Rightarrow> wifi_device" where
  "wifi_kill d = d\<lparr>wd_kills := wd_kills d + 1\<rparr>"

fun runloop_step :: "wifi_settings \<Rightarrow> rl_input \<Rightarrow> rl_pc \<times> session \<times> wifi_device \<Rightarrow> rl_pc \<times> session \<times> wifi_device" where
  "runloop_step cfg i (RL_top idx, ss, d) =
     (if ss_stopRequested ss \<or> \<not> wd_alive d then (RL_leave, ss, d)
      else (case runAttempt (in_found i) (in_starts i) (wd_discoveryVersion d) (ss\<lparr>ss_state := Connecting\<rparr>) of
              (True, ss1) \<Rightarrow> (RL_beat False, ss1\<lparr>ss_state := Connected\<rparr>, d)
            | (False, ss1) \<Rightarrow>
                if \<not> ws_allowHeartless cfg then (RL_leave, ss1, wifi_kill d) else (RL_retry idx, ss1, d)))"
| "runloop_step cfg i (RL_beat sleepy, ss, d) =
     (if ss_stopRequested ss \<or> wants_reconnect ss then (RL_after sleepy, ss, d)
      else (case in_beat i of
              None \<Rightarrow> (RL_after sleepy, ss, d)
            | Some command \<Rightarrow>
                let sleepy' = (case command of None \<Rightarrow> sleepy | Some c \<Rightarrow> c = ''SleepyTime'') in
                if in_sent i then (RL_beat sleepy', ss, d) else (RL_after sleepy', ss, d)))"
| "runloop_step cfg i (RL_after sleepy, ss, d) =
     (if ss_stopRequested ss then (RL_leave, ss, d)
      else let ss1 = ss\<lparr>ss_reconnectRequested := False\<rparr> in
        if wants_reconnect ss then (RL_top 0, ss1, d)
        else if sleepy then (RL_wait 60 0, ss1\<lparr>ss_state := Retrying\<rparr>, d)
        else if \<not> ws_allowHeartless cfg then (RL_leave, ss1, wifi_kill d)
        else (RL_retry 0, ss1, d))"
| "runloop_step cfg i (RL_retry idx, ss, d) =
     (if \<not> ws_retry cfg then (RL_leave, ss, d)
      else (case nextBackoff idx of (delay, idx') \<Rightarrow> (RL_wait delay idx', ss\<lparr>ss_state := Retrying\<rparr>, d)))"
| "runloop_step cfg i (RL_wait delay idx, ss, d) = (RL_top idx, ss, d)"
| "runloop_step cfg i (RL_leave, ss, d) =
     (RL_done, (cleanupConnection ss)\<lparr>ss_state := Stopped, ss_started := False\<rparr>, d)"
| "runloop_step cfg i (RL_done, ss, d) = (RL_done, ss, d)"

definition session_step :: "wifi_settings \<Rightarrow> rl_input \<Rightarrow> session \<times> wifi_device \<Rightarrow> session \<times> wifi_device" where
  "session_step cfg i sd = (case runloop_step cfg i (ss_pc (fst sd), sd) of
     (pc, ss, d) \<Rightarrow> (ss\<lparr>ss_pc := pc\<rparr>, d))"

section \<open>What other threads do to a session\<close>

text \<open>A thread that is joined first has ended; a thread that still runs is not joined.\<close>

definition session_start :: "u64 \<Rightarrow> session \<Rightarrow> session" where
  "session_start version ss =
     (if ss_joinable ss \<and> ss_started ss then ss
      else let ss1 = ss\<lparr>ss_joinable := False\<rparr> in
        if ss_started ss1 then ss1
        else ss1\<lparr>ss_started := True, ss_pendingVersion := version, ss_appliedVersion := version,
                 ss_stopRequested := False, ss_reconnectRequested := False, ss_joinable := True,
                 ss_pc := RL_top 0, ss_threads := Suc (ss_threads ss1)\<rparr>)"

definition request_stop :: "session \<Rightarrow> session" where
  "request_stop ss = ss\<lparr>ss_stopRequested := True, ss_reconnectRequested := False, ss_state := Stopping\<rparr>"

text \<open>\<open>is\<close> are the results of the calls that the thread still makes while it is waited for.\<close>

definition session_stop ::
    "wifi_settings \<Rightarrow> rl_input list \<Rightarrow> bool \<Rightarrow> session \<times> wifi_device \<Rightarrow> session \<times> wifi_device" where
  "session_stop cfg is joinThread sd =
     (case sd of (ss, d) \<Rightarrow>
        let ss1 = request_stop ss in
        if joinThread \<and> ss_joinable ss1
        then (case fold (session_step cfg) is (ss1, d) of
                (ss2, d') \<Rightarrow> (ss2\<lparr>ss_joinable := False, ss_started := False\<rparr>, d'))
        else (ss1, d))"

definition requestReconnectNow :: "session \<Rightarrow> session" where
  "requestReconnectNow ss = ss\<lparr>ss_reconnectRequested := True\<rparr>"

definition notifyDiscoveryUpdate :: "u64 \<Rightarrow> bool \<Rightarrow> session \<Rightarrow> session" where
  "notifyDiscoveryUpdate version reconnectNeeded ss =
     (let ss1 = ss\<lparr>ss_pendingVersion := version\<rparr> in
      if reconnectNeeded then ss1\<lparr>ss_reconnectRequested := True\<rparr> else ss1)"

section \<open>The device\<close>

definition isPairingDevice :: "wifi_device \<Rightarrow> bool" where
  "isPairingDevice d \<longleftrightarrow> take 8 (dv_serial (wd_dev d)) = ''WIFIPAIR''"

definition the_session :: "wifi_device \<Rightarrow> session" where
  "the_session d = (case wd_session d of None \<Rightarrow> new_session | Some ss \<Rightarrow> ss)"

definition ensureSession :: "wifi_device \<Rightarrow> wifi_device" where
  "ensureSession d =
     (if isPairingDevice d then d
      else d\<lparr>wd_session := Some (session_start (wd_discoveryVersion d) (the_session d))\<rparr>)"

text \<open>The session that was stopped comes with it; the thread may still be on its way when it is not joined.\<close>

definition stopSession :: "wifi_settings \<Rightarrow> rl_input list \<Rightarrow> bool \<Rightarrow> wifi_device \<Rightarrow> session option \<times> wifi_device" where
  "stopSession cfg is joinThread d =
     (let d1 = d\<lparr>wd_session := None\<rparr> in
      case wd_session d of
        None \<Rightarrow> (None, d1)
      | Some ss \<Rightarrow> (case session_stop cfg is joinThread (ss, d1) of (ss', d') \<Rightarrow> (Some ss', d')))"

definition requestSessionReconnectNow :: "wifi_device \<Rightarrow> wifi_device" where
  "requestSessionReconnectNow d =
     (if isPairingDevice d then d
      else d\<lparr>wd_session := Some (requestReconnectNow (session_start (wd_discoveryVersion d) (the_session d)))\<rparr>)"

definition updateDiscoveryInfo :: "string list \<Rightarrow> string \<Rightarrow> u32 \<Rightarrow> wifi_device \<Rightarrow> wifi_device" where
  "updateDiscoveryInfo ipaddr serviceName interfaceIndex d =
     (let dev = wd_dev d;
          changed = dv_ipaddr dev \<noteq> ipaddr \<or> dv_serviceName dev \<noteq> serviceName
            \<or> dv_interfaceIndex dev \<noteq> interfaceIndex;
          version = (if changed then wd_discoveryVersion d + 1 else wd_discoveryVersion d)
      in d\<lparr>wd_dev := dev\<lparr>dv_serviceName := serviceName, dv_ipaddr := ipaddr, dv_interfaceIndex := interfaceIndex\<rparr>,
           wd_discoveryVersion := version,
           wd_session := map_option (notifyDiscoveryUpdate version changed) (wd_session d)\<rparr>)"

definition setRediscoverOnDestruct :: "bool \<Rightarrow> wifi_device \<Rightarrow> wifi_device" where
  "setRediscoverOnDestruct enabled d = d\<lparr>wd_rediscoverOnDestruct := enabled\<rparr>"

definition wifi_start_connect :: "u16 \<Rightarrow> 's \<Rightarrow> unit res \<times> 's" where
  "wifi_start_connect dport cli = (Inl Not_implemented, cli)"

section \<open>What holds of a session\<close>

text \<open>
  A thread is under way exactly when \<open>_started\<close> says so, it can be joined then, a delay is looked up in
  the table, and the connection is only there while the thread uses it.
\<close>

fun pc_ok :: "rl_pc \<Rightarrow> bool" where
  "pc_ok (RL_top idx) = (idx < length backoff_seq)"
| "pc_ok (RL_retry idx) = (idx < length backoff_seq)"
| "pc_ok (RL_wait delay idx) = (idx < length backoff_seq \<and> delay \<in> insert 60 (set backoff_seq))"
| "pc_ok pc = True"

fun pc_connected :: "rl_pc \<Rightarrow> bool" where
  "pc_connected (RL_beat b) = True"
| "pc_connected (RL_after b) = True"
| "pc_connected pc = False"

definition session_ok :: "session \<Rightarrow> bool" where
  "session_ok ss \<longleftrightarrow> (ss_started ss \<longleftrightarrow> ss_pc ss \<noteq> RL_done) \<and> (ss_started ss \<longrightarrow> ss_joinable ss)
     \<and> pc_ok (ss_pc ss) \<and> (ss_hbclient ss \<longrightarrow> ss_idev ss) \<and> (ss_idev ss \<longrightarrow> ss_pc ss \<noteq> RL_done)
     \<and> (pc_connected (ss_pc ss) \<longrightarrow> ss_hbclient ss)"

definition device_wf :: "wifi_device \<Rightarrow> bool" where
  "device_wf d \<longleftrightarrow> (\<forall>ss. wd_session d = Some ss \<longrightarrow> session_ok ss \<and> \<not> isPairingDevice d)"

lemma session_ok_new [simp]: "session_ok new_session"
  by (simp add: session_ok_def new_session_def)

lemma runAttempt_eq:
  "runAttempt found starts v ss = (found \<and> starts, ss\<lparr>ss_appliedVersion := v, ss_reconnectRequested := False,
     ss_idev := found \<and> starts, ss_hbclient := found \<and> starts\<rparr>)"
  by (simp add: runAttempt_def cleanupConnection_def Let_def)

lemma backoff_length [simp]: "length backoff_seq = 6"
  by (simp add: backoff_seq_def)

lemma backoff_nth: "idx < 6 \<Longrightarrow> backoff_seq ! idx \<in> set backoff_seq"
  by (metis backoff_length nth_mem)

text \<open>One step of the thread, case by case: where it goes and what stays.\<close>

lemma runloop_step_ok:
  assumes "session_ok ss" and "runloop_step cfg i (ss_pc ss, ss, d) = (pc', ss', d')"
  shows "session_ok (ss'\<lparr>ss_pc := pc'\<rparr>)"
  using assms
  by (cases "ss_pc ss")
    (auto simp: session_ok_def nextBackoff_def cleanupConnection_def Let_def backoff_nth runAttempt_eq
      split: if_splits option.splits bool.splits, metis pc_ok.simps(4))

lemma session_step_ok: "session_ok ss \<Longrightarrow> session_ok (fst (session_step cfg i (ss, d)))"
  using runloop_step_ok [of ss cfg i d] by (auto simp: session_step_def split: prod.split)

lemma runloop_step_frame:
  assumes "runloop_step cfg i (pc, ss, d) = (pc', ss', d')"
  shows "(d' = d \<or> (d' = wifi_kill d \<and> \<not> ss_stopRequested ss \<and> \<not> ws_allowHeartless cfg \<and> pc' = RL_leave))
    \<and> ss_stopRequested ss' = ss_stopRequested ss \<and> ss_threads ss' = ss_threads ss
    \<and> ss_joinable ss' = ss_joinable ss \<and> ss_pendingVersion ss' = ss_pendingVersion ss"
  using assms
  by (cases pc) (auto simp: nextBackoff_def cleanupConnection_def Let_def runAttempt_eq
      split: if_splits option.splits bool.splits)

lemma session_step_frame:
  assumes "session_step cfg i (ss, d) = (ss', d')"
  shows "d' = d \<or> (d' = wifi_kill d \<and> \<not> ss_stopRequested ss \<and> \<not> ws_allowHeartless cfg \<and> ss_pc ss' = RL_leave)"
    and "ss_stopRequested ss' = ss_stopRequested ss" and "ss_threads ss' = ss_threads ss"
    and "ss_joinable ss' = ss_joinable ss" and "ss_pendingVersion ss' = ss_pendingVersion ss"
proof -
  obtain pc1 ss1 d1 where r: "runloop_step cfg i (ss_pc ss, ss, d) = (pc1, ss1, d1)" by (metis prod.exhaust)
  with assms have eq: "ss' = ss1\<lparr>ss_pc := pc1\<rparr>" "d' = d1" by (simp_all add: session_step_def)
  note frame = runloop_step_frame [OF r]
  show "d' = d \<or> (d' = wifi_kill d \<and> \<not> ss_stopRequested ss \<and> \<not> ws_allowHeartless cfg \<and> ss_pc ss' = RL_leave)"
    and "ss_stopRequested ss' = ss_stopRequested ss" and "ss_threads ss' = ss_threads ss"
    and "ss_joinable ss' = ss_joinable ss" and "ss_pendingVersion ss' = ss_pendingVersion ss"
    using frame by (simp_all add: eq)
qed

lemma session_start_ok: "session_ok ss \<Longrightarrow> session_ok (session_start v ss)"
  by (cases "ss_started ss"; cases "ss_joinable ss") (simp_all add: session_ok_def session_start_def Let_def)

lemma request_ok:
  "session_ok (requestReconnectNow ss) = session_ok ss"
  "session_ok (notifyDiscoveryUpdate v b ss) = session_ok ss"
  "session_ok (request_stop ss) = session_ok ss"
  by (auto simp: session_ok_def requestReconnectNow_def notifyDiscoveryUpdate_def request_stop_def Let_def)

section \<open>The device and its threads together\<close>

text \<open>The session's thread takes a step while the device still refers to the session.\<close>

definition thread_step :: "wifi_settings \<Rightarrow> rl_input \<Rightarrow> wifi_device \<Rightarrow> wifi_device" where
  "thread_step cfg i d =
     (case wd_session d of
        None \<Rightarrow> d
      | Some ss \<Rightarrow> (case session_step cfg i (ss, d) of (ss', d') \<Rightarrow> d'\<lparr>wd_session := Some ss'\<rparr>))"

inductive wifi_step :: "wifi_settings \<Rightarrow> wifi_device \<Rightarrow> wifi_device \<Rightarrow> bool" for cfg where
  Thread: "wifi_step cfg d (thread_step cfg i d)"
| Ensure: "wifi_step cfg d (ensureSession d)"
| Reconnect: "wifi_step cfg d (requestSessionReconnectNow d)"
| Update: "wifi_step cfg d (updateDiscoveryInfo ips name idx d)"
| Rediscover: "wifi_step cfg d (setRediscoverOnDestruct b d)"
| Stop: "wifi_step cfg d (snd (stopSession cfg is joinThread d))"
| Kill: "wifi_step cfg d (wifi_kill d)"

inductive wifi_reachable :: "wifi_settings \<Rightarrow> wifi_device \<Rightarrow> bool" for cfg where
  Start: "wifi_reachable cfg (new_wifi_device p uuid ips name idx)"
| Step: "wifi_reachable cfg d \<Longrightarrow> wifi_step cfg d d' \<Longrightarrow> wifi_reachable cfg d'"

lemma the_session_ok: "device_wf d \<Longrightarrow> session_ok (the_session d)"
  by (auto simp: device_wf_def the_session_def split: option.split)

lemma pairing_serial: "dv_serial (wd_dev d') = dv_serial (wd_dev d) \<Longrightarrow> isPairingDevice d' = isPairingDevice d"
  by (simp add: isPairingDevice_def)

lemma wifi_kill_frame [simp]:
  "wd_session (wifi_kill d) = wd_session d" "wd_dev (wifi_kill d) = wd_dev d"
  "wd_discoveryVersion (wifi_kill d) = wd_discoveryVersion d" "wd_alive (wifi_kill d) = wd_alive d"
  "wd_kills (wifi_kill d) = Suc (wd_kills d)"
  by (simp_all add: wifi_kill_def)

lemma thread_step_wf: "device_wf d \<Longrightarrow> device_wf (thread_step cfg i d)"
proof (cases "wd_session d")
  case (Some ss)
  assume wf: "device_wf d"
  obtain ss' d' where s: "session_step cfg i (ss, d) = (ss', d')" by fastforce
  have "wd_dev d' = wd_dev d" using session_step_frame(1) [OF s] by auto
  then have "isPairingDevice d' = isPairingDevice d" by (simp add: isPairingDevice_def)
  moreover have "session_ok ss'" using session_step_ok [of ss cfg i d] wf Some s by (simp add: device_wf_def)
  ultimately show ?thesis using wf Some s by (simp add: thread_step_def device_wf_def isPairingDevice_def)
qed (simp add: thread_step_def)

lemma session_fold_frame:
  "fold (session_step cfg) is (ss, d) = (ss', d') \<Longrightarrow> ss_stopRequested ss
    \<Longrightarrow> d' = d \<and> ss_stopRequested ss' \<and> ss_threads ss' = ss_threads ss \<and> ss_joinable ss' = ss_joinable ss
      \<and> (session_ok ss \<longrightarrow> session_ok ss')"
proof (induction "is" arbitrary: ss d)
  case (Cons i "is")
  obtain ss1 d1 where s: "session_step cfg i (ss, d) = (ss1, d1)" by fastforce
  with Cons.prems have run: "fold (session_step cfg) is (ss1, d1) = (ss', d')" by simp
  have "d1 = d" and stop: "ss_stopRequested ss1"
    using session_step_frame [OF s] Cons.prems(2) by auto
  with Cons.IH [OF run stop] session_step_frame(3,4) [OF s] session_step_ok [of ss cfg i d] s
  show ?case by auto
qed simp

lemma stopSession_device [simp]: "snd (stopSession cfg is j d) = d\<lparr>wd_session := None\<rparr>"
proof (cases "wd_session d")
  case (Some ss)
  obtain ss' d' where f: "fold (session_step cfg) is (request_stop ss, d\<lparr>wd_session := None\<rparr>) = (ss', d')"
    by fastforce
  then have "d' = d\<lparr>wd_session := None\<rparr>" using session_fold_frame [OF f] by (simp add: request_stop_def)
  with f Some show ?thesis by (auto simp: stopSession_def session_stop_def Let_def)
qed (simp add: stopSession_def)

lemma start_wf: "device_wf d \<Longrightarrow> \<not> isPairingDevice d
    \<Longrightarrow> session_ok (session_start (wd_discoveryVersion d) (the_session d))"
  by (intro session_start_ok the_session_ok)

lemma ensureSession_wf: "device_wf d \<Longrightarrow> device_wf (ensureSession d)"
  using start_wf [of d] by (auto simp: ensureSession_def device_wf_def isPairingDevice_def)

lemma requestSessionReconnectNow_wf: "device_wf d \<Longrightarrow> device_wf (requestSessionReconnectNow d)"
  using start_wf [of d] by (auto simp: requestSessionReconnectNow_def device_wf_def isPairingDevice_def request_ok)

lemma updateDiscoveryInfo_wf: "device_wf d \<Longrightarrow> device_wf (updateDiscoveryInfo ips name idx d)"
  by (auto simp: updateDiscoveryInfo_def device_wf_def isPairingDevice_def request_ok Let_def)

lemma flags_wf:
  "device_wf (setRediscoverOnDestruct b d) = device_wf d" "device_wf (wifi_kill d) = device_wf d"
  by (auto simp: device_wf_def isPairingDevice_def setRediscoverOnDestruct_def)

lemma wifi_step_wf: "wifi_step cfg d d' \<Longrightarrow> device_wf d \<Longrightarrow> device_wf d'"
proof (induction rule: wifi_step.induct)
  case (Stop d "is" j)
  then show ?case by (simp add: device_wf_def)
qed (simp_all add: thread_step_wf ensureSession_wf requestSessionReconnectNow_wf updateDiscoveryInfo_wf flags_wf)

lemma wifi_reachable_wf: "wifi_reachable cfg d \<Longrightarrow> device_wf d"
proof (induction rule: wifi_reachable.induct)
  case (Start p uuid ips name idx)
  show ?case by (simp add: device_wf_def new_wifi_device_def)
qed (rule wifi_step_wf)

text \<open>
  C27: a session keeps its form. Whatever the discovery, the clients and the thread do to a device, in any
  order, its session says that it is started exactly when a thread is under way, looks its delays up
  inside the table, holds a connection only while the thread lives and a heartbeat client whenever it
  beats; a device of a pairing service never has one, and starting begins a thread only when there is
  none.
\<close>

theorem session_keeps_form:
  assumes "wifi_reachable cfg d" and "wd_session d = Some ss"
  shows "session_ok ss \<and> \<not> isPairingDevice d
    \<and> (ss_threads (session_start v ss) \<noteq> ss_threads ss \<longrightarrow> ss_pc ss = RL_done \<and> \<not> ss_idev ss)"
proof -
  have wf: "session_ok ss" "\<not> isPairingDevice d"
    using wifi_reachable_wf [OF assms(1)] assms(2) by (auto simp: device_wf_def)
  then show ?thesis by (auto simp: session_start_def session_ok_def Let_def)
qed

section \<open>The end of a session\<close>

lemma runs_done: "ss_pc ss = RL_done \<Longrightarrow> fold (session_step cfg) is (ss, d) = (ss, d)"
proof (induction "is")
  case (Cons i "is")
  have "session_step cfg i (ss, d) = (ss, d)" using Cons.prems by (simp add: session_step_def)
  with Cons show ?case by simp
qed simp

text \<open>How many steps a thread that was asked to stop takes at most to its end.\<close>

fun stop_dist :: "rl_pc \<Rightarrow> nat" where
  "stop_dist RL_done = 0"
| "stop_dist RL_leave = 1"
| "stop_dist (RL_top idx) = 2"
| "stop_dist (RL_after b) = 2"
| "stop_dist (RL_beat b) = 3"
| "stop_dist (RL_wait delay idx) = 3"
| "stop_dist (RL_retry idx) = 4"

definition ended :: "session \<Rightarrow> bool" where
  "ended ss \<longleftrightarrow> ss_pc ss = RL_done \<and> ss_state ss = Stopped \<and> \<not> ss_started ss \<and> \<not> ss_idev ss \<and> \<not> ss_hbclient ss"

lemma stop_dist_step:
  assumes "session_step cfg i (ss, d) = (ss', d')" and "ss_stopRequested ss" and "ss_pc ss \<noteq> RL_done"
  shows "stop_dist (ss_pc ss') < stop_dist (ss_pc ss) \<and> (ss_pc ss' = RL_done \<longrightarrow> ended ss')"
  using assms
  by (cases "ss_pc ss") (auto simp: session_step_def nextBackoff_def cleanupConnection_def ended_def Let_def
      split: if_splits)

lemma stopped_thread_ends:
  "fold (session_step cfg) is (ss, d) = (ss', d') \<Longrightarrow> ss_stopRequested ss \<Longrightarrow> ss_pc ss \<noteq> RL_done
    \<Longrightarrow> stop_dist (ss_pc ss) \<le> length is \<Longrightarrow> ended ss'"
proof (induction "is" arbitrary: ss d)
  case Nil
  then show ?case by (cases "ss_pc ss") auto
next
  case (Cons i "is")
  obtain ss1 d1 where s: "session_step cfg i (ss, d) = (ss1, d1)" by fastforce
  with Cons.prems have run: "fold (session_step cfg) is (ss1, d1) = (ss', d')" by simp
  show ?case
  proof (cases "ss_pc ss1 = RL_done")
    case True
    with stop_dist_step [OF s] Cons.prems(2,3) have "ended ss1" by simp
    with True run show ?thesis using runs_done [OF True] by (metis prod.inject)
  next
    case False
    with stop_dist_step [OF s] session_step_frame(2) [OF s] Cons.prems show ?thesis
      by (intro Cons.IH [OF run]) auto
  qed
qed

text \<open>
  C26: stopping ends the thread. Wherever the thread is when \<open>stop\<close> is called and whatever the calls it
  still makes return, it is over within four steps, so the join returns; the connection is released, the
  session can be started again and the device is not given up because of it.
\<close>

theorem stop_joins:
  assumes "session_ok ss" and "session_stop cfg is True (ss, d) = (ss', d')" and "4 \<le> length is"
  shows "ss_pc ss' = RL_done \<and> \<not> ss_started ss' \<and> \<not> ss_joinable ss' \<and> \<not> ss_idev ss' \<and> \<not> ss_hbclient ss'
    \<and> ss_state ss' = (if ss_started ss then Stopped else Stopping) \<and> d' = d \<and> session_ok ss'"
proof (cases "ss_started ss")
  case True
  with assms(1) have join: "ss_joinable ss" and pc: "ss_pc ss \<noteq> RL_done" by (auto simp: session_ok_def)
  obtain ss2 d2 where run: "fold (session_step cfg) is (request_stop ss, d) = (ss2, d2)" by fastforce
  with join assms(2) have ss': "ss' = ss2\<lparr>ss_joinable := False, ss_started := False\<rparr>" "d' = d2"
    by (auto simp: session_stop_def request_stop_def Let_def)
  have "stop_dist (ss_pc (request_stop ss)) \<le> length is"
    using assms(3) by (cases "ss_pc ss") (auto simp: request_stop_def)
  then have "ended ss2" using pc by (intro stopped_thread_ends [OF run]) (auto simp: request_stop_def)
  moreover have "d2 = d" using session_fold_frame [OF run] by (simp add: request_stop_def)
  ultimately show ?thesis using True ss' by (simp add: ended_def session_ok_def)
next
  case False
  then have pc: "ss_pc ss = RL_done" "\<not> ss_idev ss" "\<not> ss_hbclient ss"
    using assms(1) by (auto simp: session_ok_def)
  then have "fold (session_step cfg) is (request_stop ss, d) = (request_stop ss, d)"
    by (intro runs_done) (simp add: request_stop_def)
  with assms(2) False pc show ?thesis
    by (auto simp: session_stop_def request_stop_def session_ok_def Let_def split: if_splits)
qed

section \<open>When a device is given up\<close>

lemma leaving_stays:
  "fold (session_step cfg) is (ss, d) = (ss', d') \<Longrightarrow> ss_pc ss \<in> {RL_leave, RL_done}
    \<Longrightarrow> ss_pc ss' \<in> {RL_leave, RL_done} \<and> d' = d"
proof (induction "is" arbitrary: ss)
  case (Cons i "is")
  obtain ss1 where s: "session_step cfg i (ss, d) = (ss1, d)" and pc: "ss_pc ss1 = RL_done"
    using Cons.prems(2) by (auto simp: session_step_def)
  with Cons.prems(1) show ?case using runs_done [OF pc] by simp
qed simp

text \<open>
  Giving a device up. However long the thread runs and whatever its calls return, it posts the device
  to the reaper at most once, only when devices without a heartbeat are not to be kept, and then it does
  nothing more than leave.
\<close>

theorem session_kill_once:
  assumes "fold (session_step cfg) is (ss, d) = (ss', d')"
  shows "d' = d \<or> (d' = wifi_kill d \<and> ss_pc ss' \<in> {RL_leave, RL_done} \<and> ws_allowHeartless cfg = False)"
  using assms
proof (induction "is" arbitrary: ss d)
  case (Cons i "is")
  obtain ss1 d1 where s: "session_step cfg i (ss, d) = (ss1, d1)" by fastforce
  with Cons.prems have run: "fold (session_step cfg) is (ss1, d1) = (ss', d')" by simp
  show ?case
  proof (cases "d1 = d")
    case True
    with Cons.IH [OF run] show ?thesis by simp
  next
    case False
    with session_step_frame(1) [OF s] leaving_stays [OF run] show ?thesis by auto
  qed
qed simp

section \<open>Retries\<close>

definition fails :: "rl_input \<Rightarrow> bool" where
  "fails i \<longleftrightarrow> \<not> (in_found i \<and> in_starts i)"

lemma failed_attempt:
  assumes "ss_pc ss = RL_top idx" and "idx < 6" and "\<not> ss_stopRequested ss" and "wd_alive d"
    and "ws_allowHeartless cfg" and "ws_retry cfg" and "fails i"
  shows "\<exists>ss1. fold (session_step cfg) [i, j, k] (ss, d) = (ss1, d) \<and> ss_pc ss1 = RL_top ((idx + 1) mod 6)
    \<and> \<not> ss_stopRequested ss1 \<and> ss_pc (fst (fold (session_step cfg) [i, j] (ss, d))) = RL_wait (backoff_seq ! idx) ((idx + 1) mod 6)"
  using assms by (auto simp: session_step_def runAttempt_eq nextBackoff_def fails_def Let_def)

text \<open>Groups of three inputs: the attempt, the look-up of the delay, the wait.\<close>

fun attempts :: "rl_input list \<Rightarrow> bool" where
  "attempts [] = True"
| "attempts (i # j # k # is) = (fails i \<and> attempts is)"
| "attempts is = False"

text \<open>
  The delays between attempts. When devices without a heartbeat are kept and retries are on, a thread
  whose attempts all fail never gives up; after the \<open>n\<close>-th failure in a row it waits 1, 2, 4, 8, 16 or 30
  seconds, by \<open>n\<close> modulo 6: after the longest delay the sequence starts again at one second instead of
  staying at thirty.
\<close>

theorem retry_delays:
  assumes "attempts is" and "length is = 3 * n" and "fails i"
    and "ss_pc ss = RL_top 0" and "\<not> ss_stopRequested ss" and "wd_alive d"
    and "ws_allowHeartless cfg" and "ws_retry cfg"
  shows "ss_pc (fst (fold (session_step cfg) (is @ [i, j]) (ss, d)))
    = RL_wait (backoff_seq ! (n mod 6)) (Suc n mod 6)"
proof -
  have "\<exists>ss1. fold (session_step cfg) is (ss, d) = (ss1, d) \<and> ss_pc ss1 = RL_top ((m + n) mod 6) \<and> \<not> ss_stopRequested ss1"
    if "attempts is" "length is = 3 * n" "ss_pc ss = RL_top (m mod 6)" "\<not> ss_stopRequested ss" for "is" n m ss
    using that
  proof (induction "is" arbitrary: ss n m rule: attempts.induct)
    case (2 i j k "is")
    obtain ss1 where 1: "fold (session_step cfg) [i, j, k] (ss, d) = (ss1, d)"
      "ss_pc ss1 = RL_top ((m mod 6 + 1) mod 6)" "\<not> ss_stopRequested ss1"
      using failed_attempt [OF 2(4) _ 2(5) assms(6-8), of i j k] 2(2) by auto
    have n: "length is = 3 * (n - 1)" "1 \<le> n" using 2(3) by auto
    have "ss_pc ss1 = RL_top (Suc m mod 6)" using 1(2) by (simp add: mod_Suc_eq)
    from 2(1) [OF _ n(1) this 1(3)] 2(2) obtain ss2 where
      "fold (session_step cfg) is (ss1, d) = (ss2, d)" "ss_pc ss2 = RL_top ((Suc m + (n - 1)) mod 6)"
      "\<not> ss_stopRequested ss2" by auto
    moreover have "fold (session_step cfg) (i # j # k # is) (ss, d) = fold (session_step cfg) is (ss1, d)"
      using 1(1) by simp
    ultimately show ?case using n(2) by simp
  qed auto
  from this [of "is" n ss 0] assms(1,2,4,5) obtain ss1 where
    1: "fold (session_step cfg) is (ss, d) = (ss1, d)" "ss_pc ss1 = RL_top (n mod 6)" "\<not> ss_stopRequested ss1"
    by auto
  from failed_attempt [OF 1(2) _ 1(3) assms(6-8,3), of j j]
  have "ss_pc (fst (fold (session_step cfg) [i, j] (ss1, d))) = RL_wait (backoff_seq ! (n mod 6)) (Suc n mod 6)"
    by (auto simp: mod_Suc_eq)
  then show ?thesis by (simp add: 1(1))
qed

section \<open>Discovery\<close>

text \<open>
  A discovery update reconnects once. When the discovery reports a connected device at a new address,
  the thread leaves its loop, connects again without a delay, and with that is up to date: it beats
  again and wants no further reconnect.
\<close>

theorem update_reconnects:
  assumes "wd_session d = Some ss" and "ss_pc ss = RL_beat b" and "\<not> ss_stopRequested ss" and "wd_alive d"
    and "(dv_ipaddr (wd_dev d), dv_serviceName (wd_dev d), dv_interfaceIndex (wd_dev d)) \<noteq> (ips, name, idx)"
    and "in_found k" and "in_starts k"
  shows "\<exists>ss'. wd_session (fold (thread_step cfg) [i, j, k] (updateDiscoveryInfo ips name idx d)) = Some ss'
    \<and> ss_pc ss' = RL_beat False \<and> ss_state ss' = Connected \<and> ss_hbclient ss'
    \<and> ss_appliedVersion ss' = wd_discoveryVersion d + 1 \<and> \<not> wants_reconnect ss'
    \<and> wd_kills (fold (thread_step cfg) [i, j, k] (updateDiscoveryInfo ips name idx d)) = wd_kills d"
proof -
  define d0 where "d0 = updateDiscoveryInfo ips name idx d"
  have d0: "wd_session d0 = Some (notifyDiscoveryUpdate (wd_discoveryVersion d + 1) True ss)"
    "wd_discoveryVersion d0 = wd_discoveryVersion d + 1" "wd_alive d0" "wd_kills d0 = wd_kills d"
    using assms by (auto simp: d0_def updateDiscoveryInfo_def Let_def)
  define s1 where "s1 = notifyDiscoveryUpdate (wd_discoveryVersion d + 1) True ss"
  have s1: "ss_pc s1 = RL_beat b" "\<not> ss_stopRequested s1" "ss_reconnectRequested s1"
    "ss_pendingVersion s1 = wd_discoveryVersion d + 1"
    using assms by (auto simp: s1_def notifyDiscoveryUpdate_def)
  have "thread_step cfg i d0 = d0\<lparr>wd_session := Some (s1\<lparr>ss_pc := RL_after b\<rparr>)\<rparr>"
    using d0 s1 by (simp add: thread_step_def session_step_def wants_reconnect_def s1_def [symmetric])
  moreover have "thread_step cfg j \<dots> = d0\<lparr>wd_session := Some (s1\<lparr>ss_pc := RL_top 0, ss_reconnectRequested := False\<rparr>)\<rparr>"
    using s1 by (simp add: thread_step_def session_step_def wants_reconnect_def Let_def)
  ultimately show ?thesis
    using d0 s1 assms(6,7)
    by (simp add: thread_step_def session_step_def runAttempt_eq wants_reconnect_def flip: d0_def)
qed

text \<open>
  A version that is out of date, such as one stored by \<open>start\<close> after a newer one was announced, is never
  put right by the thread: it connects, finds the versions different and connects again, without any
  delay, until the next update.
\<close>

lemma stale_turn:
  assumes "ss_pc ss = RL_top idx" and "\<not> ss_stopRequested ss" and "wd_alive d"
    and "ss_pendingVersion ss \<noteq> wd_discoveryVersion d" and "in_found i \<and> in_starts i"
  shows "\<exists>ss1. fold (session_step cfg) [i, j, k] (ss, d) = (ss1, d) \<and> ss_pc ss1 = RL_top 0
    \<and> \<not> ss_stopRequested ss1 \<and> ss_pendingVersion ss1 = ss_pendingVersion ss"
proof -
  define s1 where "s1 = ss\<lparr>ss_appliedVersion := wd_discoveryVersion d, ss_reconnectRequested := False,
    ss_idev := True, ss_hbclient := True, ss_state := Connected, ss_pc := RL_beat False\<rparr>"
  have 1: "session_step cfg i (ss, d) = (s1, d)"
    using assms by (simp add: session_step_def runAttempt_eq s1_def)
  have s1: "ss_pc s1 = RL_beat False" "\<not> ss_stopRequested s1" "wants_reconnect s1"
    "ss_pendingVersion s1 = ss_pendingVersion ss"
    using assms by (simp_all add: s1_def wants_reconnect_def)
  then have 2: "session_step cfg j (s1, d) = (s1\<lparr>ss_pc := RL_after False\<rparr>, d)"
    by (simp add: session_step_def)
  have "wants_reconnect (s1\<lparr>ss_pc := RL_after False\<rparr>)" using s1(3) by (simp add: wants_reconnect_def)
  with s1(2) have "session_step cfg k (s1\<lparr>ss_pc := RL_after False\<rparr>, d)
      = (s1\<lparr>ss_pc := RL_top 0, ss_reconnectRequested := False\<rparr>, d)"
    by (simp add: session_step_def Let_def)
  with 1 2 s1 show ?thesis by simp
qed

lemma stale_version_spins:
  assumes "\<forall>i \<in> set is. in_found i \<and> in_starts i" and "length is = 3 * n" and "ss_pc ss = RL_top idx"
    and "\<not> ss_stopRequested ss" and "wd_alive d" and "ss_pendingVersion ss \<noteq> wd_discoveryVersion d"
    and "0 < n"
  shows "\<exists>ss'. fold (session_step cfg) is (ss, d) = (ss', d) \<and> ss_pc ss' = RL_top 0"
  using assms
proof (induction n arbitrary: "is" ss idx)
  case (Suc n)
  then obtain i j k rest where eq: "is = i # j # k # rest" and l: "length rest = 3 * n"
    by (auto simp: length_Suc_conv numeral_eq_Suc)
  have io: "in_found i \<and> in_starts i" using Suc.prems(1) by (simp add: eq)
  obtain ss1 where s: "fold (session_step cfg) [i, j, k] (ss, d) = (ss1, d)" "ss_pc ss1 = RL_top 0"
      "\<not> ss_stopRequested ss1" "ss_pendingVersion ss1 \<noteq> wd_discoveryVersion d"
    using stale_turn [OF Suc.prems(3-6) io] Suc.prems(6) by metis
  have fold: "fold (session_step cfg) is (ss, d) = fold (session_step cfg) rest (ss1, d)"
    using s(1) by (simp add: eq)
  show ?case
  proof (cases "n = 0")
    case True
    with l s(2) fold show ?thesis by simp
  next
    case False
    have "\<forall>i \<in> set rest. in_found i \<and> in_starts i" using Suc.prems(1) by (simp add: eq)
    from Suc.IH [OF this l s(2,3) Suc.prems(5) s(4)] False fold show ?thesis by simp
  qed
qed simp

section \<open>Witnesses\<close>

definition ex_wifi_settings :: wifi_settings where
  "ex_wifi_settings = \<lparr>ws_allowHeartless = True, ws_retry = True\<rparr>"

definition ex_input :: "bool \<Rightarrow> rl_input" where
  "ex_input found = \<lparr>in_found = found, in_starts = True, in_beat = Some None, in_sent = True\<rparr>"

definition ex_wifi_device :: wifi_device where
  "ex_wifi_device = new_wifi_device 7 ''abc'' [''10.0.0.2''] ''aa:bb@x'' 3"

definition ex_session :: session where
  "ex_session = session_start 1 new_session"

lemmas ex_wifi_eval = ex_wifi_settings_def ex_input_def ex_wifi_device_def ex_session_def new_wifi_device_def
  new_session_def session_start_def ensureSession_def the_session_def isPairingDevice_def session_step_def
  runAttempt_eq wants_reconnect_def

lemma session_keeps_form_witness:
  "session_ok ex_session \<and> \<not> isPairingDevice (ensureSession ex_wifi_device)
    \<and> ss_threads (session_start 5 ex_session) = ss_threads ex_session"
proof -
  have "wifi_reachable ex_wifi_settings (ensureSession ex_wifi_device)"
    unfolding ex_wifi_device_def by (rule wifi_reachable.Step [OF wifi_reachable.Start wifi_step.Ensure])
  moreover have "wd_session (ensureSession ex_wifi_device) = Some ex_session"
    by (simp add: ex_wifi_eval Let_def)
  moreover have "ss_pc ex_session \<noteq> RL_done" by (simp add: ex_wifi_eval Let_def)
  ultimately show ?thesis using session_keeps_form by blast
qed

lemma stop_joins_witness:
  "\<exists>ss'. session_stop ex_wifi_settings (replicate 4 (ex_input True)) True (ex_session, ex_wifi_device) = (ss', ex_wifi_device)
    \<and> ss_pc ss' = RL_done \<and> ss_state ss' = Stopped"
proof -
  have "session_ok ex_session" and started: "ss_started ex_session"
    by (simp_all add: ex_session_def session_start_ok) (simp add: session_start_def new_session_def Let_def)
  moreover obtain ss' d' where
    "session_stop ex_wifi_settings (replicate 4 (ex_input True)) True (ex_session, ex_wifi_device) = (ss', d')"
    by fastforce
  ultimately show ?thesis using stop_joins [of ex_session] by force
qed

lemma session_kill_once_witness:
  "snd (session_step (ex_wifi_settings\<lparr>ws_allowHeartless := False\<rparr>) (ex_input False) (ex_session, ex_wifi_device))
    = wifi_kill ex_wifi_device"
proof -
  let ?cfg = "ex_wifi_settings\<lparr>ws_allowHeartless := False\<rparr>"
  obtain ss' d' where s: "session_step ?cfg (ex_input False) (ex_session, ex_wifi_device) = (ss', d')" by fastforce
  then have "d' \<noteq> ex_wifi_device" by (auto simp: ex_wifi_eval wifi_kill_def Let_def)
  then show ?thesis
    using session_kill_once [of ?cfg "[ex_input False]" ex_session ex_wifi_device ss' d'] s by simp
qed

lemma retry_delays_witness:
  "ss_pc (fst (fold (session_step ex_wifi_settings) (replicate 18 (ex_input False) @ [ex_input False, ex_input False])
     (ex_session, ex_wifi_device))) = RL_wait 1 1"
proof -
  have "ss_pc ex_session = RL_top 0" "\<not> ss_stopRequested ex_session" "wd_alive ex_wifi_device"
    "ws_allowHeartless ex_wifi_settings" "ws_retry ex_wifi_settings" "fails (ex_input False)"
    by (simp_all add: ex_wifi_eval fails_def Let_def)
  moreover have "attempts (replicate 18 (ex_input False))"
    by (simp add: numeral_eq_Suc fails_def ex_input_def)
  ultimately show ?thesis
    using retry_delays [of "replicate 18 (ex_input False)" 6 "ex_input False" ex_session ex_wifi_device
      ex_wifi_settings "ex_input False"] by (simp add: backoff_seq_def)
qed

lemma update_reconnects_witness:
  "wd_kills (fold (thread_step ex_wifi_settings) [ex_input True, ex_input True, ex_input True]
     (updateDiscoveryInfo [''10.0.0.9''] ''aa:bb@x'' 3
        (ex_wifi_device\<lparr>wd_session := Some (ex_session\<lparr>ss_pc := RL_beat False\<rparr>)\<rparr>))) = 0"
proof -
  let ?ss = "ex_session\<lparr>ss_pc := RL_beat False\<rparr>"
  let ?d = "ex_wifi_device\<lparr>wd_session := Some ?ss\<rparr>"
  have "wd_session ?d = Some ?ss" "ss_pc ?ss = RL_beat False" "\<not> ss_stopRequested ?ss" "wd_alive ?d"
    "(dv_ipaddr (wd_dev ?d), dv_serviceName (wd_dev ?d), dv_interfaceIndex (wd_dev ?d)) \<noteq> ([''10.0.0.9''], ''aa:bb@x'', 3)"
    "in_found (ex_input True)" "in_starts (ex_input True)" and kills: "wd_kills ?d = 0"
    by (simp_all add: ex_wifi_eval Let_def)
  from update_reconnects [OF this(1-7), of ex_wifi_settings "ex_input True" "ex_input True"] kills
  show ?thesis by metis
qed

end
