(* ===== verification/Muxer_Registry.thy ===== *)
theory Muxer_Registry
  imports Muxer
begin

text \<open>
  What a device registry promises, and that the muxer is one. The abstract registry maps a serial number
  and a kind of connection to an identifier; its two steps are plugging and unplugging. The muxer's set
  of devices, searched and changed by pointers, refines it.
\<close>

section \<open>What the muxer keeps\<close>

lemma notify_listening_sets [simp]:
  "mx_devices (notify_listening env msg m) = mx_devices m \<and> mx_clients (notify_listening env msg m) = mx_clients m
    \<and> mx_newid (notify_listening env msg m) = mx_newid m \<and> mx_calls (notify_listening env msg m) = mx_calls m
    \<and> mx_allowHeartlessWifi (notify_listening env msg m) = mx_allowHeartlessWifi m
    \<and> mx_retryWifiSession (notify_listening env msg m) = mx_retryWifiSession m"
proof -
  have "mx_devices (fold (notify_client env msg) ps m) = mx_devices m
    \<and> mx_clients (fold (notify_client env msg) ps m) = mx_clients m
    \<and> mx_newid (fold (notify_client env msg) ps m) = mx_newid m
    \<and> mx_calls (fold (notify_client env msg) ps m) = mx_calls m
    \<and> mx_allowHeartlessWifi (fold (notify_client env msg) ps m) = mx_allowHeartlessWifi m
    \<and> mx_retryWifiSession (fold (notify_client env msg) ps m) = mx_retryWifiSession m" for ps
    by (induction ps arbitrary: m) (simp_all add: notify_client_def on_client_def split: prod.split)
  then show ?thesis by (simp add: notify_listening_def)
qed

text \<open>Fewer devices with the same identifiers are in order too, and so are devices that keep what identifies them.\<close>

lemma ids_ok_subset:
  "ids_ok m \<Longrightarrow> set (mx_devices m') \<subseteq> set (mx_devices m) \<Longrightarrow> mx_newid m' = mx_newid m \<Longrightarrow> ids_ok m'"
  unfolding ids_ok_def by (metis subsetD)

definition same_identity :: "device \<Rightarrow> device \<Rightarrow> bool" where
  "same_identity d e \<longleftrightarrow> dv_ptr d = dv_ptr e \<and> dv_id d = dv_id e \<and> dv_serial d = dv_serial e
     \<and> dv_conntype d = dv_conntype e"

lemma ids_ok_map:
  assumes "ids_ok m" and "\<forall>d \<in> set (mx_devices m). same_identity (f d) d"
  shows "ids_ok (m\<lparr>mx_devices := map f (mx_devices m)\<rparr>)"
proof -
  have f: "dv_id (f d) = dv_id d" "dv_serial (f d) = dv_serial d" "dv_conntype (f d) = dv_conntype d"
    if "d \<in> set (mx_devices m)" for d
    using that assms(2) by (auto simp: same_identity_def)
  have "device_ok (mx_newid m) (f d)" if "d \<in> set (mx_devices m)" for d
    using that assms(1) f [OF that] by (auto simp: ids_ok_def device_ok_def)
  moreover have "(dv_id (f d) div 2 = dv_id (f e) div 2 \<longleftrightarrow> dv_serial (f d) = dv_serial (f e))
      \<and> (dv_serial (f d) = dv_serial (f e) \<and> dv_conntype (f d) = dv_conntype (f e) \<longrightarrow> f d = f e)"
    if "d \<in> set (mx_devices m)" "e \<in> set (mx_devices m)" for d e
    using that assms(1) f unfolding ids_ok_def by metis
  ultimately show ?thesis using assms(1) by (auto simp: ids_ok_def)
qed

lemma delete_first_sets:
  "set (mx_devices (delete_first env P m)) \<subseteq> set (mx_devices m)" "mx_newid (delete_first env P m) = mx_newid m"
  "mx_allowHeartlessWifi (delete_first env P m) = mx_allowHeartlessWifi m"
  "mx_retryWifiSession (delete_first env P m) = mx_retryWifiSession m"
  by (auto simp: delete_first_def erase_device_def notify_device_remove_def Let_def split: option.splits)

lemma delete_first_ids: "ids_ok m \<Longrightarrow> ids_ok (delete_first env P m)"
  by (rule ids_ok_subset) (use delete_first_sets [of env P m] in auto)

lemma assign_id_dev:
  assumes "assign_id dev m = Some (dev', m')"
  shows "dev' = dev\<lparr>dv_id := dv_id dev'\<rparr>" and "mx_devices m' = mx_devices m"
  using assms by (auto simp: assign_id_def Let_def split: if_splits option.splits)

lemma add_device_run:
  assumes "assign_id dev m = Some (dev', m1)"
  shows "\<exists>m'. add_device env dev n m = Some m' \<and> mx_newid m' = mx_newid m1
    \<and> set (mx_devices m') \<subseteq> set (mx_devices (insert_device dev' m1))"
  using assms
  by (auto simp: add_device_def insert_device_def notify_device_add_def delete_device_def
      notify_device_remove_def erase_device_def set_insort_key Let_def)

lemma insert_device_set:
  "set (mx_devices (insert_device dev m)) = insert dev {d \<in> set (mx_devices m). dv_ptr d \<noteq> dv_ptr dev}"
  by (auto simp: insert_device_def set_insort_key)

section \<open>The abstract registry\<close>

type_synonym registry = "string \<times> mux_conn_type \<Rightarrow> int option"

definition kind_bit :: "mux_conn_type \<Rightarrow> int" where
  "kind_bit ty = (if ty = MUXCONN_WIFI then 1 else 0)"

text \<open>
  A new key gets an identifier that agrees with another one in all but the lowest bit exactly when the
  serial is the same; the lowest bit is the kind of connection.
\<close>

inductive reg_step :: "registry \<Rightarrow> registry \<Rightarrow> bool" where
  Plug: "r (serial, ty) = None \<Longrightarrow> ty \<in> {MUXCONN_USB, MUXCONN_WIFI} \<Longrightarrow> 1 \<le> i div 2 \<Longrightarrow> i mod 2 = kind_bit ty
    \<Longrightarrow> \<forall>serial' ty' j. r (serial', ty') = Some j \<longrightarrow> (j div 2 = i div 2 \<longleftrightarrow> serial' = serial)
    \<Longrightarrow> reg_step r (r((serial, ty) \<mapsto> i))"
| Unplug: "r k = Some i \<Longrightarrow> reg_step r (r(k := None))"

definition reg_ok :: "registry \<Rightarrow> bool" where
  "reg_ok r \<longleftrightarrow> (\<forall>s ty i. r (s, ty) = Some i \<longrightarrow> ty \<in> {MUXCONN_USB, MUXCONN_WIFI} \<and> i mod 2 = kind_bit ty)
     \<and> (\<forall>s ty i s' ty' j. r (s, ty) = Some i \<and> r (s', ty') = Some j \<longrightarrow> (i div 2 = j div 2 \<longleftrightarrow> s = s'))"

lemma reg_step_ok: "reg_step r r' \<Longrightarrow> reg_ok r \<Longrightarrow> reg_ok r'"
proof (induction rule: reg_step.induct)
  case (Plug r serial ty i)
  from Plug.prems have old: "ty' \<in> {MUXCONN_USB, MUXCONN_WIFI} \<and> j mod 2 = kind_bit ty'"
    if "r (s', ty') = Some j" for s' ty' j
    using that by (auto simp: reg_ok_def)
  from Plug.prems have pairs: "i div 2 = j div 2 \<longleftrightarrow> s = s'"
    if "r (s, ty) = Some i" "r (s', ty') = Some j" for s ty i s' ty' j
    using that by (auto simp: reg_ok_def)
  show ?case
    unfolding reg_ok_def using Plug.hyps(2,4,5) old pairs by (auto split: if_splits) metis+
qed (auto simp: reg_ok_def split: if_splits)

lemma reg_steps_ok: "reg_step\<^sup>*\<^sup>* (\<lambda>_. None) r \<Longrightarrow> reg_ok r"
  by (induction rule: rtranclp_induct) (auto simp: reg_ok_def [of "\<lambda>_. None"] intro: reg_step_ok)

lemma reg_ok_unique:
  assumes "reg_ok r" and "r k = Some i" and "r k' = Some i"
  shows "k = k'"
proof (cases k; cases k')
  fix s ty s' ty'
  assume k: "k = (s, ty)" "k' = (s', ty')"
  with assms have "s = s'" "kind_bit ty = kind_bit ty'" "{ty, ty'} \<subseteq> {MUXCONN_USB, MUXCONN_WIFI}"
    unfolding reg_ok_def by (metis, metis, metis empty_subsetI insert_subset)
  with k show ?thesis by (auto simp: kind_bit_def split: if_splits)
qed

section \<open>The muxer as a registry\<close>

definition has_key :: "string \<times> mux_conn_type \<Rightarrow> device \<Rightarrow> bool" where
  "has_key k d \<longleftrightarrow> dv_serial d = fst k \<and> dv_conntype d = snd k"

definition registry :: "muxer \<Rightarrow> registry" where
  "registry m k = map_option dv_id (find (has_key k) (mx_devices m))"

definition mux_ok :: "muxer \<Rightarrow> bool" where
  "mux_ok m \<longleftrightarrow> ids_ok m \<and> distinct (map dv_ptr (mx_devices m))"

lemma has_key_unique:
  "ids_ok m \<Longrightarrow> d \<in> set (mx_devices m) \<Longrightarrow> e \<in> set (mx_devices m) \<Longrightarrow> has_key k d \<Longrightarrow> has_key k e \<Longrightarrow> d = e"
  unfolding ids_ok_def has_key_def by metis

lemma registry_Some:
  assumes "ids_ok m"
  shows "registry m k = Some i \<longleftrightarrow> (\<exists>d \<in> set (mx_devices m). has_key k d \<and> dv_id d = i)"
proof
  assume "registry m k = Some i"
  then obtain d where "find (has_key k) (mx_devices m) = Some d" "dv_id d = i" by (auto simp: registry_def)
  with find_at show "\<exists>d \<in> set (mx_devices m). has_key k d \<and> dv_id d = i" by fast
next
  assume "\<exists>d \<in> set (mx_devices m). has_key k d \<and> dv_id d = i"
  then obtain d where d: "d \<in> set (mx_devices m)" "has_key k d" "dv_id d = i" by auto
  show "registry m k = Some i"
  proof (cases "find (has_key k) (mx_devices m)")
    case None
    with d show ?thesis by (auto simp: find_None_iff)
  next
    case (Some e)
    with find_at [OF Some] d have "e = d" by (intro has_key_unique [OF assms]) auto
    with Some d show ?thesis by (simp add: registry_def)
  qed
qed

lemma registry_eqI:
  assumes "ids_ok m" and "\<And>k i. r k = Some i \<longleftrightarrow> (\<exists>d \<in> set (mx_devices m). has_key k d \<and> dv_id d = i)"
  shows "registry m = r"
proof
  fix k
  have "registry m k = Some i \<longleftrightarrow> r k = Some i" for i
    using assms(2) [of k i] registry_Some [OF assms(1), of k i] by simp
  then show "registry m k = r k" by (cases "r k"; cases "registry m k") auto
qed

lemma registry_None:
  "ids_ok m \<Longrightarrow> registry m k = None \<longleftrightarrow> (\<forall>d \<in> set (mx_devices m). \<not> has_key k d)"
  by (auto simp: registry_def find_None_iff)

section \<open>Every operation is a step of the registry or none\<close>

lemma registry_cong: "mx_devices m' = mx_devices m \<Longrightarrow> registry m' = registry m"
  by (simp add: registry_def fun_eq_iff)

lemma mux_ok_cong: "mx_devices m' = mx_devices m \<Longrightarrow> mx_newid m' = mx_newid m \<Longrightarrow> mux_ok m' = mux_ok m"
  by (simp add: mux_ok_def ids_ok_def)

lemma erase_refines:
  assumes "mux_ok m" and "d \<in> set (mx_devices m)"
  shows "mux_ok (erase_device (dv_ptr d) m) \<and> reg_step (registry m) (registry (erase_device (dv_ptr d) m))"
proof -
  let ?m = "erase_device (dv_ptr d) m" and ?k = "(dv_serial d, dv_conntype d)"
  have set: "set (mx_devices ?m) = set (mx_devices m) - {d}"
  proof -
    have "inj_on dv_ptr (set (mx_devices m))" using assms(1) by (simp add: mux_ok_def distinct_map)
    with assms(2) show ?thesis by (auto simp: erase_device_def dest: inj_onD)
  qed
  have ids: "ids_ok m" "ids_ok ?m"
    using assms(1) ids_ok_subset [of m ?m] by (auto simp: mux_ok_def erase_device_def)
  then have ok: "mux_ok ?m" using assms(1) by (simp add: mux_ok_def erase_device_def distinct_map_filter)
  have "registry ?m = (registry m)(?k := None)"
  proof (rule registry_eqI [OF ids(2)])
    fix k i
    have "has_key k d \<longleftrightarrow> k = ?k" by (cases k) (auto simp: has_key_def)
    then show "((registry m)(?k := None)) k = Some i \<longleftrightarrow> (\<exists>e \<in> set (mx_devices ?m). has_key k e \<and> dv_id e = i)"
      using registry_Some [OF ids(1), of k i] has_key_unique [OF ids(1) assms(2), of _ k] unfolding set by auto
  qed
  moreover have "registry m ?k = Some (dv_id d)"
    using assms(2) by (subst registry_Some [OF ids(1)]) (auto simp: has_key_def)
  ultimately show ?thesis using ok reg_step.Unplug by metis
qed

lemma notify_refines:
  "registry (notify_listening env msg m) = registry m" "mux_ok (notify_listening env msg m) = mux_ok m"
  by (rule registry_cong, simp) (rule mux_ok_cong, simp_all)

lemma delete_device_refines:
  assumes "mux_ok m" and "d \<in> set (mx_devices m)"
  shows "mux_ok (delete_device env d m) \<and> reg_step (registry m) (registry (delete_device env d m))"
  using erase_refines [OF assms] by (simp add: delete_device_def notify_device_remove_def notify_refines)

lemma delete_first_refines:
  assumes "mux_ok m"
  shows "mux_ok (delete_first env P m)
    \<and> reg_step\<^sup>*\<^sup>* (registry m) (registry (delete_first env P m))"
proof (cases "find P (mx_devices m)")
  case (Some d)
  with find_at [OF Some] erase_refines [OF assms, of d] show ?thesis
    by (auto simp: delete_first_def notify_device_remove_def notify_refines Let_def)
qed (use assms in \<open>simp add: delete_first_def\<close>)

lemma insert_refines:
  assumes "mux_ok m" and "assign_id dev m = Some (dev', m1)" and "mx_newid m < MAXID"
    and "dv_conntype dev \<in> {MUXCONN_USB, MUXCONN_WIFI}" and "dv_ptr dev \<notin> dv_ptr ` set (mx_devices m)"
    and "registry m (dv_serial dev, dv_conntype dev) = None"
  shows "mux_ok (insert_device dev' m1) \<and> reg_step (registry m) (registry (insert_device dev' m1))
    \<and> dev' \<in> set (mx_devices (insert_device dev' m1))"
proof -
  let ?m = "insert_device dev' m1" and ?k = "(dv_serial dev, dv_conntype dev)"
  have ids: "ids_ok m" and ptrs: "distinct (map dv_ptr (mx_devices m))" using assms(1) by (auto simp: mux_ok_def)
  have fresh: "\<forall>d \<in> set (mx_devices m). \<not> (dv_serial d = dv_serial dev \<and> dv_conntype d = dv_conntype dev)"
    using assms(6) by (simp add: registry_None [OF ids] has_key_def)
  from assign_id_new [OF ids assms(3,4) fresh] assms(2) have new: "ids_ok ?m" "mx_devices m1 = mx_devices m"
    "\<forall>d \<in> set (mx_devices m). dv_id d div 2 = dv_id dev' div 2 \<longleftrightarrow> dv_serial d = dv_serial dev" by auto
  have dev': "dv_serial dev' = dv_serial dev" "dv_conntype dev' = dv_conntype dev" "dv_ptr dev' = dv_ptr dev"
    using assign_id_dev(1) [OF assms(2)] by (metis device.select_convs device.surjective device.update_convs(3))+
  have ptr: "\<forall>d \<in> set (mx_devices m). dv_ptr d \<noteq> dv_ptr dev" using assms(5) by (metis image_eqI)
  then have set: "set (mx_devices ?m) = insert dev' (set (mx_devices m))"
    by (auto simp: insert_device_set new(2) dev'(3))
  have "filter (\<lambda>d. dv_ptr d \<noteq> dv_ptr dev) (mx_devices m) = mx_devices m"
    using ptr by (auto simp: filter_id_conv)
  then have "mux_ok ?m"
    using new(1) ptrs ptr dev'(3) by (fastforce simp: mux_ok_def insert_device_def new(2) distinct_map distinct_insort inj_on_def set_insort_key)
  moreover have "registry ?m = (registry m)(?k \<mapsto> dv_id dev')"
  proof (rule registry_eqI [OF new(1)])
    fix k i
    have k: "has_key k dev' \<longleftrightarrow> k = ?k" by (cases k) (auto simp: has_key_def dev')
    moreover have "\<not> has_key ?k d" if "d \<in> set (mx_devices m)" for d
      using fresh that by (auto simp: has_key_def)
    ultimately show "((registry m)(?k \<mapsto> dv_id dev')) k = Some i \<longleftrightarrow> (\<exists>e \<in> set (mx_devices ?m). has_key k e \<and> dv_id e = i)"
      unfolding set by (auto simp: registry_Some [OF ids])
  qed
  moreover have "reg_step (registry m) ((registry m)(?k \<mapsto> dv_id dev'))"
  proof (rule reg_step.Plug)
    have "device_ok (mx_newid ?m) dev'" using new(1) set by (auto simp: ids_ok_def)
    then show "1 \<le> dv_id dev' div 2" "dv_id dev' mod 2 = kind_bit (dv_conntype dev)"
      by (auto simp: device_ok_def kind_bit_def dev'(2))
    show "\<forall>serial' ty' j. registry m (serial', ty') = Some j \<longrightarrow> (j div 2 = dv_id dev' div 2 \<longleftrightarrow> serial' = dv_serial dev)"
      using new(3) by (auto simp: registry_Some [OF ids] has_key_def)
  qed (use assms(4,6) in auto)
  ultimately show ?thesis by (simp add: set)
qed

text \<open>
  What happens to a muxer: devices are added where there is room for an identifier and the device is not
  connected this way, and leave by any of the searches the managers use; requests and notifications do
  not change the devices.
\<close>

inductive mux_step :: "'p mux_env \<Rightarrow> muxer \<Rightarrow> muxer \<Rightarrow> bool" for env where
  Add: "mx_newid m < MAXID \<Longrightarrow> dv_conntype dev \<in> {MUXCONN_USB, MUXCONN_WIFI}
    \<Longrightarrow> dv_ptr dev \<notin> dv_ptr ` set (mx_devices m) \<Longrightarrow> registry m (dv_serial dev, dv_conntype dev) = None
    \<Longrightarrow> add_device env dev notify m = Some m' \<Longrightarrow> mux_step env m m'"
| Delete: "d \<in> set (mx_devices m) \<Longrightarrow> mux_step env m (delete_device env d m)"
| Unplugged: "mux_step env m (delete_device_at env bus address m)"
| Pairing_done: "mux_step env m (delete_wifi_pairing_device_with_ip env ips m)"
| Pairing_gone: "mux_step env m (delete_wifi_device_with_serial env serial m)"
| Other: "mx_devices m' = mx_devices m \<Longrightarrow> mx_newid m' = mx_newid m \<Longrightarrow> mux_step env m m'"

lemma add_device_refines:
  assumes "mux_ok m" and "mx_newid m < MAXID" and "dv_conntype dev \<in> {MUXCONN_USB, MUXCONN_WIFI}"
    and "dv_ptr dev \<notin> dv_ptr ` set (mx_devices m)" and "registry m (dv_serial dev, dv_conntype dev) = None"
    and "add_device env dev notify m = Some m'"
  shows "mux_ok m' \<and> reg_step\<^sup>*\<^sup>* (registry m) (registry m')"
proof -
  from assms(6) obtain dev' m1 where id: "assign_id dev m = Some (dev', m1)"
    by (auto simp: add_device_def split: option.splits)
  let ?m = "insert_device dev' m1"
  from insert_refines [OF assms(1) id assms(2-5)]
  have ins: "mux_ok ?m" "reg_step (registry m) (registry ?m)" "dev' \<in> set (mx_devices ?m)" by auto
  consider "m' = ?m" | "m' = notify_device_add env dev' ?m" | "m' = delete_device env dev' ?m"
    using assms(6) id by (auto simp: add_device_def Let_def split: if_splits)
  then show ?thesis
  proof cases
    case 3
    with delete_device_refines [OF ins(1,3), of env] ins(2) show ?thesis
      by (auto intro: rtranclp.rtrancl_into_rtrancl)
  qed (use ins(1,2) in \<open>auto simp: notify_device_add_def notify_refines\<close>)
qed

lemma mux_step_refines:
  assumes "mux_step env m m'" and "mux_ok m"
  shows "mux_ok m' \<and> reg_step\<^sup>*\<^sup>* (registry m) (registry m')"
  using assms(1)
proof (cases rule: mux_step.cases)
  case (Add dev notify)
  with add_device_refines assms(2) show ?thesis by blast
next
  case (Delete d)
  with delete_device_refines [OF assms(2)] show ?thesis by blast
next
  case (Unplugged bus address)
  with delete_first_refines [OF assms(2)] show ?thesis by (simp add: delete_device_at_def)
next
  case (Pairing_done ips)
  with delete_first_refines [OF assms(2)] show ?thesis
    by (simp add: delete_wifi_pairing_device_with_ip_def)
next
  case (Pairing_gone serial)
  with delete_first_refines [OF assms(2)] show ?thesis
    by (simp add: delete_wifi_device_with_serial_def)
next
  case Other
  with assms(2) show ?thesis using mux_ok_cong [OF Other] registry_cong [OF Other(1)] by simp
qed

text \<open>
  C14: the muxer refines a registry. Whatever sequence of devices arriving and leaving a new muxer goes
  through, what it knows of serials and identifiers went through plug and unplug steps of the registry;
  so an identifier always stands for one serial and one kind of connection, and the two connections
  of one device differ in the lowest bit only.
\<close>

theorem muxer_refines_registry:
  assumes "(mux_step env)\<^sup>*\<^sup>* (new_muxer heap pre heartless retry) m"
  shows "reg_step\<^sup>*\<^sup>* (\<lambda>_. None) (registry m)
    \<and> (registry m k = Some i \<and> registry m k' = Some i \<longrightarrow> k = k')
    \<and> (registry m (serial, MUXCONN_USB) = Some i \<and> registry m (serial, MUXCONN_WIFI) = Some j \<longrightarrow> j = i + 1)"
proof -
  have new: "mux_ok (new_muxer heap pre heartless retry)" "registry (new_muxer heap pre heartless retry) = (\<lambda>_. None)"
    by (simp_all add: mux_ok_def ids_ok_def new_muxer_def registry_def MAXID_def fun_eq_iff)
  have run: "mux_ok m \<and> reg_step\<^sup>*\<^sup>* (\<lambda>_. None) (registry m)"
    using assms
  proof (induction rule: rtranclp_induct)
    case base
    show ?case using new by simp
  next
    case (step m1 m2)
    with mux_step_refines [OF step.hyps(2)] show ?case by (meson rtranclp_trans)
  qed
  have ok: "reg_ok (registry m)" using run reg_steps_ok by simp
  have "j = i + 1" if "registry m (serial, MUXCONN_USB) = Some i" "registry m (serial, MUXCONN_WIFI) = Some j"
  proof -
    have "i div 2 = j div 2" using ok that unfolding reg_ok_def by blast
    moreover have "i mod 2 = kind_bit MUXCONN_USB" "j mod 2 = kind_bit MUXCONN_WIFI"
      using ok that unfolding reg_ok_def by blast+
    ultimately show ?thesis unfolding kind_bit_def by simp presburger
  qed
  with run reg_ok_unique [OF ok] show ?thesis by blast
qed

lemma ex_plug:
  "add_device ex_mux_env (ex_device 0 MUXCONN_USB 0 ''abc'') False (new_muxer (\<lambda>_. ex_client) False False False)
   = Some (insert_device (ex_device 0 MUXCONN_USB 2 ''abc'') (new_muxer (\<lambda>_. ex_client) False False False))"
  by (simp add: add_device_def assign_id_def id_for_device_def new_muxer_def ex_device_def fresh_id.simps Let_def)

lemma ex_plug_fresh:
  "mx_newid (new_muxer (\<lambda>_. ex_client) False False False) < MAXID"
  "dv_conntype (ex_device 0 MUXCONN_USB 0 ''abc'') = MUXCONN_USB"
  "dv_ptr (ex_device 0 MUXCONN_USB 0 ''abc'') \<notin> dv_ptr ` set (mx_devices (new_muxer (\<lambda>_. ex_client) False False False))"
  "registry (new_muxer (\<lambda>_. ex_client) False False False) (dv_serial (ex_device 0 MUXCONN_USB 0 ''abc''), MUXCONN_USB) = None"
  by (simp_all add: new_muxer_def MAXID_def ex_device_def registry_def)

lemma ex_plugged:
  "registry (insert_device (ex_device 0 MUXCONN_USB 2 ''abc'') (new_muxer (\<lambda>_. ex_client) False False False))
     (''abc'', MUXCONN_USB) = Some 2"
  by (simp add: registry_def insert_device_def new_muxer_def has_key_def ex_device_def)

lemma muxer_refines_registry_witness:
  "\<exists>m i. (mux_step ex_mux_env)\<^sup>*\<^sup>* (new_muxer (\<lambda>_. ex_client) False False False) m
    \<and> reg_step\<^sup>*\<^sup>* (\<lambda>_. None) (registry m) \<and> registry m (''abc'', MUXCONN_USB) = Some i"
proof -
  have "(mux_step ex_mux_env)\<^sup>*\<^sup>* (new_muxer (\<lambda>_. ex_client) False False False)
      (insert_device (ex_device 0 MUXCONN_USB 2 ''abc'') (new_muxer (\<lambda>_. ex_client) False False False))"
    using mux_step.Add [OF ex_plug_fresh(1) _ ex_plug_fresh(3) _ ex_plug] ex_plug_fresh(2,4)
    by (intro r_into_rtranclp) simp
  with muxer_refines_registry [OF this] ex_plugged show ?thesis by blast
qed

end
