(* ===== verification/WIFI_Manager.thy ===== *)
theory WIFI_Manager
  imports WIFI_Session Client_Commands Muxer_Registry
begin

text \<open>
  What the two managers of WIFI devices, \<^verbatim>\<open>Manager/WIFIDeviceManager-mDNS.cpp\<close> and
  \<^verbatim>\<open>Manager/WIFIDeviceManager-avahi.cpp\<close>, have in common: the devices they made, what is done with a
  service that was found, the reaper, and the calls the muxer makes on them. Devices are in a store,
  \<open>wm_devs\<close>, by their pointers; the muxer's list has the part of each that it reads.
\<close>

section \<open>State\<close>

text \<open>\<open>wm_children\<close> are the devices that exist, \<open>wm_reap\<close> is the queue of the reaper.\<close>

record wifi_base = daemon +
  wm_devs :: "nat \<Rightarrow> wifi_device"
  wm_children :: "nat set"
  wm_reap :: "nat list"
  wm_shouldRestart :: bool
  wm_isStopping :: bool

definition settings_of :: "muxer \<Rightarrow> wifi_settings" where
  "settings_of m = \<lparr>ws_allowHeartless = mx_allowHeartlessWifi m, ws_retry = mx_retryWifiSession m\<rparr>"

text \<open>Changing an object changes what the muxer reads of it.\<close>

definition put_device :: "nat \<Rightarrow> wifi_device \<Rightarrow> 'z wifi_base_scheme \<Rightarrow> 'z wifi_base_scheme" where
  "put_device p d s =
     s\<lparr>wm_devs := (wm_devs s)(p := d),
       dm_mux := (dm_mux s)\<lparr>mx_devices := map (\<lambda>e. if dv_ptr e = p \<and> dv_conntype e = MUXCONN_WIFI then wd_dev d else e)
         (mx_devices (dm_mux s))\<rparr>\<rparr>"

section \<open>Finding devices\<close>

fun contains :: "string \<Rightarrow> string \<Rightarrow> bool" where
  "contains pat [] = (pat = [])"
| "contains pat (c # cs) = (take (length pat) (c # cs) = pat \<or> contains pat cs)"

definition PAIRING_SERVICE :: string where "PAIRING_SERVICE = ''_remotepairing-manual-pairing._tcp''"

definition pairing_serial :: "string \<Rightarrow> string" where
  "pairing_serial name = ''WIFIPAIR-'' @ name"

text \<open>
  \<open>device_add\<close>: the device gets its identifier and, unless that fails, its session; \<open>None\<close> is a search
  for an identifier that does not end.
\<close>

definition wifi_device_add ::
    "'p mux_env \<Rightarrow> nat \<Rightarrow> wifi_device \<Rightarrow> bool \<Rightarrow> 'z wifi_base_scheme \<Rightarrow> 'z wifi_base_scheme option" where
  "wifi_device_add env p d notify s =
     (case assign_id (wd_dev d) (dm_mux s) of
        None \<Rightarrow> None
      | Some (dev, _) \<Rightarrow>
          let d1 = d\<lparr>wd_dev := dev\<rparr>;
              d2 = (if me_start_wifi env dev then ensureSession d1 else d1)
          in map_option (\<lambda>m. s\<lparr>wm_devs := (wm_devs s)(p := d2), wm_children := insert p (wm_children s), dm_mux := m\<rparr>)
               (add_device env (wd_dev d) notify (dm_mux s)))"

text \<open>
  What both backends do with a service: \<open>p\<close> is where a new device is allocated, \<open>macAddr\<close> what the
  service name has before its first at sign. A lookup that fails leaves the configuration's cache.
\<close>

definition wifi_found ::
    "'p mux_env \<Rightarrow> nat \<Rightarrow> string \<Rightarrow> string \<Rightarrow> string list \<Rightarrow> u32 \<Rightarrow> 'z wifi_base_scheme \<Rightarrow> 'z wifi_base_scheme option" where
  "wifi_found env p serviceName macAddr addrs interfaceIndex s =
     (if contains PAIRING_SERVICE serviceName then
        let uuid = pairing_serial (takeWhile (\<lambda>c. c \<noteq> CHR ''.'') serviceName) in
        if have_wifi_device_with_ip addrs (dm_mux s) then Some s
        else wifi_device_add env p (new_wifi_device p uuid addrs serviceName interfaceIndex) False s
      else (case sysconf_udid_for_macaddr (me_plist env) macAddr (dm_conf s) of
              (Inl e, c) \<Rightarrow> Some (s\<lparr>dm_conf := c\<rparr>)
            | (Inr uuid, c) \<Rightarrow>
                let s1 = s\<lparr>dm_conf := c\<rparr> in
                (case get_wifi_device_with_serial uuid (dm_mux s1) of
                   Some e \<Rightarrow> Some (put_device (dv_ptr e)
                     (ensureSession (setRediscoverOnDestruct True
                        (updateDiscoveryInfo addrs serviceName interfaceIndex (wm_devs s1 (dv_ptr e))))) s1)
                 | None \<Rightarrow> wifi_device_add env p (new_wifi_device p uuid addrs serviceName interfaceIndex) True
                     (s1\<lparr>dm_mux := delete_wifi_pairing_device_with_ip env addrs (dm_mux s1)\<rparr>))))"

text \<open>A service is gone: only pairing services leave this way.\<close>

definition wifi_removed :: "'p mux_env \<Rightarrow> string option \<Rightarrow> string \<Rightarrow> 'z wifi_base_scheme \<Rightarrow> 'z wifi_base_scheme" where
  "wifi_removed env type name s =
     (case type of
        None \<Rightarrow> s
      | Some ty \<Rightarrow> if contains PAIRING_SERVICE ty
          then s\<lparr>dm_mux := delete_wifi_device_with_serial env (pairing_serial name) (dm_mux s)\<rparr> else s)"

section \<open>The end of a device\<close>

definition device_kill :: "nat \<Rightarrow> 'z wifi_base_scheme \<Rightarrow> 'z wifi_base_scheme" where
  "device_kill p s = s\<lparr>wm_devs := (wm_devs s)(p := wifi_kill (wm_devs s p)), wm_reap := wm_reap s @ [p]\<rparr>"

text \<open>A step of the thread of one device; what it posts goes to the reaper.\<close>

definition device_thread_step :: "nat \<Rightarrow> rl_input \<Rightarrow> 'z wifi_base_scheme \<Rightarrow> 'z wifi_base_scheme" where
  "device_thread_step p i s =
     (let d = wm_devs s p; d' = thread_step (settings_of (dm_mux s)) i d
      in s\<lparr>wm_devs := (wm_devs s)(p := d'),
           wm_reap := wm_reap s @ (if wd_kills d' = wd_kills d then [] else [p])\<rparr>)"

text \<open>
  \<open>restart\<close> is the backend's \<open>request_restart\<close>; the three requests for a rediscovery differ in their
  messages only.
\<close>

definition request_rediscovery ::
    "('z wifi_base_scheme \<Rightarrow> 'z wifi_base_scheme) \<Rightarrow> 'z wifi_base_scheme \<Rightarrow> 'z wifi_base_scheme" where
  "request_rediscovery restart s = (if wm_isStopping s then s else restart s)"

definition wifi_deconstruct ::
    "'p mux_env \<Rightarrow> ('z wifi_base_scheme \<Rightarrow> 'z wifi_base_scheme) \<Rightarrow> rl_input list \<Rightarrow> nat
      \<Rightarrow> 'z wifi_base_scheme \<Rightarrow> 'z wifi_base_scheme" where
  "wifi_deconstruct env restart is p s =
     (let d = snd (stopSession (settings_of (dm_mux s)) is True (wm_devs s p));
          s1 = s\<lparr>wm_devs := (wm_devs s)(p := d), dm_mux := delete_device env (wd_dev d) (dm_mux s)\<rparr>
      in if wd_rediscoverOnDestruct d then request_rediscovery restart s1 else s1)"

fun reaper_runloop ::
    "'p mux_env \<Rightarrow> ('z wifi_base_scheme \<Rightarrow> 'z wifi_base_scheme) \<Rightarrow> rl_input list list
      \<Rightarrow> 'z wifi_base_scheme \<Rightarrow> 'z wifi_base_scheme" where
  "reaper_runloop env restart [] s = s"
| "reaper_runloop env restart (is # iss) s =
     (case wm_reap s of
        [] \<Rightarrow> s
      | p # ps \<Rightarrow> reaper_runloop env restart iss (wifi_deconstruct env restart is p (s\<lparr>wm_reap := ps\<rparr>)))"

text \<open>The destructor of \<open>WIFIDevice\<close>, which runs when nothing refers to the device any more.\<close>

definition wifi_destroy :: "rl_input list \<Rightarrow> nat \<Rightarrow> 'z wifi_base_scheme \<Rightarrow> 'z wifi_base_scheme" where
  "wifi_destroy is p s =
     (let d = snd (stopSession (settings_of (dm_mux s)) is True (wm_devs s p))
      in s\<lparr>wm_devs := (wm_devs s)(p := d\<lparr>wd_alive := False\<rparr>), wm_children := wm_children s - {p}\<rparr>)"

section \<open>Calls of the muxer\<close>

text \<open>The calls the muxer records in \<open>mx_calls\<close> are made on the manager and its devices.\<close>

fun wifi_call ::
    "('z wifi_base_scheme \<Rightarrow> 'z wifi_base_scheme) \<Rightarrow> manager_call \<Rightarrow> 'z wifi_base_scheme \<Rightarrow> 'z wifi_base_scheme" where
  "wifi_call restart Manual_refresh s = request_rediscovery restart s"
| "wifi_call restart (Rediscovery_after_pairing udid) s = request_rediscovery restart s"
| "wifi_call restart (Session_reconnect p) s =
     s\<lparr>wm_devs := (wm_devs s)(p := requestSessionReconnectNow (wm_devs s p))\<rparr>"
| "wifi_call restart (No_rediscover p) s =
     s\<lparr>wm_devs := (wm_devs s)(p := setRediscoverOnDestruct False (wm_devs s p))\<rparr>"
| "wifi_call restart (Kill_device p) s = device_kill p s"
| "wifi_call restart (Kill_client p) s = s"

definition make_calls ::
    "('z wifi_base_scheme \<Rightarrow> 'z wifi_base_scheme) \<Rightarrow> 'z wifi_base_scheme \<Rightarrow> 'z wifi_base_scheme" where
  "make_calls restart s =
     fold (wifi_call restart) (mx_calls (dm_mux s)) (s\<lparr>dm_mux := (dm_mux s)\<lparr>mx_calls := []\<rparr>\<rparr>)"

section \<open>What finding a service keeps\<close>

text \<open>The muxer's list has what the objects say.\<close>

definition store_ok :: "'z wifi_base_scheme \<Rightarrow> bool" where
  "store_ok s \<longleftrightarrow> (\<forall>d \<in> set (mx_devices (dm_mux s)). dv_conntype d = MUXCONN_WIFI
     \<longrightarrow> wd_dev (wm_devs s (dv_ptr d)) = d)"

definition found_ok :: "'z wifi_base_scheme \<Rightarrow> bool" where
  "found_ok s \<longleftrightarrow> ids_ok (dm_mux s) \<and> store_ok s"

lemma found_ok_subset:
  assumes "found_ok s" and "set (mx_devices m) \<subseteq> set (mx_devices (dm_mux s))" and "mx_newid m = mx_newid (dm_mux s)"
  shows "found_ok (s\<lparr>dm_mux := m\<rparr>)"
  using assms ids_ok_subset [of "dm_mux s" m] by (auto simp: found_ok_def store_ok_def)

lemma found_ok_conf [simp]: "found_ok (s\<lparr>dm_conf := c\<rparr>) = found_ok s"
  by (simp add: found_ok_def store_ok_def)

lemma put_device_ok:
  assumes "found_ok s" and "same_identity (wd_dev d) (wd_dev (wm_devs s p))" and "dv_ptr (wd_dev d) = p"
    and "dv_conntype (wd_dev d) = MUXCONN_WIFI"
  shows "found_ok (put_device p d s)"
proof -
  let ?f = "\<lambda>e. if dv_ptr e = p \<and> dv_conntype e = MUXCONN_WIFI then wd_dev d else e"
  have st: "wd_dev (wm_devs s (dv_ptr e)) = e"
    if "e \<in> set (mx_devices (dm_mux s))" "dv_conntype e = MUXCONN_WIFI" for e
    using that assms(1) by (auto simp: found_ok_def store_ok_def)
  have "same_identity (?f e) e" if "e \<in> set (mx_devices (dm_mux s))" for e
    using that assms(2) st [OF that] by (auto simp: same_identity_def)
  then have "ids_ok ((dm_mux s)\<lparr>mx_devices := map ?f (mx_devices (dm_mux s))\<rparr>)"
    using assms(1) by (intro ids_ok_map) (auto simp: found_ok_def)
  moreover have "store_ok (put_device p d s)"
    using st assms(3,4) by (auto simp: store_ok_def put_device_def)
  ultimately show ?thesis by (simp add: found_ok_def put_device_def)
qed

lemma ensureSession_dev [simp]: "wd_dev (ensureSession d) = wd_dev d"
  by (simp add: ensureSession_def)

lemma wifi_device_add_ok:
  assumes "found_ok s" and "mx_newid (dm_mux s) < MAXID" and "dv_conntype (wd_dev d) = MUXCONN_WIFI"
    and "dv_ptr (wd_dev d) = p" and "get_wifi_device_with_serial (dv_serial (wd_dev d)) (dm_mux s) = None"
  shows "\<exists>s'. wifi_device_add env p d n s = Some s' \<and> found_ok s'"
proof -
  have fresh: "\<forall>e \<in> set (mx_devices (dm_mux s)). \<not> (dv_serial e = dv_serial (wd_dev d) \<and> dv_conntype e = dv_conntype (wd_dev d))"
    using assms(3,5) by (auto simp: get_wifi_device_with_serial_def find_None_iff)
  from assign_id_new [OF _ assms(2) _ fresh] assms(1,3) obtain dev' m1 where
    new: "assign_id (wd_dev d) (dm_mux s) = Some (dev', m1)" "ids_ok (insert_device dev' m1)"
      "mx_devices m1 = mx_devices (dm_mux s)" by (auto simp: found_ok_def)
  obtain m' where run: "add_device env (wd_dev d) n (dm_mux s) = Some m'" "mx_newid m' = mx_newid m1"
      "set (mx_devices m') \<subseteq> set (mx_devices (insert_device dev' m1))"
    using add_device_run [OF new(1)] by blast
  have dev: "dev' = (wd_dev d)\<lparr>dv_id := dv_id dev'\<rparr>" by (rule assign_id_dev(1) [OF new(1)])
  then have ptr: "dv_ptr dev' = p" using assms(4) by (metis device.select_convs(1) device.surjective device.update_convs(3))
  have "ids_ok m'" by (rule ids_ok_subset [OF new(2) run(3)]) (simp add: run(2) insert_device_def)
  moreover have "store_ok (s\<lparr>wm_devs := (wm_devs s)(p := d2), wm_children := insert p (wm_children s), dm_mux := m'\<rparr>)"
    if d2: "wd_dev d2 = dev'" for d2
  proof -
    have "wd_dev (((wm_devs s)(p := d2)) (dv_ptr e)) = e"
      if e: "e \<in> set (mx_devices m')" "dv_conntype e = MUXCONN_WIFI" for e
    proof (cases "e = dev'")
      case False
      with e(1) run(3) ptr have "e \<in> set (mx_devices (dm_mux s))" "dv_ptr e \<noteq> p"
        by (auto simp: insert_device_set new(3))
      with e(2) assms(1) show ?thesis by (simp add: found_ok_def store_ok_def)
    qed (use d2 ptr in simp)
    then show ?thesis by (simp add: store_ok_def)
  qed
  ultimately show ?thesis
    using new(1) run(1) by (auto simp: wifi_device_add_def Let_def found_ok_def)
qed

lemma found_total:
  assumes "found_ok s" and "mx_newid (dm_mux s) < MAXID"
    and "\<And>u c. sysconf_udid_for_macaddr (me_plist env) macAddr (dm_conf s) = (Inr u, c) \<Longrightarrow> length u \<le> 256"
    and "contains PAIRING_SERVICE serviceName \<Longrightarrow> get_wifi_device_with_serial
        (take 256 (pairing_serial (takeWhile (\<lambda>c. c \<noteq> CHR ''.'') serviceName))) (dm_mux s) = None"
  shows "\<exists>s'. wifi_found env p serviceName macAddr addrs interfaceIndex s = Some s' \<and> found_ok s'"
proof (cases "contains PAIRING_SERVICE serviceName")
  case True
  let ?uuid = "pairing_serial (takeWhile (\<lambda>c. c \<noteq> CHR ''.'') serviceName)"
  have "\<exists>s'. wifi_device_add env p (new_wifi_device p ?uuid addrs serviceName interfaceIndex) False s = Some s' \<and> found_ok s'"
    using assms(1,2,4) True by (intro wifi_device_add_ok) (simp_all add: new_wifi_device_def)
  with True assms(1) show ?thesis by (simp add: wifi_found_def Let_def)
next
  case pairing: False
  obtain r c where udid: "sysconf_udid_for_macaddr (me_plist env) macAddr (dm_conf s) = (r, c)" by fastforce
  show ?thesis
  proof (cases r)
    case (Inl e)
    with pairing udid assms(1) show ?thesis by (simp add: wifi_found_def)
  next
    case (Inr u)
    let ?s = "s\<lparr>dm_conf := c\<rparr>"
    have ok: "found_ok ?s" using assms(1) by simp
    show ?thesis
    proof (cases "get_wifi_device_with_serial u (dm_mux ?s)")
      case (Some e)
      then have e: "e \<in> set (mx_devices (dm_mux s))" "dv_conntype e = MUXCONN_WIFI"
        using find_at [of _ "mx_devices (dm_mux s)" e] by (auto simp: get_wifi_device_with_serial_def)
      then have "wd_dev (wm_devs s (dv_ptr e)) = e" using assms(1) by (simp add: found_ok_def store_ok_def)
      with e have "found_ok (put_device (dv_ptr e) (ensureSession (setRediscoverOnDestruct True
          (updateDiscoveryInfo addrs serviceName interfaceIndex (wm_devs ?s (dv_ptr e))))) ?s)"
        by (intro put_device_ok [OF ok])
          (simp_all add: same_identity_def setRediscoverOnDestruct_def updateDiscoveryInfo_def Let_def)
      with pairing udid Inr Some show ?thesis by (simp add: wifi_found_def Let_def)
    next
      case None
      let ?m = "delete_wifi_pairing_device_with_ip env addrs (dm_mux ?s)"
      have sub: "set (mx_devices ?m) \<subseteq> set (mx_devices (dm_mux ?s))" "mx_newid ?m = mx_newid (dm_mux ?s)"
        unfolding delete_wifi_pairing_device_with_ip_def by (rule delete_first_sets)+
      have "take 256 u = u" using assms(3) [of u c] udid Inr by simp
      moreover have "get_wifi_device_with_serial u ?m = None"
        using None sub(1) by (auto simp: get_wifi_device_with_serial_def find_None_iff)
      ultimately have "\<exists>s'. wifi_device_add env p (new_wifi_device p u addrs serviceName interfaceIndex) True
          (?s\<lparr>dm_mux := ?m\<rparr>) = Some s' \<and> found_ok s'"
        using found_ok_subset [OF ok sub] sub(2) assms(2)
        by (intro wifi_device_add_ok) (simp_all add: new_wifi_device_def)
      with pairing udid Inr None show ?thesis by (simp add: wifi_found_def Let_def)
    qed
  qed
qed

text \<open>
  Discovery keeps identifiers in order. What a service found does to the devices comes to an end and
  leaves every identifier in place, with one device per serial and kind of connection and with the
  muxer's view of the devices up to date: a known device is updated instead of added again. For a
  pairing service this needs that no device has its serial yet; the code only looks at addresses there.
\<close>

theorem discovery_keeps_ids:
  assumes "found_ok s" and "mx_newid (dm_mux s) < MAXID"
    and "\<And>u c. sysconf_udid_for_macaddr (me_plist env) macAddr (dm_conf s) = (Inr u, c) \<Longrightarrow> length u \<le> 256"
    and "contains PAIRING_SERVICE serviceName \<Longrightarrow> get_wifi_device_with_serial
        (take 256 (pairing_serial (takeWhile (\<lambda>c. c \<noteq> CHR ''.'') serviceName))) (dm_mux s) = None"
  shows "\<exists>s'. wifi_found env p serviceName macAddr addrs interfaceIndex s = Some s' \<and> found_ok s'"
  using assms by (rule found_total)

section \<open>The end of a device\<close>

lemma cleanup_calls:
  assumes "get_wifi_device_with_serial serial (dm_mux s) = Some d" and "mx_calls (dm_mux s) = []"
  shows "make_calls restart (s\<lparr>dm_mux := cleanup_wifi_device_after_unpair serial (dm_mux s)\<rparr>)
    = device_kill (dv_ptr d) (s\<lparr>wm_devs := (wm_devs s)(dv_ptr d := setRediscoverOnDestruct False (wm_devs s (dv_ptr d)))\<rparr>)"
proof -
  have m: "(dm_mux s)\<lparr>mx_calls := []\<rparr> = dm_mux s" using assms(2) by (cases "dm_mux s") simp
  have "s\<lparr>dm_mux := (dm_mux s)\<lparr>mx_calls := []\<rparr>\<rparr> = s" unfolding m by simp
  moreover have "make_calls restart (s\<lparr>dm_mux := cleanup_wifi_device_after_unpair serial (dm_mux s)\<rparr>)
      = fold (wifi_call restart) [No_rediscover (dv_ptr d), Kill_device (dv_ptr d)] (s\<lparr>dm_mux := (dm_mux s)\<lparr>mx_calls := []\<rparr>\<rparr>)"
    using assms by (simp add: make_calls_def cleanup_wifi_device_after_unpair_def call_def)
  ultimately show ?thesis by simp
qed

lemma wifi_deconstruct_run:
  assumes "store_ok s" and "d \<in> set (mx_devices (dm_mux s))" and "dv_conntype d = MUXCONN_WIFI"
  shows "wifi_deconstruct env restart is (dv_ptr d) s =
    (let s1 = s\<lparr>wm_devs := (wm_devs s)(dv_ptr d := (wm_devs s (dv_ptr d))\<lparr>wd_session := None\<rparr>),
              dm_mux := delete_device env d (dm_mux s)\<rparr>
     in if wd_rediscoverOnDestruct (wm_devs s (dv_ptr d)) then request_rediscovery restart s1 else s1)"
  using assms by (simp add: wifi_deconstruct_def store_ok_def Let_def)


text \<open>
  A device that is lost, on the contrary, is looked for again, unless the daemon stops.
\<close>

lemma lost_device_rediscovered:
  assumes "store_ok s" and "d \<in> set (mx_devices (dm_mux s))" and "dv_conntype d = MUXCONN_WIFI"
    and "wd_rediscoverOnDestruct (wm_devs s (dv_ptr d))" and "\<not> wm_isStopping s"
  shows "\<exists>s1. wifi_deconstruct env restart is (dv_ptr d) s = restart s1
    \<and> mx_devices (dm_mux s1) = filter (\<lambda>e. dv_ptr e \<noteq> dv_ptr d) (mx_devices (dm_mux s))"
proof -
  let ?s = "s\<lparr>wm_devs := (wm_devs s)(dv_ptr d := (wm_devs s (dv_ptr d))\<lparr>wd_session := None\<rparr>),
      dm_mux := delete_device env d (dm_mux s)\<rparr>"
  have "wifi_deconstruct env restart is (dv_ptr d) s = restart ?s"
    using assms(4,5) by (simp add: wifi_deconstruct_run [OF assms(1-3)] request_rediscovery_def Let_def)
  then show ?thesis
    by (intro exI [of _ ?s] conjI) (simp_all add: delete_device_def notify_device_remove_def erase_device_def)
qed

section \<open>Concrete runs\<close>

definition ex_wifi :: wifi_base where
  "ex_wifi = \<lparr>dm_mux = ex_muxer, dm_conf = ex_conf\<lparr>sc_macs := [(''aa:bb'', ''abc'')]\<rparr>,
     wm_devs = (\<lambda>p. ex_wifi_device), wm_children = {}, wm_reap = [], wm_shouldRestart = False, wm_isStopping = False\<rparr>"

definition ex_wifi_known :: wifi_base where
  "ex_wifi_known = ex_wifi\<lparr>dm_mux := ex_muxer\<lparr>mx_devices := [ex_device 0 MUXCONN_USB 2 ''abc'', ex_device 7 MUXCONN_WIFI 3 ''abc'']\<rparr>,
     wm_devs := (\<lambda>p. ex_wifi_device\<lparr>wd_dev := ex_device 7 MUXCONN_WIFI 3 ''abc''\<rparr>)\<rparr>"

lemma ex_wifi_ok: "found_ok ex_wifi"
  using ex_muxer_ok by (simp add: found_ok_def store_ok_def ex_wifi_def) (simp add: ex_muxer_def ex_device_def)

lemma discovery_keeps_ids_witness:
  "\<exists>s'. wifi_found ex_mux_env 7 ''aa:bb@fe80::1._apple-mobdev2._tcp'' ''aa:bb'' [''10.0.0.9''] 3 ex_wifi = Some s' \<and> found_ok s'"
proof (rule discovery_keeps_ids [OF ex_wifi_ok])
  show "mx_newid (dm_mux ex_wifi) < MAXID"
    by (simp add: ex_wifi_def ex_muxer_def new_muxer_def MAXID_def)
  show "length u \<le> 256" if "sysconf_udid_for_macaddr (me_plist ex_mux_env) ''aa:bb'' (dm_conf ex_wifi) = (Inr u, c)" for u c
    using that by (auto simp: sysconf_udid_for_macaddr_def ex_wifi_def ex_conf_def thenE_def)
qed (simp add: PAIRING_SERVICE_def)


end
