(* ===== verification/WIFI_Backend.thy ===== *)
theory WIFI_Backend
  imports WIFI_Manager
begin

text \<open>
  The interface between a discovery and the state it works on: a handler of events that, where an event is
  admissible, comes to an end and keeps the devices and their identifiers in order. The two backends are
  interpretations; what a whole run of events keeps is proved here once.
\<close>

fun run_events :: "('e \<Rightarrow> 's \<Rightarrow> 's option) \<Rightarrow> 'e list \<Rightarrow> 's \<Rightarrow> 's option" where
  "run_events handle [] s = Some s"
| "run_events handle (e # es) s = (case handle e s of None \<Rightarrow> None | Some s' \<Rightarrow> run_events handle es s')"

text \<open>Every event of the run is admissible where it happens.\<close>

fun admissible_run :: "('e \<Rightarrow> 's \<Rightarrow> 's option) \<Rightarrow> ('e \<Rightarrow> 's \<Rightarrow> bool) \<Rightarrow> 'e list \<Rightarrow> 's \<Rightarrow> bool" where
  "admissible_run handle adm [] s = True"
| "admissible_run handle adm (e # es) s =
     (adm e s \<and> (case handle e s of None \<Rightarrow> True | Some s' \<Rightarrow> admissible_run handle adm es s'))"

locale wifi_backend =
  fixes handle :: "'e \<Rightarrow> 's \<Rightarrow> 's option" and devices_ok :: "'s \<Rightarrow> bool" and adm :: "'e \<Rightarrow> 's \<Rightarrow> bool"
  assumes handled: "devices_ok s \<Longrightarrow> adm e s \<Longrightarrow> \<exists>s'. handle e s = Some s' \<and> devices_ok s'"
begin

lemma run_handled:
  "devices_ok s \<Longrightarrow> admissible_run handle adm es s \<Longrightarrow> \<exists>s'. run_events handle es s = Some s' \<and> devices_ok s'"
proof (induction es arbitrary: s)
  case (Cons e es)
  then obtain s1 where s1: "handle e s = Some s1" "devices_ok s1" using handled [of s e] by auto
  with Cons.IH [OF s1(2)] Cons.prems(2) show ?case by auto
qed simp

lemma prefix_handled:
  assumes "devices_ok s" and "admissible_run handle adm (es @ es') s"
  shows "\<exists>s1. run_events handle es s = Some s1 \<and> devices_ok s1"
proof -
  have "admissible_run handle adm es s" using assms(2)
    by (induction es arbitrary: s) (auto split: option.splits)
  with assms(1) show ?thesis by (rule run_handled)
qed

end

section \<open>What a discovery keeps\<close>

text \<open>
  What is expected of an event: there is room for another identifier, the serials in the configuration fit
  into a device, and a pairing service that is new has a new serial.
\<close>

definition found_adm :: "'p mux_env \<Rightarrow> string \<Rightarrow> string \<Rightarrow> 'z wifi_base_scheme \<Rightarrow> bool" where
  "found_adm env serviceName macAddr s \<longleftrightarrow> mx_newid (dm_mux s) < MAXID
     \<and> (case sysconf_udid_for_macaddr (me_plist env) macAddr (dm_conf s) of
          (Inl e, c) \<Rightarrow> True | (Inr u, c) \<Rightarrow> length u \<le> 256)
     \<and> (contains PAIRING_SERVICE serviceName \<longrightarrow> get_wifi_device_with_serial
          (take 256 (pairing_serial (takeWhile (\<lambda>c. c \<noteq> CHR ''.'') serviceName))) (dm_mux s) = None)"

lemma wifi_found_ok:
  assumes "found_ok s" and "found_adm env serviceName macAddr s"
  shows "\<exists>s'. wifi_found env p serviceName macAddr addrs interfaceIndex s = Some s' \<and> found_ok s'"
  using assms by (intro found_total) (auto simp: found_adm_def)

lemma wifi_removed_ok: "found_ok s \<Longrightarrow> found_ok (wifi_removed env ty name s)"
  using found_ok_subset [of s "delete_wifi_device_with_serial env (pairing_serial name) (dm_mux s)"]
    delete_first_sets(1,2) [of env "\<lambda>d. dv_conntype d = MUXCONN_WIFI \<and> dv_serial d = pairing_serial name" "dm_mux s"]
  by (auto simp: wifi_removed_def delete_wifi_device_with_serial_def split: option.split)

end
