(* ===== verification/MDNS_Manager.thy ===== *)
theory MDNS_Manager
  imports WIFI_Backend TCP_Conn
begin

text \<open>
  The manager of WIFI devices over Bonjour, \<^verbatim>\<open>Manager/WIFIDeviceManager-mDNS.cpp\<close>: the three callbacks of a
  discovery, the connections to the mDNS daemon they open and give back, the loop over \<open>poll\<close>, restarts.
  The daemon's library is a parameter: connections are numbers, 0 is the null pointer, and \<open>sockfd\<close>,
  the results of its calls and the callbacks a connection makes are inputs.
\<close>

section \<open>State\<close>

text \<open>
  \<open>md_wakes\<close> is what is in the wake-up pipe, \<open>md_freed\<close> the connections that were given back, in order.
\<close>

record mdns_manager = wifi_base +
  md_client :: nat
  md_clientPairing :: nat
  md_dns_sd_fd :: int
  md_dns_sd_pairing_fd :: int
  md_wake_in :: int
  md_wake_out :: int
  md_resolveClients :: "nat list"
  md_removeClients :: "nat list"
  md_pfds :: "int list"
  md_linkedClients :: "nat \<Rightarrow> nat option"
  md_clientAddrs :: "nat \<Rightarrow> string list option"
  md_wakes :: string
  md_freed :: "nat list"

definition kDNSServiceFlagsMoreComing :: u32 where "kDNSServiceFlagsMoreComing = 1"
definition kDNSServiceFlagsAdd :: u32 where "kDNSServiceFlagsAdd = 2"
definition POLLERR :: u16 where "POLLERR = 8"
definition POLLNVAL :: u16 where "POLLNVAL = 32"

section \<open>Restarts and the set of descriptors\<close>

definition mdns_request_restart :: "mdns_manager \<Rightarrow> mdns_manager" where
  "mdns_request_restart s =
     (let s1 = s\<lparr>wm_shouldRestart := True\<rparr> in
      if md_wake_out s1 \<ge> 0 then s1\<lparr>md_wakes := md_wakes s1 @ ''r''\<rparr> else s1)"

definition mdns_stopAction :: "mdns_manager \<Rightarrow> mdns_manager" where
  "mdns_stopAction s =
     (let s1 = s\<lparr>wm_isStopping := True\<rparr> in
      if md_wake_out s1 \<ge> 0 then s1\<lparr>md_wakes := md_wakes s1 @ ''q''\<rparr> else s1)"

definition rebuild_pollfds :: "(nat \<Rightarrow> int) \<Rightarrow> mdns_manager \<Rightarrow> mdns_manager" where
  "rebuild_pollfds sockfd s =
     s\<lparr>md_pfds := filter (\<lambda>fd. fd \<ge> 0) [md_dns_sd_fd s, md_dns_sd_pairing_fd s, md_wake_in s]
         @ filter (\<lambda>fd. fd \<noteq> -1) (map sockfd (md_resolveClients s)),
       md_removeClients := md_removeClients s @ filter (\<lambda>c. sockfd c = -1) (md_resolveClients s)\<rparr>"

definition cleanup_mdns :: "mdns_manager \<Rightarrow> mdns_manager" where
  "cleanup_mdns s =
     s\<lparr>md_pfds := [], md_linkedClients := (\<lambda>_. None), md_clientAddrs := (\<lambda>_. None), md_removeClients := [],
       md_freed := md_freed s @ filter (\<lambda>c. c \<noteq> 0) (md_resolveClients s @ [md_client s, md_clientPairing s]),
       md_resolveClients := [], md_client := 0, md_clientPairing := 0, md_dns_sd_fd := -1,
       md_dns_sd_pairing_fd := -1, md_wake_in := -1, md_wake_out := -1, md_wakes := []\<rparr>"

text \<open>
  What the two calls of \<open>DNSServiceBrowse\<close> return, an error code and a connection, and what \<open>pipe\<close> does.
\<close>

record mdns_init =
  mi_browse :: "int \<times> nat"
  mi_browse_pairing :: "int \<times> nat"
  mi_pipe :: "(int \<times> int) option"

definition init_mdns :: "(nat \<Rightarrow> int) \<Rightarrow> mdns_init \<Rightarrow> (mdns_manager, unit) act" where
  "init_mdns sockfd i =
     thenE (modE (\<lambda>s. if md_client s \<noteq> 0 \<or> md_clientPairing s \<noteq> 0 \<or> md_wake_in s \<ge> 0 \<or> md_wake_out s \<ge> 0
                      then cleanup_mdns s else s)) (\<lambda>_.
     thenE (assureE (fst (mi_browse i) = 0) Assure_failed) (\<lambda>_.
     thenE (modE (\<lambda>s. s\<lparr>md_client := snd (mi_browse i)\<rparr>)) (\<lambda>_.
     thenE (assureE (fst (mi_browse_pairing i) = 0) Assure_failed) (\<lambda>_.
     thenE (modE (\<lambda>s. s\<lparr>md_clientPairing := snd (mi_browse_pairing i)\<rparr>)) (\<lambda>_.
     thenE (modE (\<lambda>s. s\<lparr>md_dns_sd_fd := sockfd (md_client s)\<rparr>)) (\<lambda>_.
     thenE (assureE (sockfd (snd (mi_browse i)) > 0) Assure_failed) (\<lambda>_.
     thenE (modE (\<lambda>s. s\<lparr>md_dns_sd_pairing_fd := sockfd (md_clientPairing s)\<rparr>)) (\<lambda>_.
     thenE (assureE (sockfd (snd (mi_browse_pairing i)) > 0) Assure_failed) (\<lambda>_.
       case mi_pipe i of
         None \<Rightarrow> throwE Assure_failed
       | Some (rd, wr) \<Rightarrow> modE (\<lambda>s. rebuild_pollfds sockfd
           (s\<lparr>md_wake_in := rd, md_wake_out := wr, wm_shouldRestart := False\<rparr>)))))))))))"

section \<open>The callbacks of a discovery\<close>

definition browse_reply ::
    "'p mux_env \<Rightarrow> (nat \<Rightarrow> int) \<Rightarrow> u32 \<Rightarrow> int \<Rightarrow> string \<Rightarrow> string option \<Rightarrow> nat \<Rightarrow> mdns_manager \<Rightarrow> mdns_manager" where
  "browse_reply env sockfd flags errorCode replyName replyType resolvClient s =
     (if errorCode \<noteq> 0 then mdns_request_restart s
      else if flags AND kDNSServiceFlagsAdd = 0 then wifi_removed env replyType replyName s
      else if resolvClient \<noteq> 0
      then rebuild_pollfds sockfd (s\<lparr>md_resolveClients := md_resolveClients s @ [resolvClient]\<rparr>)
      else s)"

text \<open>\<open>got\<close> is what \<open>DNSServiceGetAddrInfo\<close> returns, an error code and a connection.\<close>

definition resolve_reply ::
    "(nat \<Rightarrow> int) \<Rightarrow> nat \<Rightarrow> int \<Rightarrow> string \<Rightarrow> int \<times> nat \<Rightarrow> mdns_manager \<Rightarrow> mdns_manager" where
  "resolve_reply sockfd sdRef errorCode fullname got s =
     (if errorCode \<noteq> 0 then mdns_request_restart s
      else if fst got \<noteq> 0 \<or> \<not> sockfd (snd got) > 0 then s
      else rebuild_pollfds sockfd
        (s\<lparr>md_clientAddrs := (md_clientAddrs s)(snd got \<mapsto> [fullname]),
           md_resolveClients := md_resolveClients s @ [snd got],
           md_linkedClients := (md_linkedClients s)(snd got \<mapsto> sdRef)\<rparr>))"

text \<open>What follows the label \<open>error\<close>, on every path.\<close>

definition getaddr_done :: "u32 \<Rightarrow> nat \<Rightarrow> mdns_manager \<Rightarrow> mdns_manager" where
  "getaddr_done flags sdRef s =
     (if flags AND kDNSServiceFlagsMoreComing = 0
      then let sdResolv = (case md_linkedClients s sdRef of None \<Rightarrow> 0 | Some r \<Rightarrow> r) in
        s\<lparr>md_clientAddrs := (md_clientAddrs s)(sdRef := None),
          md_linkedClients := (md_linkedClients s)(sdRef := None),
          md_removeClients := md_removeClients s @ [sdRef, sdResolv]\<rparr>
      else s)"

text \<open>\<open>address\<close> is what \<open>inet_ntop\<close> makes of the address, \<open>None\<close> a null pointer.\<close>

definition getaddr_reply ::
    "'p mux_env \<Rightarrow> nat \<Rightarrow> nat \<Rightarrow> u32 \<Rightarrow> u32 \<Rightarrow> int \<Rightarrow> string option \<Rightarrow> mdns_manager \<Rightarrow> mdns_manager option" where
  "getaddr_reply env p sdRef flags interfaceIndex errorCode address s =
     (if errorCode \<noteq> 0 then Some (getaddr_done flags sdRef (mdns_request_restart s))
      else (case address of
              None \<Rightarrow> Some (getaddr_done flags sdRef (mdns_request_restart s))
            | Some ipaddr \<Rightarrow>
                let addrs = (case md_clientAddrs s sdRef of None \<Rightarrow> [] | Some as \<Rightarrow> as) @ [ipaddr] in
                if flags AND kDNSServiceFlagsMoreComing \<noteq> 0
                then Some (getaddr_done flags sdRef (s\<lparr>md_clientAddrs := (md_clientAddrs s)(sdRef \<mapsto> addrs)\<rparr>))
                else let serviceName = hd addrs in
                  map_option (getaddr_done flags sdRef)
                    (wifi_found env p serviceName (takeWhile (\<lambda>c. c \<noteq> CHR ''@'') serviceName) (tl addrs) interfaceIndex
                      (s\<lparr>md_clientAddrs := (md_clientAddrs s)(sdRef \<mapsto> tl addrs)\<rparr>))))"

text \<open>A callback with the values the library passes to it and what the library calls it makes return.\<close>

datatype dns_event =
    Browsed u32 int string "string option" nat
  | Resolved nat int string "int \<times> nat"
  | Addressed nat nat u32 u32 int "string option"

fun dns_callback :: "'p mux_env \<Rightarrow> (nat \<Rightarrow> int) \<Rightarrow> dns_event \<Rightarrow> mdns_manager \<Rightarrow> mdns_manager option" where
  "dns_callback env sockfd (Browsed flags err name ty c) s = Some (browse_reply env sockfd flags err name ty c s)"
| "dns_callback env sockfd (Resolved sdRef err fullname got) s = Some (resolve_reply sockfd sdRef err fullname got s)"
| "dns_callback env sockfd (Addressed p sdRef flags idx err address) s = getaddr_reply env p sdRef flags idx err address s"

section \<open>Giving connections back\<close>

text \<open>
  \<open>std::remove\<close> on a vector of pointers: the elements that stay move to the front, the ones from the
  returned position on keep what they were.
\<close>

definition std_remove :: "'a \<Rightarrow> 'a list \<Rightarrow> nat \<times> 'a list" where
  "std_remove x xs = (let kept = filter (\<lambda>y. y \<noteq> x) xs in (length kept, kept @ drop (length kept) xs))"

definition reap_client :: "nat \<Rightarrow> nat list \<times> nat list \<Rightarrow> nat list \<times> nat list" where
  "reap_client rc rf =
     (case rf of (resolve, freed) \<Rightarrow>
       case std_remove rc resolve of (target, moved) \<Rightarrow>
         if target \<noteq> length resolve then (take target moved, freed @ [moved ! target]) else (moved, freed))"

definition reap_clients :: "(nat \<Rightarrow> int) \<Rightarrow> mdns_manager \<Rightarrow> mdns_manager" where
  "reap_clients sockfd s =
     (case fold reap_client (md_removeClients s) (md_resolveClients s, md_freed s) of
        (resolve, freed) \<Rightarrow> rebuild_pollfds sockfd
          (s\<lparr>md_resolveClients := resolve, md_freed := freed, md_removeClients := []\<rparr>))"

section \<open>The loop\<close>

text \<open>
  A read from the wake-up pipe, which is in blocking mode: an empty pipe whose other end is open makes the
  caller wait, \<open>None\<close>.
\<close>

definition pipe_read :: "nat \<Rightarrow> string \<Rightarrow> (nat \<times> string) option" where
  "pipe_read n q = (if q = [] then None else Some (min n (length q), drop n q))"

partial_function (option) drain_wake :: "string \<Rightarrow> string option" where
  "drain_wake q =
     (case pipe_read 32 q of
        None \<Rightarrow> None
      | Some (n, q') \<Rightarrow> if n > 0 then drain_wake q' else Some q')"

text \<open>\<open>results\<close> is what \<open>DNSServiceProcessResult\<close> does for a connection: its callbacks, and its error code.\<close>

definition process_result ::
    "'p mux_env \<Rightarrow> (nat \<Rightarrow> int) \<Rightarrow> (nat \<Rightarrow> dns_event list \<times> int) \<Rightarrow> int \<Rightarrow> mdns_manager \<Rightarrow> (int \<times> mdns_manager) option" where
  "process_result env sockfd results fd s =
     (let found = (if md_client s \<noteq> 0 \<and> fd = sockfd (md_client s) then Some (md_client s)
                   else if md_clientPairing s \<noteq> 0 \<and> fd = sockfd (md_clientPairing s) then Some (md_clientPairing s)
                   else find (\<lambda>rc. sockfd rc = fd) (md_resolveClients s))
      in case found of
           None \<Rightarrow> Some (0, s)
         | Some c \<Rightarrow> map_option (\<lambda>s'. (snd (results c), s'))
             (run_events (dns_callback env sockfd) (fst (results c)) s))"

definition serve_fd ::
    "'p mux_env \<Rightarrow> (nat \<Rightarrow> int) \<Rightarrow> (nat \<Rightarrow> dns_event list \<times> int) \<Rightarrow> int \<times> u16 \<Rightarrow> bool \<times> mdns_manager
      \<Rightarrow> (bool \<times> mdns_manager) option" where
  "serve_fd env sockfd results pfd st =
     (case pfd of (fd, revents) \<Rightarrow> case st of (restart, s) \<Rightarrow>
       if fd = md_wake_in s \<and> revents AND (POLLIN OR POLLHUP OR POLLERR OR POLLNVAL) \<noteq> 0
       then map_option (\<lambda>q. (wm_shouldRestart s, s\<lparr>md_wakes := q\<rparr>)) (drain_wake (md_wakes s))
       else if revents AND (POLLERR OR POLLHUP OR POLLNVAL) \<noteq> 0 then Some (True, mdns_request_restart s)
       else if revents AND POLLIN \<noteq> 0
       then map_option (\<lambda>(err, s'). if err \<noteq> 0 then (True, mdns_request_restart s') else (restart, s'))
         (process_result env sockfd results fd s)
       else Some (restart, s))"

fun serve_fds ::
    "'p mux_env \<Rightarrow> (nat \<Rightarrow> int) \<Rightarrow> (nat \<Rightarrow> dns_event list \<times> int) \<Rightarrow> (int \<times> u16) list \<Rightarrow> bool \<times> mdns_manager
      \<Rightarrow> (bool \<times> mdns_manager) option" where
  "serve_fds env sockfd results [] st = Some st"
| "serve_fds env sockfd results (pfd # pfds) st =
     (case serve_fd env sockfd results pfd st of None \<Rightarrow> None | Some st' \<Rightarrow> serve_fds env sockfd results pfds st')"

text \<open>
  One turn of the loop in \<open>loopEvent\<close> and whether it ends it. The connections to be removed are given back
  when the block after \<open>poll\<close> is left, by whatever path. A turn that does not come to an end is \<open>None\<close>.
\<close>

record mdns_turn =
  mt_init :: mdns_init
  mt_poll :: int
  mt_revents :: "u16 list"
  mt_results :: "nat \<Rightarrow> dns_event list \<times> int"

definition mdns_poll :: "'p mux_env \<Rightarrow> (nat \<Rightarrow> int) \<Rightarrow> mdns_turn \<Rightarrow> mdns_manager \<Rightarrow> (bool \<times> mdns_manager) option" where
  "mdns_poll env sockfd i s =
     (if mt_poll i > 0
      then map_option (\<lambda>(restart, s').
             if wm_isStopping s' then (True, reap_clients sockfd s')
             else if restart \<or> wm_shouldRestart s' then (False, reap_clients sockfd (cleanup_mdns s'))
             else (False, reap_clients sockfd s'))
           (serve_fds env sockfd (mt_results i) (zip (md_pfds s) (mt_revents i)) (False, s))
      else if mt_poll i \<noteq> 0 then Some (False, cleanup_mdns (mdns_request_restart s))
      else Some (False, s))"

definition mdns_loop_turn :: "'p mux_env \<Rightarrow> (nat \<Rightarrow> int) \<Rightarrow> mdns_turn \<Rightarrow> mdns_manager \<Rightarrow> (bool \<times> mdns_manager) option" where
  "mdns_loop_turn env sockfd i s =
     (if md_client s = 0 \<or> md_clientPairing s = 0 \<or> md_wake_in s < 0 \<or> md_wake_out s < 0
      then (case init_mdns sockfd (mt_init i) s of
              (Inl e, s1) \<Rightarrow> Some (wm_isStopping s1, s1)
            | (Inr u, s1) \<Rightarrow> mdns_poll env sockfd i s1)
      else mdns_poll env sockfd i s)"

section \<open>What the callbacks keep\<close>

lemma mdns_found_ok [simp]:
  "found_ok (getaddr_done flags sdRef s) = found_ok s"
  "found_ok (mdns_request_restart s) = found_ok s"
  "found_ok (rebuild_pollfds sockfd s) = found_ok s"
  "found_ok (s\<lparr>md_clientAddrs := as\<rparr>) = found_ok s"
  "found_ok (s\<lparr>md_resolveClients := rs\<rparr>) = found_ok s"
  "found_ok (s\<lparr>md_linkedClients := ls\<rparr>) = found_ok s"
  by (simp_all add: found_ok_def store_ok_def getaddr_done_def mdns_request_restart_def rebuild_pollfds_def Let_def)

text \<open>Only the last reply for a connection adds or updates a device.\<close>

fun dns_adm :: "'p mux_env \<Rightarrow> dns_event \<Rightarrow> mdns_manager \<Rightarrow> bool" where
  "dns_adm env (Addressed p sdRef flags idx err address) s =
     (case address of
        None \<Rightarrow> True
      | Some ipaddr \<Rightarrow> err \<noteq> 0 \<or> flags AND kDNSServiceFlagsMoreComing \<noteq> 0
          \<or> (let name = hd ((case md_clientAddrs s sdRef of None \<Rightarrow> [] | Some as \<Rightarrow> as) @ [ipaddr])
             in found_adm env name (takeWhile (\<lambda>c. c \<noteq> CHR ''@'') name) s))"
| "dns_adm env e s = True"

lemma dns_callback_handled:
  assumes "found_ok s" and "dns_adm env e s"
  shows "\<exists>s'. dns_callback env sockfd e s = Some s' \<and> found_ok s'"
proof (cases e)
  case (Browsed flags err name ty c)
  then show ?thesis using assms(1) by (simp add: browse_reply_def wifi_removed_ok)
next
  case (Resolved sdRef err fullname got)
  then show ?thesis using assms(1) by (simp add: resolve_reply_def)
next
  case (Addressed p sdRef flags idx err address)
  show ?thesis
  proof (cases "err \<noteq> 0 \<or> address = None \<or> flags AND kDNSServiceFlagsMoreComing \<noteq> 0")
    case True
    then show ?thesis using assms(1) Addressed by (auto simp: getaddr_reply_def Let_def split: option.split)
  next
    case False
    then obtain ipaddr where a: "address = Some ipaddr" "err = 0" "flags AND kDNSServiceFlagsMoreComing = 0" by auto
    define addrs where "addrs = (case md_clientAddrs s sdRef of None \<Rightarrow> [] | Some as \<Rightarrow> as) @ [ipaddr]"
    let ?s = "s\<lparr>md_clientAddrs := (md_clientAddrs s)(sdRef \<mapsto> tl addrs)\<rparr>"
    have "found_adm env (hd addrs) (takeWhile (\<lambda>c. c \<noteq> CHR ''@'') (hd addrs)) ?s"
      using assms(2) Addressed a by (simp add: addrs_def found_adm_def Let_def)
    moreover have "found_ok ?s" using assms(1) by simp
    ultimately obtain s' where
      "wifi_found env p (hd addrs) (takeWhile (\<lambda>c. c \<noteq> CHR ''@'') (hd addrs)) (tl addrs) idx ?s = Some s'" "found_ok s'"
      using wifi_found_ok by blast
    with Addressed a show ?thesis by (simp add: getaddr_reply_def Let_def flip: addrs_def)
  qed
qed

interpretation mdns: wifi_backend "dns_callback env sockfd" found_ok "dns_adm env" for env sockfd
  by unfold_locales (rule dns_callback_handled)

text \<open>
  A discovery over Bonjour comes to an end. Whatever callbacks the library makes, in whatever order,
  as long as each is admissible, all of them return and the devices are in order afterwards.
\<close>

theorem mdns_discovery_ends:
  assumes "found_ok s" and "admissible_run (dns_callback env sockfd) (dns_adm env) es s"
  shows "\<exists>s'. run_events (dns_callback env sockfd) es s = Some s' \<and> found_ok s'"
  using assms by (rule mdns.run_handled)

section \<open>Which connection is given back\<close>

lemma std_remove_distinct:
  assumes "distinct xs" and "x \<in> set xs"
  shows "std_remove x xs = (length xs - 1, removeAll x xs @ [last xs])"
proof -
  have "length (removeAll x xs) = length xs - 1"
    using assms by (simp add: distinct_remove1_removeAll [symmetric] length_remove1)
  moreover have "filter (\<lambda>y. y \<noteq> x) xs = removeAll x xs" by (simp add: removeAll_filter_not_eq eq_commute)
  moreover have "drop (length xs - 1) xs = [last xs]"
    using assms(2) by (cases xs rule: rev_cases) auto
  ultimately show ?thesis by (simp add: std_remove_def Let_def)
qed

lemma reap_client_run:
  assumes "distinct xs" and "x \<in> set xs"
  shows "reap_client x (xs, freed) = (removeAll x xs, freed @ [last xs])"
proof -
  have len: "length (removeAll x xs) = length xs - 1"
    using assms by (simp add: distinct_remove1_removeAll [symmetric] length_remove1)
  moreover have "length xs - 1 \<noteq> length xs" using assms(2) by (cases xs) auto
  ultimately show ?thesis
    by (simp add: reap_client_def std_remove_distinct [OF assms] nth_append)
qed

text \<open>
  Giving back the connections of one look-up. When the two connections of a look-up are the last ones
  that were opened, taking them away in the order the code uses gives back exactly these two; in the other
  order the second one would be given back twice and the first one never, which is why the order is
  important.
\<close>

theorem lookup_given_back:
  assumes "distinct (rs @ [r, a])"
  shows "fold reap_client [a, r] (rs @ [r, a], freed) = (rs, freed @ [a, r])
    \<and> fold reap_client [r, a] (rs @ [r, a], freed) = (rs, freed @ [a, a])"
proof -
  have "reap_client a (rs @ [r, a], freed) = (rs @ [r], freed @ [a])"
    and "reap_client r (rs @ [r, a], freed) = (rs @ [a], freed @ [a])"
    using assms reap_client_run [OF assms, of a freed] reap_client_run [OF assms, of r freed] by simp_all
  moreover have "reap_client r (rs @ [r], freed @ [a]) = (rs, freed @ [a, r])"
    and "reap_client a (rs @ [a], freed @ [a]) = (rs, freed @ [a, a])"
    using assms reap_client_run [of "rs @ [r]" r "freed @ [a]"] reap_client_run [of "rs @ [a]" a "freed @ [a]"]
    by simp_all
  ultimately show ?thesis by simp
qed

text \<open>
  With a second look-up under way, the connection given back is the other look-up's, twice, and it stays
  in the list of connections in use.
\<close>

lemma two_lookups_double_free:
  assumes "distinct (rs @ [r1, r2, a1, a2])"
  shows "fold reap_client [a1, r1] (rs @ [r1, r2, a1, a2], freed) = (rs @ [r2, a2], freed @ [a2, a2])"
proof -
  have "reap_client a1 (rs @ [r1, r2, a1, a2], freed) = (rs @ [r1, r2, a2], freed @ [a2])"
    using assms reap_client_run [OF assms, of a1 freed] by simp
  moreover have "reap_client r1 (rs @ [r1, r2, a2], freed @ [a2]) = (rs @ [r2, a2], freed @ [a2, a2])"
    using assms reap_client_run [of "rs @ [r1, r2, a2]" r1 "freed @ [a2]"] by simp
  ultimately show ?thesis by simp
qed

section \<open>Restarts\<close>

lemma drain_wake_blocks: "drain_wake q = None"
proof -
  have False if "drain_wake q = Some y" for q y
    by (rule drain_wake.raw_induct [where P = "\<lambda>q y. False", OF _ that])
      (auto simp: pipe_read_def split: option.splits if_splits)
  then show ?thesis by (cases "drain_wake q") auto
qed

lemma wifi_found_frame:
  "wifi_found env p name mac as idx (s :: mdns_manager) = Some s' \<Longrightarrow> md_wake_in s' = md_wake_in s"
  by (auto simp: wifi_found_def wifi_device_add_def put_device_def Let_def
      split: if_splits option.splits prod.splits sum.splits)

lemma dns_callback_frame: "dns_callback env sockfd e s = Some s' \<Longrightarrow> md_wake_in s' = md_wake_in s"
  by (cases e) (auto simp: browse_reply_def resolve_reply_def getaddr_reply_def getaddr_done_def wifi_removed_def
      mdns_request_restart_def rebuild_pollfds_def Let_def dest!: wifi_found_frame
      split: if_splits option.splits)

lemma run_callbacks_frame:
  "run_events (dns_callback env sockfd) es s = Some s' \<Longrightarrow> md_wake_in s' = md_wake_in s"
  by (induction es arbitrary: s) (auto simp: dns_callback_frame split: option.splits)

lemma serve_fd_frame:
  "serve_fd env sockfd results pfd (restart, s) = Some (restart', s') \<Longrightarrow> md_wake_in s' = md_wake_in s"
  by (auto simp: serve_fd_def process_result_def mdns_request_restart_def Let_def dest: run_callbacks_frame
      split: prod.splits if_splits option.splits)

lemma serve_fds_blocks:
  "(md_wake_in s, revents) \<in> set pfds \<Longrightarrow> revents AND (POLLIN OR POLLHUP OR POLLERR OR POLLNVAL) \<noteq> 0
    \<Longrightarrow> serve_fds env sockfd results pfds (restart, s) = None"
proof (induction pfds arbitrary: restart s)
  case (Cons pfd pfds)
  show ?case
  proof (cases "pfd = (md_wake_in s, revents)")
    case True
    with Cons.prems(2) show ?thesis by (simp add: serve_fd_def drain_wake_blocks)
  next
    case False
    then have in_rest: "(md_wake_in s, revents) \<in> set pfds" using Cons.prems(1) by auto
    show ?thesis
    proof (cases "serve_fd env sockfd results pfd (restart, s)")
      case (Some st)
      obtain restart' s' where st: "st = (restart', s')" by fastforce
      with Some have "md_wake_in s' = md_wake_in s" by (simp add: serve_fd_frame)
      with in_rest Cons.IH [of s' restart'] Cons.prems(2) Some st show ?thesis by simp
    qed simp
  qed
qed simp

text \<open>
  C39: the thread hangs on its own wake-up. The wake-up pipe is read until a read returns nothing, but it is
  in blocking mode: once \<open>poll\<close> reports it, as it does after every \<open>request_restart\<close> and \<open>stopAction\<close>, the
  turn never ends, so the discovery is neither restarted nor stopped.
\<close>

theorem wake_up_hangs:
  assumes "mt_poll i > 0" and "(md_wake_in s, revents) \<in> set (zip (md_pfds s) (mt_revents i))"
    and "revents AND (POLLIN OR POLLHUP OR POLLERR OR POLLNVAL) \<noteq> 0"
  shows "mdns_poll env sockfd i s = None"
  using assms by (simp add: mdns_poll_def serve_fds_blocks)

text \<open>An initialisation that failed is done again, from the start, in the next turn.\<close>

lemma mdns_init_again:
  assumes "init_mdns sockfd i s = (Inl e, s1)"
    and "md_client s = 0 \<or> md_clientPairing s = 0 \<or> md_wake_in s < 0 \<or> md_wake_out s < 0"
  shows "md_client s1 = 0 \<or> md_clientPairing s1 = 0 \<or> md_wake_in s1 < 0 \<or> md_wake_out s1 < 0"
  using assms
  by (auto simp: init_mdns_def cleanup_mdns_def elim!: thenE_cases split: if_splits option.splits prod.splits)

section \<open>Concrete runs\<close>

definition ex_mdns :: mdns_manager where
  "ex_mdns = wifi_base.extend ex_wifi
     \<lparr>md_client = 1, md_clientPairing = 2, md_dns_sd_fd = 11, md_dns_sd_pairing_fd = 12, md_wake_in = 20,
      md_wake_out = 21, md_resolveClients = [], md_removeClients = [], md_pfds = [11, 12, 20],
      md_linkedClients = (\<lambda>_. None), md_clientAddrs = (\<lambda>_. None), md_wakes = [], md_freed = []\<rparr>"

definition ex_fd :: "nat \<Rightarrow> int" where "ex_fd c = int c + 10"

lemma ex_mdns_ok: "found_ok ex_mdns"
  using ex_wifi_ok by (simp add: found_ok_def store_ok_def ex_mdns_def wifi_base.defs)

text \<open>A service is browsed, resolved and its address is found.\<close>

definition ex_events :: "dns_event list" where
  "ex_events = [Browsed 2 0 ''aa:bb@x'' (Some ''_apple-mobdev2._tcp'') 3, Resolved 3 0 ''aa:bb@x._apple-mobdev2._tcp'' (0, 4),
     Addressed 7 4 0 1 0 (Some ''10.0.0.9'')]"

lemma mdns_discovery_ends_witness:
  "\<exists>s'. run_events (dns_callback ex_mux_env ex_fd) ex_events ex_mdns = Some s' \<and> found_ok s'"
proof (rule mdns_discovery_ends [OF ex_mdns_ok])
  show "admissible_run (dns_callback ex_mux_env ex_fd) (dns_adm ex_mux_env) ex_events ex_mdns"
    by (simp add: ex_events_def browse_reply_def resolve_reply_def rebuild_pollfds_def ex_mdns_def wifi_base.defs
        ex_wifi_def found_adm_def ex_fd_def kDNSServiceFlagsAdd_def PAIRING_SERVICE_def
        ex_muxer_def new_muxer_def MAXID_def sysconf_udid_for_macaddr_def ex_conf_def thenE_def split: option.split)
qed

lemma lookup_given_back_witness:
  "fold reap_client [4, 3] ([] @ [3, 4], []) = ([], [4, 3]) \<and> fold reap_client [3, 4] ([] @ [3, 4], []) = ([], [4, 4])"
  using lookup_given_back [of "[]" 3 4 "[]"] by simp

lemma wake_up_hangs_witness:
  "mdns_poll ex_mux_env ex_fd \<lparr>mt_init = \<lparr>mi_browse = (0, 1), mi_browse_pairing = (0, 2), mi_pipe = None\<rparr>, mt_poll = 1, mt_revents = [0, 0, 1], mt_results = (\<lambda>_. ([], 0))\<rparr>
     (mdns_request_restart ex_mdns) = None"
  by (rule wake_up_hangs [where revents = 1])
    (simp_all add: mdns_request_restart_def ex_mdns_def wifi_base.defs POLLIN_def POLLHUP_def POLLERR_def POLLNVAL_def)

end
