(* ===== verification/Avahi_Manager.thy ===== *)
theory Avahi_Manager
  imports WIFI_Backend
begin

text \<open>
  The manager of WIFI devices over Avahi, \<^verbatim>\<open>Manager/WIFIDeviceManager-avahi.cpp\<close>: what it does with the
  Avahi daemon's events, the loop and its restarts. Avahi's library is a parameter: which of its objects
  exist, what its calls return and the callbacks it makes while it polls are inputs.
\<close>

section \<open>State\<close>

text \<open>
  The first four fields say that the pointers of these names are not null; \<open>av_quits\<close> counts the calls of
  \<open>avahi_simple_poll_quit\<close>.
\<close>

record avahi_manager = wifi_base +
  av_simple_poll :: bool
  av_client :: bool
  av_sb :: bool
  av_sb2 :: bool
  av_quits :: nat

definition avahi_request_restart :: "avahi_manager \<Rightarrow> avahi_manager" where
  "avahi_request_restart s =
     (let s1 = s\<lparr>wm_shouldRestart := True\<rparr> in
      if av_simple_poll s1 then s1\<lparr>av_quits := Suc (av_quits s1)\<rparr> else s1)"

definition avahi_stopAction :: "avahi_manager \<Rightarrow> avahi_manager" where
  "avahi_stopAction s =
     (let s1 = s\<lparr>wm_isStopping := True\<rparr> in
      if av_simple_poll s1 then s1\<lparr>av_quits := Suc (av_quits s1)\<rparr> else s1)"

definition cleanup_avahi :: "avahi_manager \<Rightarrow> avahi_manager" where
  "cleanup_avahi s = s\<lparr>av_sb := False, av_sb2 := False, av_client := False, av_simple_poll := False\<rparr>"

text \<open>Which of the library's constructors succeed.\<close>

record avahi_init =
  ai_simple_poll :: bool
  ai_client :: bool
  ai_err :: int
  ai_sb :: bool
  ai_sb2 :: bool

definition init_avahi :: "avahi_init \<Rightarrow> (avahi_manager, unit) act" where
  "init_avahi i =
     thenE (modE (\<lambda>s. s\<lparr>av_simple_poll := ai_simple_poll i\<rparr>)) (\<lambda>_.
     thenE (assureE (ai_simple_poll i) Assure_failed) (\<lambda>_.
     thenE (modE (\<lambda>s. s\<lparr>av_client := ai_client i\<rparr>)) (\<lambda>_.
     thenE (assureE (ai_client i) Assure_failed) (\<lambda>_.
     thenE (assureE (ai_err i = 0) Assure_failed) (\<lambda>_.
     thenE (modE (\<lambda>s. s\<lparr>av_sb := ai_sb i\<rparr>)) (\<lambda>_.
     thenE (assureE (ai_sb i) Assure_failed) (\<lambda>_.
     thenE (modE (\<lambda>s. s\<lparr>av_sb2 := ai_sb2 i\<rparr>)) (\<lambda>_.
       assureE (ai_sb2 i) Assure_failed))))))))"

section \<open>Callbacks\<close>

definition avahi_client_callback :: "bool \<Rightarrow> avahi_manager \<Rightarrow> avahi_manager" where
  "avahi_client_callback failure s = (if failure then avahi_request_restart s else s)"

datatype browser_event =
    AVAHI_BROWSER_FAILURE
  | AVAHI_BROWSER_NEW
  | AVAHI_BROWSER_REMOVE
  | AVAHI_BROWSER_ALL_FOR_NOW
  | AVAHI_BROWSER_CACHE_EXHAUSTED

text \<open>The resolver that a new service gets is the library's; it comes back in the next callback.\<close>

definition avahi_browse_callback ::
    "'p mux_env \<Rightarrow> browser_event \<Rightarrow> string \<Rightarrow> string option \<Rightarrow> avahi_manager \<Rightarrow> avahi_manager" where
  "avahi_browse_callback env event name type s =
     (case event of
        AVAHI_BROWSER_FAILURE \<Rightarrow> avahi_request_restart s
      | AVAHI_BROWSER_NEW \<Rightarrow> s
      | AVAHI_BROWSER_REMOVE \<Rightarrow> wifi_removed env type name s
      | AVAHI_BROWSER_ALL_FOR_NOW \<Rightarrow> s
      | AVAHI_BROWSER_CACHE_EXHAUSTED \<Rightarrow> s)"

datatype resolver_event = AVAHI_RESOLVER_FAILURE | AVAHI_RESOLVER_FOUND | Unknown_event

definition avahi_resolve_callback ::
    "'p mux_env \<Rightarrow> nat \<Rightarrow> u32 \<Rightarrow> resolver_event \<Rightarrow> string \<Rightarrow> string \<Rightarrow> string \<Rightarrow> avahi_manager \<Rightarrow> avahi_manager option" where
  "avahi_resolve_callback env p interface event name type addr s =
     (case event of
        AVAHI_RESOLVER_FAILURE \<Rightarrow> Some s
      | AVAHI_RESOLVER_FOUND \<Rightarrow>
          let macAddr = takeWhile (\<lambda>c. c \<noteq> CHR ''@'') name; serviceName = name @ ''.'' @ type
          in wifi_found env p serviceName macAddr [addr] interface s
      | Unknown_event \<Rightarrow> Some s)"

datatype avahi_event =
    Client_state bool
  | Browser browser_event string "string option"
  | Resolver nat u32 resolver_event string string string

fun avahi_callback :: "'p mux_env \<Rightarrow> avahi_event \<Rightarrow> avahi_manager \<Rightarrow> avahi_manager option" where
  "avahi_callback env (Client_state failure) s = Some (avahi_client_callback failure s)"
| "avahi_callback env (Browser event name ty) s = Some (avahi_browse_callback env event name ty s)"
| "avahi_callback env (Resolver p interface event name ty addr) s =
     avahi_resolve_callback env p interface event name ty addr s"

section \<open>The loop\<close>

text \<open>
  A turn of the loop in \<open>loopEvent\<close> and whether it ends it: \<open>at_events\<close> are the callbacks made while
  \<open>avahi_simple_poll_loop\<close> runs, \<open>at_err\<close> is what it returns.
\<close>

record avahi_turn =
  at_init :: avahi_init
  at_events :: "avahi_event list"
  at_err :: int

definition avahi_poll :: "'p mux_env \<Rightarrow> avahi_turn \<Rightarrow> avahi_manager \<Rightarrow> (bool \<times> avahi_manager) option" where
  "avahi_poll env i s =
     map_option (\<lambda>s'.
         if wm_isStopping s' then (True, s')
         else if \<not> wm_shouldRestart s' \<and> at_err i = 0 then (True, s')
         else (False, cleanup_avahi s'))
       (run_events (avahi_callback env) (at_events i) (s\<lparr>wm_shouldRestart := False\<rparr>))"

definition avahi_loop_turn :: "'p mux_env \<Rightarrow> avahi_turn \<Rightarrow> avahi_manager \<Rightarrow> (bool \<times> avahi_manager) option" where
  "avahi_loop_turn env i s =
     (if \<not> av_simple_poll s
      then (case init_avahi (at_init i) s of
              (Inl e, s1) \<Rightarrow> Some (wm_isStopping s1, s1)
            | (Inr u, s1) \<Rightarrow> avahi_poll env i s1)
      else avahi_poll env i s)"

section \<open>What the callbacks keep\<close>

lemma avahi_found_ok [simp]:
  "found_ok (avahi_request_restart s) = found_ok s"
  by (simp add: found_ok_def store_ok_def avahi_request_restart_def Let_def)

fun avahi_adm :: "'p mux_env \<Rightarrow> avahi_event \<Rightarrow> avahi_manager \<Rightarrow> bool" where
  "avahi_adm env (Resolver p interface event name ty addr) s =
     (event = AVAHI_RESOLVER_FOUND \<longrightarrow> found_adm env (name @ ''.'' @ ty) (takeWhile (\<lambda>c. c \<noteq> CHR ''@'') name) s)"
| "avahi_adm env e s = True"

lemma avahi_callback_handled:
  assumes "found_ok s" and "avahi_adm env e s"
  shows "\<exists>s'. avahi_callback env e s = Some s' \<and> found_ok s'"
proof (cases e)
  case (Resolver p interface event name ty addr)
  then show ?thesis using assms wifi_found_ok [of s env "name @ ''.'' @ ty"]
    by (cases event) (auto simp: avahi_resolve_callback_def)
next
  case (Browser event name ty)
  then show ?thesis using assms(1)
    by (cases event) (simp_all add: avahi_browse_callback_def wifi_removed_ok)
qed (use assms(1) in \<open>simp add: avahi_client_callback_def\<close>)

interpretation avahi: wifi_backend "avahi_callback env" found_ok "avahi_adm env" for env
  by unfold_locales (rule avahi_callback_handled)

text \<open>
  A discovery over Avahi comes to an end. Whatever events the library reports while it polls, in
  whatever order, as long as each is admissible, the poll returns with the devices in order.
\<close>

theorem avahi_poll_ends:
  assumes "found_ok s"
    and "admissible_run (avahi_callback env) (avahi_adm env) (at_events i) (s\<lparr>wm_shouldRestart := False\<rparr>)"
  shows "\<exists>b s'. avahi_poll env i s = Some (b, s') \<and> found_ok s'"
proof -
  have "found_ok (s\<lparr>wm_shouldRestart := False\<rparr>)" using assms(1) by (simp add: found_ok_def store_ok_def)
  from avahi.run_handled [OF this assms(2)] obtain s' where
    "run_events (avahi_callback env) (at_events i) (s\<lparr>wm_shouldRestart := False\<rparr>) = Some s'" "found_ok s'" by auto
  moreover from this(2) have "found_ok (cleanup_avahi s')"
    by (simp add: found_ok_def store_ok_def cleanup_avahi_def)
  ultimately show ?thesis by (auto simp: avahi_poll_def)
qed

section \<open>A failed initialisation\<close>

text \<open>
  A failed initialisation is not done again. When the Avahi daemon cannot be reached the poll object is
  already there, and its absence is all the loop looks at: in the next turn it polls with no client
  and no browsers instead of connecting again.
\<close>

theorem avahi_init_not_redone:
  assumes "\<not> av_simple_poll s" and "ai_simple_poll (at_init i)" and "\<not> ai_client (at_init i)"
    and "\<not> wm_isStopping s" and "\<not> av_sb s" and "\<not> av_sb2 s"
  shows "\<exists>s1. avahi_loop_turn env i s = Some (False, s1) \<and> av_simple_poll s1
    \<and> \<not> av_client s1 \<and> \<not> av_sb s1 \<and> \<not> av_sb2 s1 \<and> avahi_loop_turn env j s1 = avahi_poll env j s1"
proof -
  have "init_avahi (at_init i) s = (Inl Assure_failed, s\<lparr>av_simple_poll := True, av_client := False\<rparr>)"
    using assms(2,3) by (simp add: init_avahi_def)
  then show ?thesis using assms by (simp add: avahi_loop_turn_def)
qed

section \<open>A pairing service that comes and goes\<close>

lemma contains_append: "contains pat ys \<Longrightarrow> contains pat (xs @ ys)"
  by (induction xs) auto

lemma filter_insort_key: "\<not> P x \<Longrightarrow> filter P (insort_key f x xs) = filter P xs"
  by (induction xs) auto

lemma takeWhile_dot: "CHR ''.'' \<notin> set name \<Longrightarrow> takeWhile (\<lambda>c. c \<noteq> CHR ''.'') (name @ CHR ''.'' # rest) = name"
  by (induction name) auto

lemma delete_first_at:
  assumes "find P (mx_devices m) = Some d"
  shows "mx_devices (delete_first env P m) = filter (\<lambda>e. dv_ptr e \<noteq> dv_ptr d) (mx_devices m)"
  using assms by (simp add: delete_first_def erase_device_def notify_device_remove_def Let_def)

text \<open>
  A pairing service comes and goes. A new device that offers a pairing service is added without telling
  the clients; when the service goes, so does the device, and the set of devices is what it was. The
  service's name must not have a dot in it: the serial is made of what precedes the first dot when the
  service comes, and of the whole name when it goes.
\<close>

theorem pairing_service_roundtrip:
  assumes "avahi_resolve_callback env p interface AVAHI_RESOLVER_FOUND name type addr s = Some s1"
    and "contains PAIRING_SERVICE type" and "CHR ''.'' \<notin> set name" and "length name \<le> 247"
    and "get_wifi_device_with_serial (pairing_serial name) (dm_mux s) = None"
    and "\<not> have_wifi_device_with_ip [addr] (dm_mux s)"
    and "p \<notin> dv_ptr ` set (mx_devices (dm_mux s))" and "\<And>d. me_start_wifi env d"
  shows "length (mx_devices (dm_mux s1)) = Suc (length (mx_devices (dm_mux s)))
    \<and> mx_heap (dm_mux s1) = mx_heap (dm_mux s)
    \<and> mx_devices (dm_mux (avahi_browse_callback env AVAHI_BROWSER_REMOVE name (Some type) s1)) = mx_devices (dm_mux s)"
proof -
  let ?m = "dm_mux s"
  let ?uuid = "pairing_serial name"
  let ?d = "wd_dev (new_wifi_device p ?uuid [addr] (name @ CHR ''.'' # type) interface)"
  have serial: "take 256 ?uuid = ?uuid" using assms(4) by (simp add: pairing_serial_def)
  have known: "contains PAIRING_SERVICE (name @ CHR ''.'' # type)"
    using contains_append [OF assms(2), of "name @ ''.''"] by simp
  obtain d' m1 where new: "assign_id ?d ?m = Some (d', m1)" and
      run: "add_device env ?d False ?m = Some (dm_mux s1)"
    using assms(1,6) known takeWhile_dot [OF assms(3)]
    by (auto simp: avahi_resolve_callback_def wifi_found_def wifi_device_add_def Let_def split: option.splits)
  then have s1: "dm_mux s1 = insert_device d' m1" using assms(8) by (simp add: add_device_def Let_def)
  have d': "dv_ptr d' = p" "dv_serial d' = ?uuid" "dv_conntype d' = MUXCONN_WIFI"
    using assign_id_dev(1) [OF new] serial by (simp_all add: new_wifi_device_def) (metis device.select_convs device.update_convs(3))+
  have keep: "filter (\<lambda>e. dv_ptr e \<noteq> p) (mx_devices ?m) = mx_devices ?m"
    using assms(7) by (simp add: filter_id_conv) (metis image_eqI)
  have devs: "mx_devices (dm_mux s1) = insort_key dv_ptr d' (mx_devices ?m)"
    using keep by (simp add: s1 insert_device_def assign_id_dev(2) [OF new] d')
  define P where "P e \<longleftrightarrow> dv_conntype e = MUXCONN_WIFI \<and> dv_serial e = ?uuid" for e :: device
  have "\<not> P e" if "e \<in> set (mx_devices ?m)" for e
    using assms(5) that by (auto simp: P_def get_wifi_device_with_serial_def find_None_iff)
  then have only: "e = d'" if "e \<in> set (mx_devices (dm_mux s1))" "P e" for e
    using that by (auto simp: devs set_insort_key)
  have "find P (mx_devices (dm_mux s1)) = Some d'"
  proof (cases "find P (mx_devices (dm_mux s1))")
    case None
    then show ?thesis using d' by (auto simp: find_None_iff devs set_insort_key P_def)
  next
    case (Some e)
    with find_at [OF Some] only show ?thesis by simp
  qed
  then have "mx_devices (delete_first env P (dm_mux s1)) = mx_devices ?m"
    using keep d'(1) by (simp add: delete_first_at devs filter_insort_key)
  moreover have "delete_wifi_device_with_serial env ?uuid = delete_first env P"
    by (simp add: delete_wifi_device_with_serial_def P_def [abs_def])
  moreover have "mx_heap (dm_mux s1) = mx_heap ?m"
    using new by (auto simp: s1 insert_device_def assign_id_def Let_def split: if_splits option.splits)
  ultimately show ?thesis
    using assms(2) by (simp add: devs avahi_browse_callback_def wifi_removed_def)
qed

section \<open>Concrete runs\<close>

definition ex_avahi :: avahi_manager where
  "ex_avahi = wifi_base.extend ex_wifi \<lparr>av_simple_poll = True, av_client = True, av_sb = True, av_sb2 = True, av_quits = 0\<rparr>"

definition ex_turn :: avahi_turn where
  "ex_turn = \<lparr>at_init = \<lparr>ai_simple_poll = True, ai_client = False, ai_err = -26, ai_sb = False, ai_sb2 = False\<rparr>,
     at_events = [Resolver 7 1 AVAHI_RESOLVER_FOUND ''aa:bb@x'' ''_apple-mobdev2._tcp'' ''10.0.0.9''], at_err = 0\<rparr>"

lemma avahi_poll_ends_witness: "\<exists>b s'. avahi_poll ex_mux_env ex_turn ex_avahi = Some (b, s') \<and> found_ok s'"
proof (rule avahi_poll_ends)
  show "found_ok ex_avahi"
    using ex_wifi_ok by (simp add: found_ok_def store_ok_def ex_avahi_def wifi_base.defs)
  show "admissible_run (avahi_callback ex_mux_env) (avahi_adm ex_mux_env) (at_events ex_turn) (ex_avahi\<lparr>wm_shouldRestart := False\<rparr>)"
    by (simp add: ex_turn_def ex_avahi_def wifi_base.defs ex_wifi_def found_adm_def PAIRING_SERVICE_def
        ex_muxer_def new_muxer_def MAXID_def sysconf_udid_for_macaddr_def ex_conf_def thenE_def split: option.split)
qed

lemma avahi_init_not_redone_witness:
  "\<exists>s1. avahi_loop_turn ex_mux_env ex_turn (cleanup_avahi ex_avahi) = Some (False, s1) \<and> av_simple_poll s1 \<and> \<not> av_client s1"
  using avahi_init_not_redone [of "cleanup_avahi ex_avahi" ex_turn ex_mux_env ex_turn]
  by (auto simp: ex_turn_def ex_avahi_def wifi_base.defs ex_wifi_def cleanup_avahi_def)

lemma pairing_service_roundtrip_witness:
  "\<exists>s1. avahi_resolve_callback ex_mux_env 7 1 AVAHI_RESOLVER_FOUND ''iPhone'' PAIRING_SERVICE ''10.0.0.9'' ex_avahi = Some s1
    \<and> mx_devices (dm_mux (avahi_browse_callback ex_mux_env AVAHI_BROWSER_REMOVE ''iPhone'' (Some PAIRING_SERVICE) s1))
      = mx_devices (dm_mux ex_avahi)"
proof -
  have ok: "found_ok ex_avahi"
    using ex_wifi_ok by (simp add: found_ok_def store_ok_def ex_avahi_def wifi_base.defs)
  have serial: "get_wifi_device_with_serial (pairing_serial ''iPhone'') (dm_mux ex_avahi) = None"
    by (simp add: get_wifi_device_with_serial_def ex_avahi_def wifi_base.defs ex_wifi_def ex_muxer_def ex_device_def)
  have "mx_newid (dm_mux ex_avahi) < MAXID"
    by (simp add: ex_avahi_def wifi_base.defs ex_wifi_def ex_muxer_def new_muxer_def MAXID_def)
  then have "found_adm ex_mux_env (''iPhone'' @ ''.'' @ PAIRING_SERVICE) ''iPhone'' ex_avahi"
    using serial by (simp add: found_adm_def pairing_serial_def sysconf_udid_for_macaddr_def ex_avahi_def
        wifi_base.defs ex_wifi_def ex_conf_def thenE_def)
  with wifi_found_ok [OF ok] obtain s1 where
    run: "avahi_resolve_callback ex_mux_env 7 1 AVAHI_RESOLVER_FOUND ''iPhone'' PAIRING_SERVICE ''10.0.0.9'' ex_avahi = Some s1"
    by (force simp: avahi_resolve_callback_def)
  have "contains PAIRING_SERVICE PAIRING_SERVICE" by (simp add: PAIRING_SERVICE_def)
  from pairing_service_roundtrip [OF run this _ _ serial] show ?thesis
    using run by (simp add: ex_avahi_def wifi_base.defs ex_wifi_def ex_muxer_def ex_device_def
        have_wifi_device_with_ip_def ex_mux_env_def)
qed

end
