(* ===== verification/WIFI_Lifetime.thy ===== *)
theory WIFI_Lifetime
  imports MDNS_Manager Avahi_Manager Children
begin

text \<open>
  Beginnings and ends of the two managers of WIFI devices: their constructors and destructors, whose wait for
  the devices is \<open>check_children\<close> of \<^verbatim>\<open>Children\<close>, and the parts of
  \<^verbatim>\<open>Manager/WIFIDeviceManager-avahi.cpp\<close> that have a twin in the other file.
\<close>

section \<open>Bonjour\<close>

definition new_mdns :: "muxer \<Rightarrow> sysconf \<Rightarrow> (nat \<Rightarrow> wifi_device) \<Rightarrow> mdns_manager" where
  "new_mdns m conf heap = \<lparr>dm_mux = m, dm_conf = conf, wm_devs = heap, wm_children = {}, wm_reap = [],
     wm_shouldRestart = False, wm_isStopping = False, md_client = 0, md_clientPairing = 0, md_dns_sd_fd = -1,
     md_dns_sd_pairing_fd = -1, md_wake_in = -1, md_wake_out = -1, md_resolveClients = [], md_removeClients = [],
     md_pfds = [], md_linkedClients = (\<lambda>_. None), md_clientAddrs = (\<lambda>_. None), md_wakes = [], md_freed = []\<rparr>"

text \<open>The constructor; where it succeeds the reaper's thread runs. \<open>running\<close> is whether the manager's loop does.\<close>

definition mdns_start :: "(nat \<Rightarrow> int) \<Rightarrow> mdns_init \<Rightarrow> muxer \<Rightarrow> sysconf \<Rightarrow> (nat \<Rightarrow> wifi_device) \<Rightarrow> unit res \<times> mdns_manager" where
  "mdns_start sockfd i m conf heap = init_mdns sockfd i (new_mdns m conf heap)"

definition mdns_dtor_begin :: "bool \<Rightarrow> mdns_manager \<Rightarrow> mdns_manager" where
  "mdns_dtor_begin running s = (if running then mdns_stopAction s else s)"

definition mdns_dtor_end :: "mdns_manager \<Rightarrow> mdns_manager" where
  "mdns_dtor_end s = cleanup_mdns s"

section \<open>Avahi\<close>

definition new_avahi :: "muxer \<Rightarrow> sysconf \<Rightarrow> (nat \<Rightarrow> wifi_device) \<Rightarrow> avahi_manager" where
  "new_avahi m conf heap = \<lparr>dm_mux = m, dm_conf = conf, wm_devs = heap, wm_children = {}, wm_reap = [],
     wm_shouldRestart = False, wm_isStopping = False, av_simple_poll = False, av_client = False, av_sb = False,
     av_sb2 = False, av_quits = 0\<rparr>"

definition avahi_start :: "avahi_init \<Rightarrow> muxer \<Rightarrow> sysconf \<Rightarrow> (nat \<Rightarrow> wifi_device) \<Rightarrow> unit res \<times> avahi_manager" where
  "avahi_start i m conf heap = init_avahi i (new_avahi m conf heap)"

definition avahi_dtor_begin :: "bool \<Rightarrow> avahi_manager \<Rightarrow> avahi_manager" where
  "avahi_dtor_begin running s = (if running then avahi_stopAction s else s)"

definition avahi_dtor_end :: "avahi_manager \<Rightarrow> avahi_manager" where
  "avahi_dtor_end s = cleanup_avahi s"

definition avahi_device_add :: "'p mux_env \<Rightarrow> nat \<Rightarrow> wifi_device \<Rightarrow> bool \<Rightarrow> avahi_manager \<Rightarrow> avahi_manager option" where
  "avahi_device_add env p d notify s = wifi_device_add env p d notify s"

text \<open>The three requests differ in what they log only.\<close>

definition avahi_rediscovery :: "avahi_manager \<Rightarrow> avahi_manager" where
  "avahi_rediscovery s = (if wm_isStopping s then s else avahi_request_restart s)"

fun avahi_reaper :: "'p mux_env \<Rightarrow> rl_input list list \<Rightarrow> avahi_manager \<Rightarrow> avahi_manager" where
  "avahi_reaper env [] s = s"
| "avahi_reaper env (is # iss) s =
     (case wm_reap s of
        [] \<Rightarrow> s
      | p # ps \<Rightarrow> avahi_reaper env iss (wifi_deconstruct env avahi_request_restart is p (s\<lparr>wm_reap := ps\<rparr>)))"

text \<open>The code of the two backends is the same up to the restart.\<close>

lemma avahi_twins:
  "avahi_rediscovery = request_rediscovery avahi_request_restart"
  "avahi_reaper env iss s = reaper_runloop env avahi_request_restart iss s"
proof -
  show "avahi_rediscovery = request_rediscovery avahi_request_restart"
    by (simp add: fun_eq_iff avahi_rediscovery_def request_rediscovery_def)
  show "avahi_reaper env iss s = reaper_runloop env avahi_request_restart iss s"
    by (induction iss arbitrary: s) (auto split: list.split)
qed

section \<open>A device and its session\<close>

text \<open>The destructor of a session, and what a device tells its session.\<close>

definition session_destroy :: "wifi_settings \<Rightarrow> rl_input list \<Rightarrow> session \<times> wifi_device \<Rightarrow> session \<times> wifi_device" where
  "session_destroy cfg is sd = (case session_stop cfg is True sd of (ss, d) \<Rightarrow> (cleanupConnection ss, d))"

definition wifi_startLoop :: "wifi_device \<Rightarrow> wifi_device" where
  "wifi_startLoop d = ensureSession d"

record discovery_info =
  di_ipaddr :: "string list"
  di_serviceName :: string
  di_interfaceIndex :: u32
  di_version :: u64

definition snapshotDiscoveryInfo :: "wifi_device \<Rightarrow> discovery_info" where
  "snapshotDiscoveryInfo d =
     \<lparr>di_ipaddr = dv_ipaddr (wd_dev d), di_serviceName = dv_serviceName (wd_dev d),
      di_interfaceIndex = dv_interfaceIndex (wd_dev d), di_version = wd_discoveryVersion d\<rparr>"

type_synonym discovery = "string list \<times> string \<times> u32"

fun discovered :: "discovery list \<Rightarrow> wifi_device \<Rightarrow> wifi_device" where
  "discovered [] d = d"
| "discovered ((ip, name, i) # us) d = discovered us (updateDiscoveryInfo ip name i d)"

lemma discovered_counts:
  "\<exists>k \<le> length us. di_version (snapshotDiscoveryInfo (discovered us d)) = di_version (snapshotDiscoveryInfo d) + of_nat k
    \<and> (k = 0 \<longrightarrow> snapshotDiscoveryInfo (discovered us d) = snapshotDiscoveryInfo d)"
proof (induction us d rule: discovered.induct)
  case (2 ip name i us d)
  let ?d = "updateDiscoveryInfo ip name i d"
  from 2 obtain k where k: "k \<le> length us"
    "di_version (snapshotDiscoveryInfo (discovered us ?d)) = di_version (snapshotDiscoveryInfo ?d) + of_nat k"
    "k = 0 \<longrightarrow> snapshotDiscoveryInfo (discovered us ?d) = snapshotDiscoveryInfo ?d" by blast
  show ?case
  proof (cases "snapshotDiscoveryInfo ?d = snapshotDiscoveryInfo d")
    case True
    with k show ?thesis by (intro exI [of _ k]) simp
  next
    case False
    then have "di_version (snapshotDiscoveryInfo ?d) = di_version (snapshotDiscoveryInfo d) + 1"
      by (auto simp: snapshotDiscoveryInfo_def updateDiscoveryInfo_def Let_def)
    with k show ?thesis by (intro exI [of _ "Suc k"]) simp
  qed
qed simp

text \<open>
  C28: the version of a snapshot identifies what was discovered. A session that connected with one snapshot compares the
  versions only; where they agree the addresses, the service and the interface are the ones it connected to, however
  often the device was found in between, short of the 64 bits of the version.
\<close>

theorem version_identifies_discovery:
  assumes "length us < 2 ^ 64"
    and "di_version (snapshotDiscoveryInfo (discovered us d)) = di_version (snapshotDiscoveryInfo d)"
  shows "snapshotDiscoveryInfo (discovered us d) = snapshotDiscoveryInfo d"
proof -
  obtain k where k: "k \<le> length us"
    "di_version (snapshotDiscoveryInfo (discovered us d)) = di_version (snapshotDiscoveryInfo d) + of_nat k"
    "k = 0 \<longrightarrow> snapshotDiscoveryInfo (discovered us d) = snapshotDiscoveryInfo d" using discovered_counts by blast
  with assms(2) have "(of_nat k :: u64) = 0" by simp
  then have "2 ^ 64 dvd k" by (simp add: word_of_nat_eq_0_iff)
  with k(1) assms(1) have "k = 0" using nat_dvd_not_less [of k "2 ^ 64"] by (cases "k = 0") auto
  with k(3) show ?thesis by simp
qed

lemma version_identifies_discovery_witness:
  "dv_ipaddr (wd_dev (discovered [([''a''], ''n'', 1), ([''a''], ''n'', 1)] (updateDiscoveryInfo [''a''] ''n'' 1 ex_wifi_device))) = [''a'']"
proof -
  let ?d = "updateDiscoveryInfo [''a''] ''n'' 1 ex_wifi_device"
  let ?us = "[([''a''], ''n'', 1), ([''a''], ''n'', 1)] :: discovery list"
  have "di_version (snapshotDiscoveryInfo (discovered ?us ?d)) = di_version (snapshotDiscoveryInfo ?d)"
    by (simp add: snapshotDiscoveryInfo_def updateDiscoveryInfo_def Let_def)
  from version_identifies_discovery [OF _ this] show ?thesis
    by (simp add: snapshotDiscoveryInfo_def) (simp add: updateDiscoveryInfo_def Let_def)
qed

section \<open>The wait for the devices\<close>

text \<open>
  One round of the loop in the destructors, on the manager's own state; \<open>events\<close> counts the events of
  \<open>_childrenEvent\<close>. Every device that exists is held by someone here, so that \<open>kill\<close> posts it.
\<close>

definition mdns_check_children :: "nat \<Rightarrow> mdns_manager \<Rightarrow> dtor \<times> mdns_manager" where
  "mdns_check_children events s =
     (if wm_children s = {} then (Past, s)
      else (Waiting (Suc events), fold device_kill (sorted_list_of_set (wm_children s)) s))"

definition avahi_check_children :: "nat \<Rightarrow> avahi_manager \<Rightarrow> dtor \<times> avahi_manager" where
  "avahi_check_children events s =
     (if wm_children s = {} then (Past, s)
      else (Waiting (Suc events), fold device_kill (sorted_list_of_set (wm_children s)) s))"

text \<open>A manager as a family: who else holds a device, what the reaper works on and what dies is not its state.\<close>

definition family_of ::
    "(nat \<Rightarrow> nat) \<Rightarrow> (nat \<times> bool) option \<Rightarrow> nat set \<Rightarrow> nat \<Rightarrow> 'z wifi_base_scheme \<Rightarrow> family" where
  "family_of others current dying events s =
     \<lparr>fm_children = wm_children s, fm_muxer = dv_ptr ` {d \<in> set (mx_devices (dm_mux s)). dv_conntype d = MUXCONN_WIFI},
      fm_others = others, fm_queue = map Some (wm_reap s), fm_current = current, fm_dying = dying, fm_events = events\<rparr>"

lemma device_kill_all:
  "wm_reap (fold device_kill ps s) = wm_reap s @ ps" "dm_mux (fold device_kill ps s) = dm_mux s"
  "wm_children (fold device_kill ps s) = wm_children s"
  by (induction ps arbitrary: s) (simp_all add: device_kill_def)

lemma kill_all_is_family_kill:
  assumes "\<forall>p \<in> set ps. held (family_of others current dying events s) p"
  shows "fold kill_child ps (family_of others current dying events s)
    = family_of others current dying events (fold device_kill ps s)"
proof -
  let ?f = "family_of others current dying events"
  have "map (\<lambda>p. if held (?f s) p then Some p else None) ps = map Some ps" using assms by simp
  then have "fm_queue (fold kill_child ps (?f s)) = fm_queue (?f (fold device_kill ps s))"
    by (simp add: kill_all_queue device_kill_all) (simp add: family_of_def device_kill_all)
  then show ?thesis
    by (intro family.equality) (simp_all add: family_of_def device_kill_all)
qed

text \<open>
  The wait of both managers of WIFI devices is the wait of \<open>check_children\<close>. On a manager all of
  whose devices are held by the muxer, by their sessions or by the reaper, a round of the loop posts every device
  to the reaper once, in the order of the set, and is the step of the family the manager stands for, so
  that what is shown of families holds of it.
\<close>

theorem wifi_wait_refines:
  assumes "finite (wm_children s)"
    and "\<forall>p \<in> wm_children s. held (family_of others current dying events s) p"
    and "mdns_check_children events s = (pc, s')"
    and "finite (wm_children t)"
    and "\<forall>p \<in> wm_children t. held (family_of others current dying events t) p"
    and "avahi_check_children events t = (pc', t')"
  shows "check_children (family_of others current dying events s) = (pc, family_of others current dying events s')
    \<and> wm_reap s' = wm_reap s @ sorted_list_of_set (wm_children s)
    \<and> check_children (family_of others current dying events t) = (pc', family_of others current dying events t')
    \<and> wm_reap t' = wm_reap t @ sorted_list_of_set (wm_children t)"
proof -
  have parts': "fm_children (family_of others current dying events u) = wm_children u"
    "fm_events (family_of others current dying events u) = events" for u :: mdns_manager
    by (simp_all add: family_of_def)
  have parts'': "fm_children (family_of others current dying events u) = wm_children u"
    "fm_events (family_of others current dying events u) = events" for u :: avahi_manager
    by (simp_all add: family_of_def)
  show ?thesis
    using assms
    by (auto simp: mdns_check_children_def avahi_check_children_def check_children_def parts' parts''
        kill_all_is_family_kill device_kill_all split: if_splits)
qed

definition ex_two_devices :: mdns_manager where
  "ex_two_devices = (new_mdns ex_muxer ex_conf (\<lambda>_. ex_wifi_device))\<lparr>wm_children := {3, 4}\<rparr>"

definition ex_two_devices_avahi :: avahi_manager where
  "ex_two_devices_avahi = (new_avahi ex_muxer ex_conf (\<lambda>_. ex_wifi_device))\<lparr>wm_children := {3, 4}\<rparr>"

lemma wifi_wait_refines_witness:
  "wm_reap (snd (mdns_check_children 0 ex_two_devices)) = [3, 4]
    \<and> wm_reap (snd (avahi_check_children 0 ex_two_devices_avahi)) = [3, 4]"
proof -
  have "finite (wm_children ex_two_devices)" "finite (wm_children ex_two_devices_avahi)"
    "wm_reap ex_two_devices = []" "wm_reap ex_two_devices_avahi = []"
    "sorted_list_of_set (wm_children ex_two_devices) = [3, 4]"
    "sorted_list_of_set (wm_children ex_two_devices_avahi) = [3, 4]"
    by (simp_all add: ex_two_devices_def ex_two_devices_avahi_def new_mdns_def new_avahi_def)
  then show ?thesis
    using wifi_wait_refines [of ex_two_devices "\<lambda>_. 1" None "{}" 0 _ _ ex_two_devices_avahi]
    by (metis (no_types, lifting) append_Nil family.select_convs(3) family_of_def held_def prod.collapse zero_less_one)
qed

section \<open>Shutting down\<close>

text \<open>A device that is reaped while the manager stops does not start the discovery again, whatever the backend.\<close>

lemma no_restart_when_stopping:
  "wm_isStopping s \<Longrightarrow> wm_isStopping (reaper_runloop env restart iss s)
    \<and> wm_shouldRestart (reaper_runloop env restart iss s) = wm_shouldRestart s"
proof (induction iss arbitrary: s)
  case (Cons "is" iss)
  have "wm_isStopping (wifi_deconstruct env restart is p t) \<and> wm_shouldRestart (wifi_deconstruct env restart is p t) = wm_shouldRestart t"
    if "wm_isStopping t" for p t
    using that by (simp add: wifi_deconstruct_def request_rediscovery_def Let_def)
  with Cons show ?case by (auto split: list.split)
qed simp

lemma avahi_stopping_stays: "avahi_callback env e s = Some s' \<Longrightarrow> wm_isStopping s' = wm_isStopping s"
  by (cases e) (auto simp: avahi_client_callback_def avahi_browse_callback_def avahi_resolve_callback_def
      avahi_request_restart_def wifi_removed_def wifi_found_def wifi_device_add_def put_device_def Let_def
      split: if_splits option.splits prod.splits sum.splits browser_event.splits resolver_event.splits)

lemma avahi_run_stopping: "run_events (avahi_callback env) es s = Some s' \<Longrightarrow> wm_isStopping s' = wm_isStopping s"
  by (induction es arbitrary: s) (auto simp: avahi_stopping_stays split: option.splits)

text \<open>
  Stopping the discovery over Avahi. Once the destructor has asked for it, the turn of the loop that is
  under way is the last one, whatever events come before the poll returns; but a stop that comes while the loop
  has no poll object, in the quarter of a second before it initialises again, tells nothing to the
  object that is made then, and the new poll goes on until something else ends it.
\<close>

theorem avahi_stop:
  assumes "s' = avahi_dtor_begin True s"
  shows "(avahi_poll env i s' = Some (b, s1) \<longrightarrow> b)
    \<and> (\<not> av_simple_poll s \<and> init_avahi (at_init i) s' = (Inr (), s2)
        \<longrightarrow> avahi_loop_turn env i s' = avahi_poll env i s2 \<and> av_simple_poll s2 \<and> av_quits s2 = av_quits s)"
proof (intro conjI impI)
  have stop: "wm_isStopping s'" using assms by (simp add: avahi_dtor_begin_def avahi_stopAction_def Let_def)
  show b if "avahi_poll env i s' = Some (b, s1)"
    using that stop avahi_run_stopping [of env "at_events i" "s'\<lparr>wm_shouldRestart := False\<rparr>"]
    by (auto simp: avahi_poll_def)
  assume re: "\<not> av_simple_poll s \<and> init_avahi (at_init i) s' = (Inr (), s2)"
  then have "\<not> av_simple_poll s'" "av_quits s' = av_quits s"
    using assms by (simp_all add: avahi_dtor_begin_def avahi_stopAction_def Let_def)
  with re show "avahi_loop_turn env i s' = avahi_poll env i s2" "av_simple_poll s2" "av_quits s2 = av_quits s"
    by (auto simp: avahi_loop_turn_def init_avahi_def elim!: thenE_cases split: if_splits)
qed

text \<open>
  The discovery over Bonjour does not stop at all once \<open>poll\<close> has reported what \<open>stopAction\<close> wrote.
\<close>

lemma mdns_stop_hangs:
  assumes "md_wake_out s \<ge> 0" and "mt_poll i > 0" and "(md_wake_in s, POLLIN) \<in> set (zip (md_pfds s) (mt_revents i))"
  shows "md_wakes (mdns_dtor_begin True s) = md_wakes s @ ''q'' \<and> mdns_poll env sockfd i (mdns_dtor_begin True s) = None"
proof -
  let ?s = "mdns_dtor_begin True s"
  have s: "md_wake_in ?s = md_wake_in s" "md_pfds ?s = md_pfds s" "md_wakes ?s = md_wakes s @ ''q''"
    using assms(1) by (simp_all add: mdns_dtor_begin_def mdns_stopAction_def Let_def)
  have "POLLIN AND (POLLIN OR POLLHUP OR POLLERR OR POLLNVAL) \<noteq> 0"
    by (simp add: POLLIN_def POLLHUP_def POLLERR_def POLLNVAL_def)
  with assms(2,3) s show ?thesis by (simp add: mdns_poll_def serve_fds_blocks)
qed

definition ex_reinit :: avahi_turn where
  "ex_reinit = ex_turn\<lparr>at_init := \<lparr>ai_simple_poll = True, ai_client = True, ai_err = 0, ai_sb = True, ai_sb2 = True\<rparr>\<rparr>"

lemma avahi_stop_witness:
  "\<exists>s2. avahi_loop_turn ex_mux_env ex_reinit (avahi_dtor_begin True (new_avahi ex_muxer ex_conf (\<lambda>_. ex_wifi_device)))
     = avahi_poll ex_mux_env ex_reinit s2 \<and> av_simple_poll s2 \<and> av_quits s2 = 0"
proof -
  let ?s = "new_avahi ex_muxer ex_conf (\<lambda>_. ex_wifi_device)"
  have "\<not> av_simple_poll ?s" "av_quits ?s = 0" by (simp_all add: new_avahi_def)
  moreover have "\<exists>s2. init_avahi (at_init ex_reinit) (avahi_dtor_begin True ?s) = (Inr (), s2)"
    by (simp add: init_avahi_def ex_reinit_def modE_def assureE_def thenE_def)
  ultimately show ?thesis using avahi_stop [OF refl, of ex_mux_env ex_reinit ?s] by metis
qed

end
