(* ===== verification/Shutdown.thy ===== *)
theory Shutdown
  imports Startup USB_Lifetime Client_Lifetime WIFI_Lifetime
begin

text \<open>
  The end of the daemon: the signals \<^verbatim>\<open>main.cpp\<close> handles and what \<open>main\<close> waits for, and what it takes down
  afterwards, with the destructor of the muxer, which ends the managers one after the other.
\<close>

section \<open>Signal handlers\<close>

definition SIGQUIT :: int where "SIGQUIT = 3"
definition SIGPIPE :: int where "SIGPIPE = 13"

datatype handler = Handle_signal | Ignore_signal

text \<open>\<open>installs\<close> says for which signals the call of \<open>signal\<close> succeeds.\<close>

fun install_handlers :: "(int \<Rightarrow> bool) \<Rightarrow> (int \<times> handler) list \<Rightarrow> ((int \<times> handler) list, unit) act" where
  "install_handlers installs [] hs = (Inr (), hs)"
| "install_handlers installs (h # rest) hs =
     (if installs (fst h) then install_handlers installs rest (hs @ [h]) else (Inl Assure_failed, hs))"

definition set_signal_handlers :: "(int \<Rightarrow> bool) \<Rightarrow> ((int \<times> handler) list, unit) act" where
  "set_signal_handlers installs =
     install_handlers installs [(SIGINT, Handle_signal), (SIGQUIT, Handle_signal), (SIGTERM, Handle_signal),
       (SIGUSR1, Handle_signal), (SIGUSR2, Handle_signal), (SIGPIPE, Ignore_signal)]"

text \<open>
  A sequence of signals with the counter of the handler and the number of events \<open>terminateEvent\<close> has seen;
  \<open>None\<close> is the handler's \<open>exit\<close>.
\<close>

fun take_signals :: "config \<Rightarrow> muxer \<Rightarrow> int list \<Rightarrow> int \<times> nat \<Rightarrow> (int \<times> nat) option" where
  "take_signals conf m [] s = Some s"
| "take_signals conf m (sig # sigs) (counter, events) =
     (case handle_signal conf m sig counter of
        (Sig_exit n, c) \<Rightarrow> None
      | (Sig_terminate, c) \<Rightarrow> take_signals conf m sigs (c, Suc events)
      | (Sig_none, c) \<Rightarrow> take_signals conf m sigs (c, events))"

text \<open>\<open>main\<close> asks for the number of the next event and waits for it.\<close>

definition main_awake :: "nat \<Rightarrow> nat \<Rightarrow> bool" where
  "main_awake before now \<longleftrightarrow> Suc before \<le> now"

definition ends_daemon :: "config \<Rightarrow> muxer \<Rightarrow> int \<Rightarrow> bool" where
  "ends_daemon conf m sig \<longleftrightarrow> sig \<noteq> SIGUSR1 \<and> sig \<noteq> SIGUSR2
     \<or> sig = SIGUSR1 \<and> cf_enableExit conf \<and> mx_devices m = []"

lemma take_signals_events:
  "take_signals conf m sigs (c, e) = Some (c', e')
   \<Longrightarrow> e' = e + length (filter (ends_daemon conf m) sigs)"
proof (induction sigs arbitrary: c e)
  case (Cons sig sigs)
  obtain x d where h: "handle_signal conf m sig c = (x, d)" by fastforce
  then have eff: "(x = Sig_terminate \<longleftrightarrow> ends_daemon conf m sig) \<or> (\<exists>n. x = Sig_exit n)"
    by (auto simp: handle_signal_def ends_daemon_def devices_cnt_def split: if_splits)
  with Cons.prems h Cons.IH [of d "Suc e"] Cons.IH [of d e] show ?case by (cases x) auto
qed simp

text \<open>
  A signal that comes while the daemon starts is counted, but \<open>main\<close> waits for the one after: the
  daemon ends only if another signal that ends it comes later.
\<close>

theorem early_signals_lost:
  assumes "take_signals conf m early (0, 0) = Some (c, e)" and "take_signals conf m late (c, e) = Some (c', e')"
  shows "main_awake e e' \<longleftrightarrow> (\<exists>sig \<in> set late. ends_daemon conf m sig)"
proof -
  have "main_awake e e' \<longleftrightarrow> filter (ends_daemon conf m) late \<noteq> []"
    using take_signals_events [OF assms(2)] by (cases "filter (ends_daemon conf m) late") (simp_all add: main_awake_def)
  then show ?thesis by (simp add: filter_empty_conv)
qed

text \<open>Five signals are waited for with patience, the sixth ends the process on the spot.\<close>

lemma sixth_signal_exits:
  "take_signals conf m (replicate 5 SIGINT) (0, 0) = Some (5, 5)" "take_signals conf m (replicate 6 SIGINT) (0, 0) = None"
  by (simp_all add: numeral_eq_Suc handle_signal_def SIGINT_def SIGUSR1_def SIGUSR2_def)

lemma early_signals_lost_witness:
  "\<not> main_awake 1 1"
  using early_signals_lost [of config_init ex_muxer "[SIGTERM]" 1 1 "[]" 1 1]
  by (simp add: handle_signal_def SIGTERM_def SIGUSR1_def SIGUSR2_def)

section \<open>Taking down\<close>

datatype teardown = Delete_clients | Delete_usb | Delete_wifi | Delete_config | Close_lockfile

definition muxer_destroy :: "muxer \<Rightarrow> teardown list \<times> muxer" where
  "muxer_destroy m =
     ((if mx_climgr m then [Delete_clients] else []) @ (if mx_usbdevmgr m then [Delete_usb] else [])
        @ (if mx_wifidevmgr m then [Delete_wifi] else []),
      m\<lparr>mx_climgr := False, mx_usbdevmgr := False, mx_wifidevmgr := False\<rparr>)"

text \<open>The part of \<open>main\<close> behind the label \<open>error\<close>; \<open>lfd\<close> is the descriptor of the lock file.\<close>

definition main_cleanup :: "int \<Rightarrow> startup \<Rightarrow> teardown list" where
  "main_cleanup lfd s =
     (case st_mux s of None \<Rightarrow> [] | Some m \<Rightarrow> fst (muxer_destroy m)) @ [Delete_config]
       @ (if lfd > 0 then [Close_lockfile] else [])"

text \<open>
  Clients go first, while devices still come and go; the lock is given back last, so no other instance
  starts before this one has let go of its devices.
\<close>

lemma cleanup_order:
  "lfd > 0 \<Longrightarrow> last (main_cleanup lfd s) = Close_lockfile"
  "st_mux s = Some m \<Longrightarrow> mx_climgr m \<Longrightarrow> hd (main_cleanup lfd s) = Delete_clients"
  "distinct (main_cleanup lfd s)"
  by (auto simp: main_cleanup_def muxer_destroy_def split: option.splits)

text \<open>
  A client whose request for a connection still waits for the device is held by its thread and by the
  connection; the device's manager would end the connection, but its turn comes only when the clients are gone.
\<close>

lemma waiting_client_blocks:
  assumes "(family_step True)\<^sup>*\<^sup>* (Before, no_family) (pc, f)" and "0 < fm_others f p"
    and "st_mux s = Some m" and "mx_climgr m" and "mx_usbdevmgr m"
  shows "pc \<noteq> Past \<and> (\<exists>rest. main_cleanup lfd s = Delete_clients # Delete_usb # rest)"
  using held_child_blocks [OF assms(1,2)] assms(3-5) by (simp add: main_cleanup_def muxer_destroy_def)

end
