(* ===== verification/Preflight.thy ===== *)
theory Preflight
  imports Sysconf
begin

text \<open>
  Pairing a device that was plugged in, \<^verbatim>\<open>sysconf/preflight.cpp\<close>: a script of calls of libimobiledevice,
  with what it owns and what it hands to the callback that waits for the user. The results of the calls
  are inputs; what each pointer owns is part of the state.
\<close>

section \<open>What is owned\<close>

datatype handle = H_dev | H_lockdown | H_type | H_record | H_hostid | H_version_node | H_version_str
  | H_service | H_np | H_cb

text \<open>
  \<open>Locals\<close> is a variable of \<open>preflight_device\<close> that is not null, \<open>Cb_data\<close> a member of the structure
  made for the callback, \<open>Callback\<close> what the callback has taken over.
\<close>

datatype owner = Nobody | Locals | Cb_data | Callback | Freed

record preflight =
  pf_conf :: sysconf
  pf_owner :: "handle \<Rightarrow> owner"
  pf_waiting :: bool

datatype lockdown_result =
    LOCKDOWN_SUCCESS
  | LOCKDOWN_SSL_ERROR
  | LOCKDOWN_PASSWORD_PROTECTED
  | LOCKDOWN_PAIRING_DIALOG_RESPONSE_PENDING
  | LOCKDOWN_RECEIVE_TIMEOUT
  | LOCKDOWN_USER_DENIED_PAIRING
  | LOCKDOWN_OTHER

text \<open>
  The answers of the device: \<open>None\<close> and \<open>False\<close> are error codes; a product version of \<open>Some None\<close> is a
  node that is not a string.
\<close>

record device_answers =
  da_new :: bool
  da_lockdown :: bool
  da_type :: "string option"
  da_session :: "string \<Rightarrow> lockdown_result"
  da_version :: "string option option"
  da_set_value :: bool
  da_pair :: lockdown_result
  da_service :: bool
  da_np_client :: bool
  da_malloc :: bool
  da_observe :: bool
  da_callback :: bool

definition own :: "handle \<Rightarrow> owner \<Rightarrow> (preflight, unit) act" where
  "own h w = modE (\<lambda>s. s\<lparr>pf_owner := (pf_owner s)(h := w)\<rparr>)"

definition on_pf_conf :: "(sysconf, 'a) act \<Rightarrow> (preflight, 'a) act" where
  "on_pf_conf f s = (case f (pf_conf s) of (r, c) \<Rightarrow> (r, s\<lparr>pf_conf := c\<rparr>))"

text \<open>Freeing a variable, or a member of the structure, that is not null.\<close>

definition free_at :: "owner \<Rightarrow> handle \<Rightarrow> preflight \<Rightarrow> preflight" where
  "free_at w h s = (if pf_owner s h = w then s\<lparr>pf_owner := (pf_owner s)(h := Freed)\<rparr> else s)"

section \<open>The script\<close>

definition lockdownd_set_untrusted_host_buid ::
    "'p plist_lib \<Rightarrow> (nat \<Rightarrow> nat) \<Rightarrow> device_answers \<Rightarrow> (sysconf, unit) act" where
  "lockdownd_set_untrusted_host_buid L rnd a =
     thenE (sysconf_get_system_buid L rnd) (\<lambda>_. assureE (da_set_value a) Assure_failed)"

text \<open>The stored record is tried; whether a session could be started with it.\<close>

definition stored_session :: "'p plist_lib \<Rightarrow> device_answers \<Rightarrow> string \<Rightarrow> (preflight, bool) act" where
  "stored_session L a serial s =
     (case on_pf_conf (sysconf_get_device_record L serial) s of
        (Inl e, s1) \<Rightarrow> (Inr False, s1)
      | (Inr rec, s1) \<Rightarrow>
          thenE (own H_record Locals) (\<lambda>_.
            case plist_dict_get L rec ''HostID'' of
              None \<Rightarrow> throwE Assure_failed
            | Some p \<Rightarrow> (case plist_get_string L p of
                None \<Rightarrow> throwE Assure_failed
              | Some hostid \<Rightarrow>
                  thenE (own H_hostid Locals) (\<lambda>_.
                  thenE (modE (free_at Locals H_hostid)) (\<lambda>_.
                    if da_session a hostid = LOCKDOWN_SUCCESS then okE True
                    else if da_session a hostid = LOCKDOWN_SSL_ERROR
                    then thenE (on_pf_conf (sysconf_remove_device_record L serial)) (\<lambda>_. okE False)
                    else okE False)))) s1)"

text \<open>Waiting for the user: the notification proxy and its callback.\<close>

definition wait_for_user :: "device_answers \<Rightarrow> (preflight, unit) act" where
  "wait_for_user a =
     thenE (assureE (da_service a) Assure_failed) (\<lambda>_.
     thenE (own H_service Locals) (\<lambda>_.
     thenE (assureE (da_np_client a) Assure_failed) (\<lambda>_.
     thenE (own H_np Locals) (\<lambda>_.
     thenE (assureE (da_malloc a) Assure_failed) (\<lambda>_.
     thenE (own H_cb Locals) (\<lambda>_.
     thenE (own H_dev Cb_data) (\<lambda>_.
     thenE (own H_np Cb_data) (\<lambda>_.
     thenE (assureE (da_observe a) Assure_failed) (\<lambda>_.
     thenE (assureE (da_callback a) Assure_failed) (\<lambda>_.
       modE (\<lambda>s. s\<lparr>pf_owner := (pf_owner s)(H_cb := Callback, H_dev := Callback, H_np := Callback),
                  pf_waiting := True\<rparr>)))))))))))"

text \<open>What follows the label \<open>pairing_required\<close>.\<close>

definition pairing_required :: "'p plist_lib \<Rightarrow> (nat \<Rightarrow> nat) \<Rightarrow> device_answers \<Rightarrow> (preflight, unit) act" where
  "pairing_required L rnd a =
     (case da_version a of
        None \<Rightarrow> throwE Assure_failed
      | Some node \<Rightarrow>
          thenE (own H_version_node Locals) (\<lambda>_.
          thenE (assureE (node \<noteq> None) Assure_failed) (\<lambda>_.
          thenE (own H_version_str Locals) (\<lambda>_.
          thenE (on_pf_conf (lockdownd_set_untrusted_host_buid L rnd a)) (\<lambda>_.
            if da_pair a \<in> {LOCKDOWN_SUCCESS, LOCKDOWN_PASSWORD_PROTECTED} then okE ()
            else if da_pair a \<noteq> LOCKDOWN_PAIRING_DIALOG_RESPONSE_PENDING then throwE Assure_failed
            else wait_for_user a)))))"

definition preflight_body :: "'p plist_lib \<Rightarrow> (nat \<Rightarrow> nat) \<Rightarrow> device_answers \<Rightarrow> string \<Rightarrow> (preflight, unit) act" where
  "preflight_body L rnd a serial =
     thenE (assureE (da_new a) Assure_failed) (\<lambda>_.
     thenE (own H_dev Locals) (\<lambda>_.
     thenE (assureE (da_lockdown a) Assure_failed) (\<lambda>_.
     thenE (own H_lockdown Locals) (\<lambda>_.
       case da_type a of
         None \<Rightarrow> throwE Assure_failed
       | Some lockdowntype \<Rightarrow>
           thenE (own H_type Locals) (\<lambda>_.
             if lockdowntype \<noteq> ''com.apple.mobile.lockdown'' then okE ()
             else thenE (stored_session L a serial) (\<lambda>started.
               if started then okE () else pairing_required L rnd a))))))"

text \<open>What the function frees on every way out; the structure for the callback with its members.\<close>

definition preflight_cleanup :: "preflight \<Rightarrow> preflight" where
  "preflight_cleanup s =
     (let s1 = fold (free_at Locals)
            [H_version_node, H_dev, H_lockdown, H_type, H_version_str, H_record, H_service, H_np] s
      in if pf_owner s1 H_cb = Locals then free_at Locals H_cb (fold (free_at Cb_data) [H_dev, H_np] s1) else s1)"

definition preflight_device :: "'p plist_lib \<Rightarrow> (nat \<Rightarrow> nat) \<Rightarrow> device_answers \<Rightarrow> string \<Rightarrow> (preflight, unit) act" where
  "preflight_device L rnd a serial s =
     (case preflight_body L rnd a serial s of (r, s') \<Rightarrow> (r, preflight_cleanup s'))"

definition preflight_start :: "sysconf \<Rightarrow> preflight" where
  "preflight_start c = \<lparr>pf_conf = c, pf_owner = (\<lambda>_. Nobody), pf_waiting = False\<rparr>"

section \<open>The callback\<close>

text \<open>
  A notification: an exception that would leave the callback ends the program, \<open>Trap\<close>. The first
  notification, whatever it is, takes the data of the callback with it.
\<close>

definition pairing_callback ::
    "'p plist_lib \<Rightarrow> (nat \<Rightarrow> nat) \<Rightarrow> device_answers \<Rightarrow> string \<Rightarrow> (preflight, unit) act" where
  "pairing_callback L rnd a notification s =
     (let finish = (\<lambda>s. (Inr (), s\<lparr>pf_owner := (\<lambda>h. if pf_owner s h = Callback then Freed else pf_owner s h),
                                pf_waiting := False\<rparr>))
      in if notification = [] \<or> \<not> da_lockdown a then finish s
         else if notification = ''com.apple.mobile.lockdown.request_pair'' then finish s
         else if notification = ''com.apple.mobile.lockdown.request_host_buid''
         then (case on_pf_conf (lockdownd_set_untrusted_host_buid L rnd a) s of
                 (Inl e, s1) \<Rightarrow> (Inl Trap, s1) | (Inr u, s1) \<Rightarrow> finish s1)
         else finish s)"

section \<open>Ownership\<close>

definition keeps :: "('s \<Rightarrow> bool) \<Rightarrow> ('s, 'a) act \<Rightarrow> bool" where
  "keeps P m \<longleftrightarrow> (\<forall>s. P s \<longrightarrow> P (snd (m s)))"

named_theorems keeping

lemma keeps_thenE [keeping]: "keeps P m \<Longrightarrow> (\<And>x. keeps P (k x)) \<Longrightarrow> keeps P (thenE m k)"
  unfolding keeps_def thenE_def by (auto split: prod.split sum.split)

lemma keeps_basic [keeping]:
  "keeps P (assureE b e)" "keeps P (throwE e)" "keeps P (okE x)"
  by (simp_all add: keeps_def)

text \<open>Before the callback is registered nothing belongs to it, and a member of its structure only with the structure.\<close>

definition not_waiting :: "preflight \<Rightarrow> bool" where
  "not_waiting s \<longleftrightarrow> \<not> pf_waiting s \<and> pf_owner s H_hostid \<in> {Nobody, Freed}
     \<and> (\<forall>h. pf_owner s h \<noteq> Callback \<and> (pf_owner s h = Cb_data \<longrightarrow> h \<in> {H_dev, H_np} \<and> pf_owner s H_cb = Locals))"

lemma keeps_own [keeping]:
  "h \<noteq> H_hostid \<Longrightarrow> keeps not_waiting (own h Locals)"
  by (auto simp: keeps_def own_def not_waiting_def)

lemma keeps_on_pf_conf [keeping]: "keeps not_waiting (on_pf_conf f)"
  by (auto simp: keeps_def on_pf_conf_def not_waiting_def split: prod.split)

lemma keeps_hostid [keeping]:
  "keeps not_waiting k \<Longrightarrow> keeps not_waiting (thenE (own H_hostid Locals) (\<lambda>_. thenE (modE (free_at Locals H_hostid)) (\<lambda>_. k)))"
proof -
  have "not_waiting (s\<lparr>pf_owner := (pf_owner s)(H_hostid := Freed)\<rparr>)" if "not_waiting s" for s
    using that by (auto simp: not_waiting_def)
  then show "keeps not_waiting k \<Longrightarrow> ?thesis" by (simp add: keeps_def own_def free_at_def)
qed

lemma stored_session_keeps [keeping]: "keeps not_waiting (stored_session L a serial)"
proof -
  have rest: "keeps not_waiting (thenE (own H_record Locals) (\<lambda>_.
            case plist_dict_get L rec ''HostID'' of
              None \<Rightarrow> throwE Assure_failed
            | Some p \<Rightarrow> (case plist_get_string L p of
                None \<Rightarrow> throwE Assure_failed
              | Some hostid \<Rightarrow>
                  thenE (own H_hostid Locals) (\<lambda>_.
                  thenE (modE (free_at Locals H_hostid)) (\<lambda>_.
                    if da_session a hostid = LOCKDOWN_SUCCESS then okE True
                    else if da_session a hostid = LOCKDOWN_SSL_ERROR
                    then thenE (on_pf_conf (sysconf_remove_device_record L serial)) (\<lambda>_. okE False)
                    else okE False)))))" for rec
    by (auto intro!: keeping split: option.split)
  show ?thesis
    unfolding keeps_def
  proof (intro allI impI)
    fix s assume "not_waiting s"
    then have "not_waiting (snd (on_pf_conf (sysconf_get_device_record L serial) s))"
      using keeps_on_pf_conf unfolding keeps_def by blast
    with rest show "not_waiting (snd (stored_session L a serial s))"
      by (auto simp: stored_session_def keeps_def split: prod.split sum.split)
  qed
qed

text \<open>What is owned once the script is over and before it cleans up.\<close>

definition handed_over :: "preflight \<Rightarrow> bool" where
  "handed_over s \<longleftrightarrow> not_waiting s
     \<or> pf_waiting s \<and> pf_owner s H_hostid \<in> {Nobody, Freed}
       \<and> (\<forall>h. pf_owner s h = Callback \<longleftrightarrow> h \<in> {H_dev, H_np, H_cb}) \<and> (\<forall>h. pf_owner s h \<noteq> Cb_data)"

definition leads_to :: "('s \<Rightarrow> bool) \<Rightarrow> ('s, 'a) act \<Rightarrow> ('s \<Rightarrow> bool) \<Rightarrow> bool" where
  "leads_to P m Q \<longleftrightarrow> (\<forall>s. P s \<longrightarrow> Q (snd (m s)))"

lemma leads_to_thenE:
  "keeps P m \<Longrightarrow> (\<And>s. P s \<Longrightarrow> Q s) \<Longrightarrow> (\<And>x. leads_to P (k x) Q) \<Longrightarrow> leads_to P (thenE m k) Q"
  unfolding leads_to_def keeps_def thenE_def by (auto split: prod.split sum.split)

lemma leads_to_basic:
  "(\<And>s. P s \<Longrightarrow> Q s) \<Longrightarrow> leads_to P (throwE e) Q" "(\<And>s. P s \<Longrightarrow> Q s) \<Longrightarrow> leads_to P (okE x) Q"
  by (simp_all add: leads_to_def)

lemma wait_for_user_hands_over: "leads_to not_waiting (wait_for_user a) handed_over"
  by (auto simp: leads_to_def wait_for_user_def own_def handed_over_def not_waiting_def)

lemma pairing_required_hands_over: "leads_to not_waiting (pairing_required L rnd a) handed_over"
  unfolding pairing_required_def
  by (auto intro!: leads_to_thenE keeping leads_to_basic wait_for_user_hands_over split: option.split
      simp: handed_over_def)

lemma preflight_body_hands_over: "leads_to not_waiting (preflight_body L rnd a serial) handed_over"
  unfolding preflight_body_def
  by (auto intro!: leads_to_thenE keeping leads_to_basic pairing_required_hands_over split: option.split
      simp: handed_over_def)

lemma fold_free_at:
  "w \<noteq> Freed \<Longrightarrow> pf_owner (fold (free_at w) hs s) h = (if h \<in> set hs \<and> pf_owner s h = w then Freed else pf_owner s h)
    \<and> pf_waiting (fold (free_at w) hs s) = pf_waiting s"
  by (induction hs arbitrary: s) (auto simp: free_at_def)

lemma cleanup_owner:
  "pf_owner (preflight_cleanup s) h =
     (if h \<noteq> H_hostid \<and> pf_owner s h = Locals \<or> h \<in> {H_dev, H_np} \<and> pf_owner s h = Cb_data \<and> pf_owner s H_cb = Locals
      then Freed else pf_owner s h)"
  "pf_waiting (preflight_cleanup s) = pf_waiting s"
proof -
  define hs where "hs = [H_version_node, H_dev, H_lockdown, H_type, H_version_str, H_record, H_service, H_np]"
  define ms where "ms = [H_dev, H_np]"
  define s1 where "s1 = fold (free_at Locals) hs s"
  define s2 where "s2 = fold (free_at Cb_data) ms s1"
  have s: "preflight_cleanup s = (if pf_owner s1 H_cb = Locals then free_at Locals H_cb s2 else s1)"
    by (simp add: preflight_cleanup_def s1_def s2_def hs_def ms_def Let_def)
  have "h \<in> set hs \<longleftrightarrow> h \<notin> {H_hostid, H_cb}" "h \<in> set ms \<longleftrightarrow> h \<in> {H_dev, H_np}" for h
    by (cases h; simp add: hs_def ms_def)+
  then have 1: "pf_waiting s1 = pf_waiting s" "pf_owner s1 h = (if h \<notin> {H_hostid, H_cb} \<and> pf_owner s h = Locals then Freed else pf_owner s h)"
    and 2: "pf_waiting s2 = pf_waiting s1" "pf_owner s2 h = (if h \<in> {H_dev, H_np} \<and> pf_owner s1 h = Cb_data then Freed else pf_owner s1 h)" for h
    by (simp_all add: s1_def s2_def fold_free_at)
  show "pf_waiting (preflight_cleanup s) = pf_waiting s" by (simp add: s 1 2 free_at_def)
  show "pf_owner (preflight_cleanup s) h =
     (if h \<noteq> H_hostid \<and> pf_owner s h = Locals \<or> h \<in> {H_dev, H_np} \<and> pf_owner s h = Cb_data \<and> pf_owner s H_cb = Locals
      then Freed else pf_owner s h)"
    by (cases h) (simp_all add: s 1 2 free_at_def)
qed

text \<open>
  C31: nothing is leaked and nothing freed that was handed over. However the preflight of a device ends,
  whatever the device answers, every object it obtained has been freed, except where it waits for the
  user: then the connection, the notification client and the structure with the two belong to the
  callback, and only they.
\<close>

theorem preflight_owns_nothing:
  assumes "preflight_device L rnd a serial (preflight_start c) = (r, s)"
  shows "pf_owner s h \<in> {Nobody, Freed, Callback}
    \<and> (pf_owner s h = Callback \<longleftrightarrow> pf_waiting s \<and> h \<in> {H_dev, H_np, H_cb})"
proof -
  obtain s0 where s0: "preflight_body L rnd a serial (preflight_start c) = (r, s0)" "s = preflight_cleanup s0"
    using assms by (auto simp: preflight_device_def split: prod.splits)
  have "not_waiting (preflight_start c)" by (simp add: not_waiting_def preflight_start_def)
  then have "handed_over s0" using preflight_body_hands_over s0(1) unfolding leads_to_def by (metis snd_conv)
  then have "(pf_owner s0 h = Callback \<longleftrightarrow> pf_waiting s0 \<and> h \<in> {H_dev, H_np, H_cb})
      \<and> (pf_owner s0 h = Cb_data \<longrightarrow> h \<in> {H_dev, H_np} \<and> pf_owner s0 H_cb = Locals)
      \<and> (h = H_hostid \<longrightarrow> pf_owner s0 h \<in> {Nobody, Freed})"
    by (auto simp: handed_over_def not_waiting_def)
  then show ?thesis
    by (cases "pf_owner s0 h") (auto simp: s0(2) cleanup_owner)
qed

section \<open>Records\<close>

lemma get_device_record_files:
  assumes "sysconf_get_device_record L udid s = (r, s')"
  shows "sc_files s' = sc_files s" and "sysconf_get_config_dir s' = sysconf_get_config_dir s"
  using assms by (auto simp: sysconf_get_device_record_def get_device_record_path_def thenE_def)

text \<open>What the operations used here do to the files other than the settings.\<close>

definition same_files :: "string set \<Rightarrow> sysconf \<Rightarrow> sysconf \<Rightarrow> bool" where
  "same_files ps c c' \<longleftrightarrow> sysconf_get_config_dir c' = sysconf_get_config_dir c
     \<and> (\<forall>p. p \<notin> ps \<longrightarrow> map_of (sc_files c') p = map_of (sc_files c) p)"

lemma same_files_refl [simp]: "same_files ps c c"
  by (simp add: same_files_def)

lemma same_files_trans: "same_files ps c c' \<Longrightarrow> same_files ps c' c'' \<Longrightarrow> same_files ps c c''"
  by (simp add: same_files_def)

lemma create_same_files [simp]: "same_files ps c (sysconf_create_config_dir c)"
  by (simp add: same_files_def)

lemma get_buid_same_files: "same_files {conf_file c} c (snd (sysconf_get_system_buid L rnd c))"
proof -
  let ?c = "sysconf_create_config_dir c"
  have set: "same_files {conf_file c} c (snd (sysconf_set_value L key v ?c))" for key v
    by (auto simp: sysconf_set_value_def thenE_def config_file_path writePlistToFile_def same_files_def Let_def
        update_conv' sysconf_get_config_dir_def)
  show ?thesis
    using set unfolding sysconf_get_system_buid_def get_value_run
    by (auto simp: thenE_def split: sum.splits option.splits prod.splits) (metis snd_conv)+
qed

lemma get_record_same_files: "same_files ps c (snd (sysconf_get_device_record L udid c))"
  by (simp add: sysconf_get_device_record_def get_device_record_path_def thenE_def)

lemma load_macs_same_files: "same_files ps c (snd (sysconf_load_known_macaddrs L c))"
  by (auto simp: sysconf_load_known_macaddrs_def same_files_def Let_def sysconf_get_config_dir_def)

lemma remove_record_same_files:
  "same_files {record_path (sysconf_get_config_dir c) udid} c (snd (sysconf_remove_device_record L udid c))"
proof -
  let ?p = "record_path (sysconf_get_config_dir c) udid" and ?c = "sysconf_create_config_dir c"
  have "same_files {?p} c (?c\<lparr>sc_files := AList.delete ?p (sc_files c)\<rparr>)"
    by (simp add: same_files_def delete_conv' sysconf_get_config_dir_def)
  with load_macs_same_files have "same_files {?p} c (snd (sysconf_load_known_macaddrs L (?c\<lparr>sc_files := AList.delete ?p (sc_files c)\<rparr>)))"
    by (rule same_files_trans [rotated])
  then show ?thesis
    by (simp add: sysconf_remove_device_record_def get_device_record_path_def thenE_def)
qed

definition files_from :: "string set \<Rightarrow> sysconf \<Rightarrow> preflight \<Rightarrow> bool" where
  "files_from ps c s \<longleftrightarrow> same_files ps c (pf_conf s)"

lemma files_from_conf [keeping]:
  assumes "\<And>c'. sysconf_get_config_dir c' = sysconf_get_config_dir c \<Longrightarrow> same_files ps c' (snd (f c'))"
  shows "keeps (files_from ps c) (on_pf_conf f)"
  unfolding keeps_def
proof (intro allI impI)
  fix s assume s: "files_from ps c s"
  then have "sysconf_get_config_dir (pf_conf s) = sysconf_get_config_dir c" by (simp add: files_from_def same_files_def)
  from assms [OF this] s have "same_files ps c (snd (f (pf_conf s)))"
    unfolding files_from_def by (rule same_files_trans [rotated])
  then show "files_from ps c (snd (on_pf_conf f s))" by (simp add: files_from_def on_pf_conf_def case_prod_beta)
qed

lemma files_from_own [keeping]:
  "keeps (files_from ps c) (own h w)" "keeps (files_from ps c) (modE (free_at w h))"
  by (simp_all add: keeps_def own_def free_at_def files_from_def)

lemma same_files_mono: "same_files ps c c' \<Longrightarrow> ps \<subseteq> ps' \<Longrightarrow> same_files ps' c c'"
  by (auto simp: same_files_def)

lemma set_buid_same_files:
  "same_files {conf_file c} c (snd (lockdownd_set_untrusted_host_buid L rnd a c))"
  using get_buid_same_files [of c L rnd]
  by (auto simp: lockdownd_set_untrusted_host_buid_def thenE_def split: prod.split sum.split)

definition may_change :: "device_answers \<Rightarrow> string \<Rightarrow> sysconf \<Rightarrow> string set" where
  "may_change a serial c = insert (conf_file c)
     (if \<exists>hostid. da_session a hostid = LOCKDOWN_SSL_ERROR then {record_path (sysconf_get_config_dir c) serial} else {})"

lemma stored_session_files: "keeps (files_from (may_change a serial c) c) (stored_session L a serial)"
proof -
  let ?P = "files_from (may_change a serial c) c"
  have get: "keeps ?P (on_pf_conf (sysconf_get_device_record L serial))"
    by (intro files_from_conf get_record_same_files)
  have remove: "keeps ?P (on_pf_conf (sysconf_remove_device_record L serial))"
    if "da_session a hostid = LOCKDOWN_SSL_ERROR" for hostid
    using that by (intro files_from_conf same_files_mono [OF remove_record_same_files]) (auto simp: may_change_def)
  have rest: "keeps ?P (thenE (own H_record Locals) (\<lambda>_.
            case plist_dict_get L rec ''HostID'' of
              None \<Rightarrow> throwE Assure_failed
            | Some p \<Rightarrow> (case plist_get_string L p of
                None \<Rightarrow> throwE Assure_failed
              | Some hostid \<Rightarrow>
                  thenE (own H_hostid Locals) (\<lambda>_.
                  thenE (modE (free_at Locals H_hostid)) (\<lambda>_.
                    if da_session a hostid = LOCKDOWN_SUCCESS then okE True
                    else if da_session a hostid = LOCKDOWN_SSL_ERROR
                    then thenE (on_pf_conf (sysconf_remove_device_record L serial)) (\<lambda>_. okE False)
                    else okE False)))))" for rec
    by (auto intro!: keeps_thenE keeps_basic files_from_own remove split: option.split)
  show ?thesis
    unfolding keeps_def
  proof (intro allI impI)
    fix s assume "?P s"
    with get have "?P (snd (on_pf_conf (sysconf_get_device_record L serial) s))" unfolding keeps_def by blast
    with rest show "?P (snd (stored_session L a serial s))"
      by (auto simp: stored_session_def keeps_def split: prod.split sum.split)
  qed
qed

lemma wait_for_user_files: "keeps (files_from ps c) (wait_for_user a)"
  by (auto simp: keeps_def wait_for_user_def own_def files_from_def)

lemma pairing_required_files: "keeps (files_from (may_change a serial c) c) (pairing_required L rnd a)"
proof -
  have "keeps (files_from (may_change a serial c) c) (on_pf_conf (lockdownd_set_untrusted_host_buid L rnd a))"
    by (intro files_from_conf same_files_mono [OF set_buid_same_files]) (auto simp: may_change_def conf_file_def)
  then show ?thesis
    unfolding pairing_required_def
    by (auto intro!: keeps_thenE keeps_basic files_from_own wait_for_user_files split: option.split)
qed

lemma preflight_body_files: "keeps (files_from (may_change a serial c) c) (preflight_body L rnd a serial)"
  unfolding preflight_body_def
  by (auto intro!: keeps_thenE keeps_basic files_from_own stored_session_files pairing_required_files split: option.split)

lemma cleanup_conf: "pf_conf (preflight_cleanup s) = pf_conf s"
proof -
  have "pf_conf (free_at w h s) = pf_conf s" for w h s by (simp add: free_at_def)
  then show ?thesis by (simp add: preflight_cleanup_def Let_def)
qed


section \<open>What the callback may do\<close>

text \<open>
  The callback must not throw; when the device does not accept the identifier of the host it does, and the
  program ends.
\<close>

lemma host_buid_refused_traps:
  assumes "da_lockdown a" and "\<not> da_set_value a"
  shows "fst (pairing_callback L rnd a ''com.apple.mobile.lockdown.request_host_buid'' s) = Inl Trap"
  using assms
  by (auto simp: pairing_callback_def lockdownd_set_untrusted_host_buid_def on_pf_conf_def thenE_def Let_def
      split: prod.splits sum.splits)

text \<open>After one notification, of whatever kind, nobody waits for the user any more.\<close>

lemma callback_once:
  assumes "pairing_callback L rnd a notification s = (Inr (), s')"
  shows "\<not> pf_waiting s' \<and> pf_owner s' h \<noteq> Callback"
  using assms by (auto simp: pairing_callback_def Let_def split: if_splits prod.splits sum.splits)

section \<open>Concrete runs\<close>

text \<open>A device that was never paired and asks its user.\<close>

definition ex_answers :: device_answers where
  "ex_answers = \<lparr>da_new = True, da_lockdown = True, da_type = Some ''com.apple.mobile.lockdown'',
     da_session = (\<lambda>_. LOCKDOWN_SUCCESS), da_version = Some (Some ''15.1''), da_set_value = True,
     da_pair = LOCKDOWN_PAIRING_DIALOG_RESPONSE_PENDING, da_service = True, da_np_client = True, da_malloc = True,
     da_observe = True, da_callback = True\<rparr>"

lemma preflight_owns_nothing_witness:
  "case preflight_device tree_lib (\<lambda>_. 0) ex_answers ''abc'' (preflight_start ex_conf) of (r, s) \<Rightarrow>
     pf_owner s H_lockdown \<in> {Nobody, Freed} \<and> (pf_owner s H_dev = Callback \<longleftrightarrow> pf_waiting s)"
proof -
  obtain r s where run: "preflight_device tree_lib (\<lambda>_. 0) ex_answers ''abc'' (preflight_start ex_conf) = (r, s)"
    by fastforce
  from preflight_owns_nothing [OF run, of H_lockdown] preflight_owns_nothing [OF run, of H_dev]
  show ?thesis unfolding run by auto
qed


end
