(* ===== verification/Daemon.thy ===== *)
theory Daemon
  imports Client_Manager USB_Manager MDNS_Manager Avahi_Manager
begin

text \<open>
  All components on one muxer: the clients' threads, the loop that accepts them, the managers of USB and
  WIFI devices and their reaper. Each works on the muxer through its own state; a step of the daemon is
  what one of them does to the muxer, and every such step refines the registry of \<^verbatim>\<open>Muxer_Registry\<close>.
\<close>

section \<open>What discovery does to the registry\<close>

lemma refresh_refines:
  assumes "mux_ok m" and "\<forall>d \<in> set (mx_devices m). same_identity (f d) d"
  shows "mux_ok (m\<lparr>mx_devices := map f (mx_devices m)\<rparr>) \<and> registry (m\<lparr>mx_devices := map f (mx_devices m)\<rparr>) = registry m"
proof -
  let ?m = "m\<lparr>mx_devices := map f (mx_devices m)\<rparr>"
  have same: "dv_id (f d) = dv_id d" "dv_ptr (f d) = dv_ptr d" "has_key k (f d) = has_key k d"
    if "d \<in> set (mx_devices m)" for d k
    using that assms(2) by (auto simp: same_identity_def has_key_def)
  have ids: "ids_ok m" "ids_ok ?m" using assms ids_ok_map by (auto simp: mux_ok_def)
  have "map dv_ptr (mx_devices ?m) = map dv_ptr (mx_devices m)" using same(2) by simp
  moreover have "registry ?m = registry m"
    by (rule registry_eqI [OF ids(2)]) (use same in \<open>auto simp: registry_Some [OF ids(1)]\<close>)
  ultimately show ?thesis using assms(1) ids(2) by (simp only: mux_ok_def simp_thms)
qed

lemma get_wifi_registry: "get_wifi_device_with_serial serial m = None \<Longrightarrow> registry m (serial, MUXCONN_WIFI) = None"
  by (auto simp: get_wifi_device_with_serial_def registry_def find_None_iff has_key_def)

lemma wifi_device_add_refines:
  assumes "wifi_device_add env p d n s = Some s'" and "mux_ok (dm_mux s)" and "mx_newid (dm_mux s) < MAXID"
    and "dv_conntype (wd_dev d) = MUXCONN_WIFI" and "dv_ptr (wd_dev d) = p" and "p \<notin> dv_ptr ` set (mx_devices (dm_mux s))"
    and "get_wifi_device_with_serial (dv_serial (wd_dev d)) (dm_mux s) = None"
  shows "mux_ok (dm_mux s') \<and> reg_step\<^sup>*\<^sup>* (registry (dm_mux s)) (registry (dm_mux s'))"
proof -
  have add: "add_device env (wd_dev d) n (dm_mux s) = Some (dm_mux s')"
    using assms(1) by (auto simp: wifi_device_add_def Let_def split: option.splits)
  have "dv_conntype (wd_dev d) \<in> {MUXCONN_USB, MUXCONN_WIFI}" using assms(4) by simp
  moreover have "dv_ptr (wd_dev d) \<notin> dv_ptr ` set (mx_devices (dm_mux s))" using assms(5,6) by simp
  moreover have "registry (dm_mux s) (dv_serial (wd_dev d), dv_conntype (wd_dev d)) = None"
    using get_wifi_registry [OF assms(7)] assms(4) by simp
  ultimately show ?thesis by (rule add_device_refines [OF assms(2,3) _ _ _ add])
qed

lemma wifi_found_refines:
  assumes "wifi_found env p serviceName macAddr addrs interfaceIndex s = Some s'" and "mux_ok (dm_mux s)"
    and "store_ok s" and "found_adm env serviceName macAddr s" and "p \<notin> dv_ptr ` set (mx_devices (dm_mux s))"
  shows "mux_ok (dm_mux s') \<and> reg_step\<^sup>*\<^sup>* (registry (dm_mux s)) (registry (dm_mux s'))"
proof (cases "contains PAIRING_SERVICE serviceName")
  case True
  let ?uuid = "pairing_serial (takeWhile (\<lambda>c. c \<noteq> CHR ''.'') serviceName)"
  show ?thesis
  proof (cases "have_wifi_device_with_ip addrs (dm_mux s)")
    case False
    with True assms(1) have "wifi_device_add env p (new_wifi_device p ?uuid addrs serviceName interfaceIndex) False s = Some s'"
      by (simp add: wifi_found_def Let_def)
    then show ?thesis
      using assms(2,4,5) True by (intro wifi_device_add_refines) (auto simp: new_wifi_device_def found_adm_def)
  qed (use True assms(1,2) in \<open>auto simp: wifi_found_def\<close>)
next
  case pairing: False
  obtain r c where udid: "sysconf_udid_for_macaddr (me_plist env) macAddr (dm_conf s) = (r, c)" by fastforce
  show ?thesis
  proof (cases r)
    case (Inl e)
    with pairing udid assms(1,2) show ?thesis by (auto simp: wifi_found_def)
  next
    case (Inr u)
    let ?s = "s\<lparr>dm_conf := c\<rparr>"
    show ?thesis
    proof (cases "get_wifi_device_with_serial u (dm_mux s)")
      case (Some e)
      define d where "d = ensureSession (setRediscoverOnDestruct True (updateDiscoveryInfo addrs serviceName interfaceIndex (wm_devs s (dv_ptr e))))"
      have "wd_dev (wm_devs s (dv_ptr e)) = e" "dv_conntype e = MUXCONN_WIFI"
        using Some assms(3) find_at [of _ "mx_devices (dm_mux s)" e] by (auto simp: get_wifi_device_with_serial_def store_ok_def)
      then have d: "same_identity (wd_dev d) e"
        by (simp add: d_def same_identity_def setRediscoverOnDestruct_def updateDiscoveryInfo_def Let_def)
      have "wd_dev (wm_devs s (dv_ptr x)) = x" if "x \<in> set (mx_devices (dm_mux s))" "dv_conntype x = MUXCONN_WIFI" for x
        using that assms(3) by (simp add: store_ok_def)
      with \<open>wd_dev (wm_devs s (dv_ptr e)) = e\<close> have "x = e"
        if "x \<in> set (mx_devices (dm_mux s))" "dv_conntype x = MUXCONN_WIFI" "dv_ptr x = dv_ptr e" for x
        using that by metis
      with d have "\<forall>x \<in> set (mx_devices (dm_mux s)).
          same_identity (if dv_ptr x = dv_ptr e \<and> dv_conntype x = MUXCONN_WIFI then wd_dev d else x) x"
        by (auto simp: same_identity_def)
      note refresh_refines [OF assms(2) this]
      moreover have "dm_mux s' = dm_mux (put_device (dv_ptr e) d ?s)"
        using pairing udid Inr Some assms(1) by (auto simp: wifi_found_def Let_def d_def)
      ultimately show ?thesis by (simp add: put_device_def)
    next
      case None
      define m where "m = delete_wifi_pairing_device_with_ip env addrs (dm_mux s)"
      have sub: "set (mx_devices m) \<subseteq> set (mx_devices (dm_mux s))" "mx_newid m = mx_newid (dm_mux s)"
        unfolding m_def delete_wifi_pairing_device_with_ip_def by (rule delete_first_sets)+
      have del: "mux_ok m" "reg_step\<^sup>*\<^sup>* (registry (dm_mux s)) (registry m)"
        using delete_first_refines [OF assms(2)] by (auto simp: m_def delete_wifi_pairing_device_with_ip_def)
      let ?d = "new_wifi_device p u addrs serviceName interfaceIndex"
      have add: "wifi_device_add env p ?d True (?s\<lparr>dm_mux := m\<rparr>) = Some s'"
        using pairing udid Inr None assms(1) by (simp add: wifi_found_def Let_def m_def)
      have dev: "dv_conntype (wd_dev ?d) = MUXCONN_WIFI" "dv_ptr (wd_dev ?d) = p" "dv_serial (wd_dev ?d) = u"
        using assms(4) udid Inr by (simp_all add: new_wifi_device_def found_adm_def)
      have "mx_newid m < MAXID" using assms(4) sub(2) by (simp add: found_adm_def)
      moreover have "p \<notin> dv_ptr ` set (mx_devices m)" using assms(5) sub(1) by blast
      moreover have "get_wifi_device_with_serial (dv_serial (wd_dev ?d)) m = None"
        using None sub(1) by (auto simp: dev get_wifi_device_with_serial_def find_None_iff)
      ultimately have "mux_ok (dm_mux s') \<and> reg_step\<^sup>*\<^sup>* (registry m) (registry (dm_mux s'))"
        using wifi_device_add_refines [OF add] del(1) dev(1,2) by simp
      with del(2) show ?thesis by (meson rtranclp_trans)
    qed
  qed
qed

section \<open>The daemon\<close>

text \<open>
  The managers work on one muxer and one configuration; those that are part of \<open>w_wifi\<close> are the shared
  ones, and the other managers see them when it is their turn. A backend of the WIFI manager extends
  \<open>wifi_base\<close>, so it is a parameter of the type.
\<close>

record 'z world =
  w_wifi :: "'z wifi_base_scheme"
  w_usb :: usb_manager
  w_clients :: client_manager

abbreviation w_mux :: "('z, 'y) world_scheme \<Rightarrow> muxer" where
  "w_mux w \<equiv> dm_mux (w_wifi w)"

definition set_mux :: "muxer \<Rightarrow> ('z, 'y) world_scheme \<Rightarrow> ('z, 'y) world_scheme" where
  "set_mux m w = w\<lparr>w_wifi := (w_wifi w)\<lparr>dm_mux := m\<rparr>\<rparr>"

definition on_wifi :: "('z wifi_base_scheme \<Rightarrow> 'z wifi_base_scheme) \<Rightarrow> ('z, 'y) world_scheme \<Rightarrow> ('z, 'y) world_scheme" where
  "on_wifi f w = w\<lparr>w_wifi := f (w_wifi w)\<rparr>"

definition on_daemon :: "(daemon \<Rightarrow> daemon) \<Rightarrow> ('z, 'y) world_scheme \<Rightarrow> ('z, 'y) world_scheme" where
  "on_daemon f w =
     (let d = f \<lparr>dm_mux = w_mux w, dm_conf = dm_conf (w_wifi w)\<rparr>
      in w\<lparr>w_wifi := (w_wifi w)\<lparr>dm_mux := dm_mux d, dm_conf := dm_conf d\<rparr>\<rparr>)"

definition on_clients :: "(client_manager \<Rightarrow> client_manager) \<Rightarrow> ('z, 'y) world_scheme \<Rightarrow> ('z, 'y) world_scheme" where
  "on_clients f w =
     (let c = f ((w_clients w)\<lparr>dm_mux := w_mux w, dm_conf := dm_conf (w_wifi w)\<rparr>)
      in w\<lparr>w_clients := c, w_wifi := (w_wifi w)\<lparr>dm_mux := dm_mux c, dm_conf := dm_conf c\<rparr>\<rparr>)"

definition on_usb :: "(usb_manager \<Rightarrow> usb_manager) \<Rightarrow> ('z, 'y) world_scheme \<Rightarrow> ('z, 'y) world_scheme" where
  "on_usb f w = (let u = f ((w_usb w)\<lparr>um_mux := w_mux w\<rparr>) in set_mux (um_mux u) (w\<lparr>w_usb := u\<rparr>))"

text \<open>
  One turn of one thread: of a client, of the loop that accepts clients, of libusb's events and a USB
  device that has shaken hands or left, of the discovery, a session, the reaper, or a preflight, which
  changes the configuration only. A device that is new has a place in memory of its own.
\<close>

inductive world_step :: "'p mux_env \<Rightarrow> ('z wifi_base_scheme \<Rightarrow> 'z wifi_base_scheme)
    \<Rightarrow> ('z, 'y) world_scheme \<Rightarrow> ('z, 'y) world_scheme \<Rightarrow> bool" for env restart where
  Client_turn: "world_step env restart w (on_daemon (\<lambda>d. snd (client_loopEvent env rnd p gots d)) w)"
| Client_end: "world_step env restart w (on_daemon (client_afterLoop p) w)"
| Accept: "world_step env restart w (on_clients (\<lambda>c. snd (cm_loopEvent env i c)) w)"
| Hotplug: "world_step env restart w (on_usb (usb_hotplug_cb env pktbuf ld event) w)"
| Langid: "world_step env restart w (on_usb (usb_get_langid_callback x status data submits) w)"
| Serial: "world_step env restart w (on_usb (\<lambda>u. snd (usb_get_serial_callback lib x status data starts u)) w)"
| USB_ready: "mx_newid (w_mux w) < MAXID \<Longrightarrow> dv_conntype dev = MUXCONN_USB \<Longrightarrow> dv_ptr dev \<notin> dv_ptr ` set (mx_devices (w_mux w))
    \<Longrightarrow> registry (w_mux w) (dv_serial dev, MUXCONN_USB) = None \<Longrightarrow> add_device env dev notify (w_mux w) = Some m
    \<Longrightarrow> world_step env restart w (set_mux m w)"
| USB_gone: "d \<in> set (mx_devices (w_mux w)) \<Longrightarrow> world_step env restart w (set_mux (delete_device env d (w_mux w)) w)"
| Found: "found_adm env serviceName macAddr (w_wifi w) \<Longrightarrow> p \<notin> dv_ptr ` set (mx_devices (w_mux w))
    \<Longrightarrow> wifi_found env p serviceName macAddr addrs interfaceIndex (w_wifi w) = Some s
    \<Longrightarrow> world_step env restart w (w\<lparr>w_wifi := s\<rparr>)"
| Removed: "world_step env restart w (on_wifi (wifi_removed env ty name) w)"
| Session: "world_step env restart w (on_wifi (device_thread_step p i) w)"
| Calls: "world_step env restart w (on_wifi (make_calls restart) w)"
| Reaper: "world_step env restart w (on_wifi (reaper_runloop env restart iss) w)"
| Destroy: "world_step env restart w (on_wifi (wifi_destroy is p) w)"
| Preflight: "world_step env restart w (on_wifi (\<lambda>s. s\<lparr>dm_conf := c\<rparr>) w)"

definition world_ok :: "('z, 'y) world_scheme \<Rightarrow> bool" where
  "world_ok w \<longleftrightarrow> mux_ok (w_mux w) \<and> store_ok (w_wifi w) \<and> construction_ok (w_usb w)"

text \<open>A step that refines the registry and keeps the world in order.\<close>

definition refining :: "muxer \<Rightarrow> muxer \<Rightarrow> bool" where
  "refining m m' \<longleftrightarrow> mux_ok m' \<and> reg_step\<^sup>*\<^sup>* (registry m) (registry m')"

lemma refining_same: "mux_ok m \<Longrightarrow> mx_devices m' = mx_devices m \<Longrightarrow> mx_newid m' = mx_newid m \<Longrightarrow> refining m m'"
  using mux_ok_cong [of m' m] registry_cong [of m' m] by (simp add: refining_def)

lemma refining_trans: "refining m m1 \<Longrightarrow> refining m1 m2 \<Longrightarrow> refining m m2"
  by (auto simp: refining_def)

lemma refining_erase:
  assumes "mux_ok m"
  shows "refining m (delete_device env d m)"
proof (cases "\<exists>e \<in> set (mx_devices m). dv_ptr e = dv_ptr d")
  case True
  then obtain e where e: "e \<in> set (mx_devices m)" "dv_ptr e = dv_ptr d" by blast
  with erase_refines [OF assms e(1)] show ?thesis
    by (auto simp: refining_def delete_device_def notify_device_remove_def notify_refines)
next
  case False
  then have "filter (\<lambda>e. dv_ptr e \<noteq> dv_ptr d) (mx_devices m) = mx_devices m" by (auto simp: filter_id_conv)
  with assms show ?thesis
    by (intro refining_same) (simp_all add: delete_device_def notify_device_remove_def erase_device_def)
qed

lemma store_ok_subset:
  "store_ok s \<Longrightarrow> set (mx_devices (dm_mux s')) \<subseteq> set (mx_devices (dm_mux s))
   \<Longrightarrow> (\<And>p. wd_dev (wm_devs s' p) = wd_dev (wm_devs s p)) \<Longrightarrow> store_ok s'"
  by (auto simp: store_ok_def)

section \<open>What every step keeps\<close>

lemma thread_step_dev [simp]: "wd_dev (thread_step cfg i d) = wd_dev d"
proof (cases "wd_session d")
  case (Some ss)
  obtain ss' d' where s: "session_step cfg i (ss, d) = (ss', d')" by fastforce
  with session_step_frame(1) [OF s] Some show ?thesis by (auto simp: thread_step_def)
qed (simp add: thread_step_def)

lemma refining_refl: "mux_ok m \<Longrightarrow> refining m m"
  by (simp add: refining_def)

lemma refining_ok: "refining m m' \<Longrightarrow> mux_ok m'"
  by (simp add: refining_def)

definition wifi_keeps :: "'z wifi_base_scheme \<Rightarrow> 'z wifi_base_scheme \<Rightarrow> bool" where
  "wifi_keeps s s' \<longleftrightarrow> refining (dm_mux s) (dm_mux s') \<and> store_ok s'"

lemma wifi_keeps_trans: "wifi_keeps s s1 \<Longrightarrow> wifi_keeps s1 s2 \<Longrightarrow> wifi_keeps s s2"
  using refining_trans by (auto simp: wifi_keeps_def)

lemma wifi_keeps_frame:
  assumes "mux_ok (dm_mux s)" and "store_ok s" and "mx_devices (dm_mux s') = mx_devices (dm_mux s)"
    and "mx_newid (dm_mux s') = mx_newid (dm_mux s)" and "\<And>p. wd_dev (wm_devs s' p) = wd_dev (wm_devs s p)"
  shows "wifi_keeps s s'"
  using assms refining_same store_ok_subset [of s s'] by (simp add: wifi_keeps_def)

lemma found_keeps:
  assumes "wifi_found env p serviceName macAddr addrs interfaceIndex s = Some s'" and "mux_ok (dm_mux s)" and "store_ok s"
    and "found_adm env serviceName macAddr s" and "p \<notin> dv_ptr ` set (mx_devices (dm_mux s))"
  shows "wifi_keeps s s'"
proof -
  have "found_ok s" using assms(2,3) by (simp add: found_ok_def mux_ok_def)
  from wifi_found_ok [OF this assms(4), of p addrs interfaceIndex] assms(1) have "store_ok s'" by (simp add: found_ok_def)
  with wifi_found_refines [OF assms] show ?thesis by (simp add: wifi_keeps_def refining_def)
qed

lemma removed_keeps:
  assumes "mux_ok (dm_mux s)" and "store_ok s"
  shows "wifi_keeps s (wifi_removed env ty name s)"
proof -
  let ?m = "delete_wifi_device_with_serial env (pairing_serial name) (dm_mux s)"
  have "refining (dm_mux s) ?m"
    using delete_first_refines [OF assms(1)] by (simp add: refining_def delete_wifi_device_with_serial_def)
  moreover have "store_ok (s\<lparr>dm_mux := ?m\<rparr>)"
    using delete_first_sets(1) by (intro store_ok_subset [OF assms(2)]) (auto simp: delete_wifi_device_with_serial_def)
  ultimately show ?thesis
    using assms refining_refl by (auto simp: wifi_keeps_def wifi_removed_def split: option.split)
qed

text \<open>
  The backends' \<open>request_restart\<close> sets flags and wakes the discovery up; the devices are not its business.
\<close>

locale wifi_restart =
  fixes restart :: "'z wifi_base_scheme \<Rightarrow> 'z wifi_base_scheme"
  assumes restart_mux: "dm_mux (restart s) = dm_mux s" and restart_devs: "wm_devs (restart s) = wm_devs s"
begin

lemma request_frame:
  "dm_mux (request_rediscovery restart s) = dm_mux s" "wm_devs (request_rediscovery restart s) = wm_devs s"
  by (simp_all add: request_rediscovery_def restart_mux restart_devs)

lemma call_frame:
  "dm_mux (wifi_call restart c s) = dm_mux s \<and> wd_dev (wm_devs (wifi_call restart c s) p) = wd_dev (wm_devs s p)"
  by (cases c) (auto simp: request_frame device_kill_def requestSessionReconnectNow_def setRediscoverOnDestruct_def
      split: option.split)

lemma calls_frame:
  "dm_mux (fold (wifi_call restart) cs s) = dm_mux s
    \<and> wd_dev (wm_devs (fold (wifi_call restart) cs s) p) = wd_dev (wm_devs s p)"
  by (induction cs arbitrary: s) (simp_all add: call_frame)

lemma calls_keep: "mux_ok (dm_mux s) \<Longrightarrow> store_ok s \<Longrightarrow> wifi_keeps s (make_calls restart s)"
  by (rule wifi_keeps_frame) (simp_all add: make_calls_def calls_frame)

lemma deconstruct_keeps:
  assumes "mux_ok (dm_mux s)" and "store_ok s"
  shows "wifi_keeps s (wifi_deconstruct env restart is p s)"
proof -
  let ?s = "wifi_deconstruct env restart is p s"
  have m: "dm_mux ?s = delete_device env (wd_dev (wm_devs s p)) (dm_mux s)"
    and devs: "wd_dev (wm_devs ?s q) = wd_dev (wm_devs s q)" for q
    by (simp_all add: wifi_deconstruct_def Let_def request_frame)
  have "store_ok ?s"
    using devs m by (intro store_ok_subset [OF assms(2)])
      (auto simp: delete_device_def notify_device_remove_def erase_device_def)
  with m refining_erase [OF assms(1)] show ?thesis by (simp add: wifi_keeps_def)
qed

lemma reaper_keeps: "mux_ok (dm_mux s) \<Longrightarrow> store_ok s \<Longrightarrow> wifi_keeps s (reaper_runloop env restart iss s)"
proof (induction iss arbitrary: s)
  case (Cons "is" iss)
  show ?case
  proof (cases "wm_reap s")
    case (Cons p ps)
    let ?s = "s\<lparr>wm_reap := ps\<rparr>"
    have popped: "wifi_keeps s ?s" by (rule wifi_keeps_frame [OF Cons.prems]) simp_all
    define t where "t = wifi_deconstruct env restart is p ?s"
    have "wifi_keeps ?s t"
      unfolding t_def using popped refining_ok by (intro deconstruct_keeps) (auto simp: wifi_keeps_def)
    with popped have t: "wifi_keeps s t" using wifi_keeps_trans by blast
    then have "mux_ok (dm_mux t)" "store_ok t" using refining_ok by (auto simp: wifi_keeps_def)
    from wifi_keeps_trans [OF t Cons.IH [OF this]] Cons show ?thesis by (simp add: t_def)
  qed (use Cons.prems in \<open>simp add: wifi_keeps_def refining_refl\<close>)
qed (simp add: wifi_keeps_def refining_refl)

end

lemma wifi_step_ok:
  "world_ok w \<Longrightarrow> wifi_keeps (w_wifi w) (f (w_wifi w)) \<Longrightarrow> refining (w_mux w) (w_mux (on_wifi f w)) \<and> world_ok (on_wifi f w)"
  by (auto simp: world_ok_def on_wifi_def wifi_keeps_def refining_ok)

lemma set_mux_ok:
  "world_ok w \<Longrightarrow> refining (w_mux w) m \<Longrightarrow> construction_ok u
   \<Longrightarrow> (\<And>d. d \<in> set (mx_devices m) \<Longrightarrow> dv_conntype d = MUXCONN_WIFI \<Longrightarrow> d \<in> set (mx_devices (w_mux w)))
   \<Longrightarrow> refining (w_mux w) (w_mux (set_mux m (w\<lparr>w_usb := u\<rparr>))) \<and> world_ok (set_mux m (w\<lparr>w_usb := u\<rparr>))"
  by (auto simp: world_ok_def set_mux_def refining_ok store_ok_def)

lemma daemon_ok:
  assumes "world_ok w" and "mx_devices (dm_mux d) = mx_devices (w_mux w)" and "mx_newid (dm_mux d) = mx_newid (w_mux w)"
    and "w_wifi w' = (w_wifi w)\<lparr>dm_mux := dm_mux d, dm_conf := dm_conf d\<rparr>" and "w_usb w' = w_usb w"
  shows "refining (w_mux w) (w_mux w') \<and> world_ok w'"
proof -
  have "wifi_keeps (w_wifi w) (w_wifi w')"
    using assms by (intro wifi_keeps_frame) (simp_all add: world_ok_def)
  then show ?thesis
    using assms(1,5) refining_ok [of "w_mux w" "w_mux w'"] by (simp add: wifi_keeps_def world_ok_def)
qed

lemma usb_ok:
  assumes "world_ok w" and "usb_step env ((w_usb w)\<lparr>um_mux := w_mux w\<rparr>) u" and "refining (w_mux w) (um_mux u)"
    and "set (mx_devices (um_mux u)) \<subseteq> set (mx_devices (w_mux w))" and "u = f ((w_usb w)\<lparr>um_mux := w_mux w\<rparr>)"
  shows "refining (w_mux w) (w_mux (on_usb f w)) \<and> world_ok (on_usb f w)"
proof -
  have "construction_ok ((w_usb w)\<lparr>um_mux := w_mux w\<rparr>)" using assms(1) by (simp add: world_ok_def construction_ok_def)
  from usb_step_ok [OF assms(2) this] have "construction_ok u" .
  from set_mux_ok [OF assms(1,3) this] assms(4,5) show ?thesis by (auto simp: on_usb_def Let_def)
qed

lemma device_add_mux: "um_mux (snd (device_add pktbuf ld u)) = um_mux u"
proof -
  have conf: "um_mux t = um_mux s" if "set_configuration ld desc c s = (q, t)" for desc c s q t
    using that by (auto simp: set_configuration_def Let_def split: if_splits option.splits)
  have start: "um_mux (snd (start_construction pktbuf ld desc found s)) = um_mux s" for desc found s
    by (simp add: start_construction_def add_constructing_def Let_def split: prod.split)
  show ?thesis
    by (auto simp: device_add_def Let_def thenE_def start split: option.split prod.split sum.split dest: conf)
qed

lemma hotplug_ok:
  assumes "world_ok w"
  shows "refining (w_mux w) (w_mux (on_usb (usb_hotplug_cb env pktbuf ld event) w)) \<and> world_ok (on_usb (usb_hotplug_cb env pktbuf ld event) w)"
proof -
  let ?u = "(w_usb w)\<lparr>um_mux := w_mux w\<rparr>"
  let ?u' = "usb_hotplug_cb env pktbuf ld event ?u"
  have mux: "mux_ok (w_mux w)" using assms by (simp add: world_ok_def)
  have added: "um_mux (snd (device_add pktbuf ld ?u)) = w_mux w" by (simp add: device_add_mux)
  have "refining (w_mux w) (um_mux ?u')"
    using added mux delete_first_refines [OF mux]
    by (cases event) (simp_all add: usb_hotplug_cb_def refining_def delete_device_at_def)
  moreover have "set (mx_devices (um_mux ?u')) \<subseteq> set (mx_devices (w_mux w))"
  proof (cases event)
    case DEVICE_LEFT
    then show ?thesis using delete_first_sets(1) by (fastforce simp: usb_hotplug_cb_def delete_device_at_def)
  qed (simp_all add: usb_hotplug_cb_def added)
  ultimately show ?thesis using usb_ok [OF assms usb_step.hotplug] by blast
qed

lemma callback_ok:
  assumes "world_ok w" and "\<And>u. usb_step env u (f u)" and "\<And>u. um_mux (f u) = um_mux u"
  shows "refining (w_mux w) (w_mux (on_usb f w)) \<and> world_ok (on_usb f w)"
proof -
  let ?u = "(w_usb w)\<lparr>um_mux := w_mux w\<rparr>"
  have mux: "um_mux (f ?u) = w_mux w" "mux_ok (w_mux w)" using assms by (simp_all add: world_ok_def)
  show ?thesis
    by (rule usb_ok [of w env "f ?u"]) (simp_all add: mux refining_refl assms)
qed

lemma callback_mux:
  "um_mux (usb_get_langid_callback x status data submits u) = um_mux u"
  "um_mux (snd (usb_get_serial_callback lib x status data starts u)) = um_mux u"
  by (simp_all add: usb_get_langid_callback_def usb_get_serial_callback_def end_construction_def
      del_constructing_def Let_def split: option.split)

lemma accept_frame:
  "mx_devices (dm_mux (snd (cm_loopEvent env i c))) = mx_devices (dm_mux c)
   \<and> mx_newid (dm_mux (snd (cm_loopEvent env i c))) = mx_newid (dm_mux c)"
  by (auto simp: cm_loopEvent_def handle_client_def Let_def dest: add_client_sets(3,4) split: sum.split prod.split)

lemma usb_added_ok:
  assumes "world_ok w" and "mx_newid (w_mux w) < MAXID" and "dv_conntype dev = MUXCONN_USB"
    and "dv_ptr dev \<notin> dv_ptr ` set (mx_devices (w_mux w))" and "registry (w_mux w) (dv_serial dev, MUXCONN_USB) = None"
    and "add_device env dev notify (w_mux w) = Some m"
  shows "refining (w_mux w) (w_mux (set_mux m w)) \<and> world_ok (set_mux m w)"
proof -
  have mux: "mux_ok (w_mux w)" using assms(1) by (simp add: world_ok_def)
  then have ref: "refining (w_mux w) m"
    unfolding refining_def using assms(2-6) by (intro add_device_refines) auto
  from assms(6) obtain dev' m1 where id: "assign_id dev (w_mux w) = Some (dev', m1)"
    by (auto simp: add_device_def split: option.splits)
  have "dv_conntype dev' = MUXCONN_USB"
  proof -
    have "dv_conntype (dev\<lparr>dv_id := i\<rparr>) = dv_conntype dev" for i by simp
    with assign_id_dev(1) [OF id] assms(3) show ?thesis by metis
  qed
  moreover obtain m0 where "add_device env dev notify (w_mux w) = Some m0"
    and "set (mx_devices m0) \<subseteq> set (mx_devices (insert_device dev' m1))" using add_device_run [OF id] by blast
  with assms(6) have sub: "set (mx_devices m) \<subseteq> set (mx_devices (insert_device dev' m1))" by simp
  ultimately have "d \<in> set (mx_devices (w_mux w))" if "d \<in> set (mx_devices m)" "dv_conntype d = MUXCONN_WIFI" for d
    using that sub by (auto simp: insert_device_set assign_id_dev(2) [OF id])
  with set_mux_ok [OF assms(1) ref, of "w_usb w"] assms(1) show ?thesis by (simp add: world_ok_def)
qed

context wifi_restart
begin

lemma world_step_keeps:
  assumes "world_step env restart w w'" and "world_ok w"
  shows "refining (w_mux w) (w_mux w') \<and> world_ok w'"
proof -
  have ok: "mux_ok (w_mux w)" "store_ok (w_wifi w)" "construction_ok (w_usb w)" using assms(2) by (auto simp: world_ok_def)
  from assms(1) show ?thesis
  proof (cases rule: world_step.cases)
    case (Client_turn rnd p gots)
    let ?d = "\<lparr>dm_mux = w_mux w, dm_conf = dm_conf (w_wifi w)\<rparr>"
    have "same_sets ?d (snd (client_loopEvent env rnd p gots ?d))"
      using loopEvent_sets by (metis prod.exhaust snd_conv)
    with Client_turn show ?thesis
      by (intro daemon_ok [OF assms(2), of "snd (client_loopEvent env rnd p gots ?d)"])
        (simp_all add: same_sets_def on_daemon_def Let_def)
  next
    case (Client_end p)
    then show ?thesis
      by (intro daemon_ok [OF assms(2), of "client_afterLoop p \<lparr>dm_mux = w_mux w, dm_conf = dm_conf (w_wifi w)\<rparr>"])
        (simp_all add: client_afterLoop_def delete_client_def call_def on_daemon_def Let_def)
  next
    case (Accept i)
    let ?c = "snd (cm_loopEvent env i ((w_clients w)\<lparr>dm_mux := w_mux w, dm_conf := dm_conf (w_wifi w)\<rparr>))"
    show ?thesis
      using accept_frame [of env i "(w_clients w)\<lparr>dm_mux := w_mux w, dm_conf := dm_conf (w_wifi w)\<rparr>"] Accept
      by (intro daemon_ok [OF assms(2), of "daemon.truncate ?c"])
        (simp_all add: on_clients_def daemon.defs Let_def)
  next
    case (Hotplug pktbuf ld event)
    then show ?thesis using hotplug_ok [OF assms(2)] by simp
  next
    case (Langid x status data submits)
    then show ?thesis using callback_ok [OF assms(2) usb_step.langid] callback_mux by simp
  next
    case (Serial lib x status data starts)
    then show ?thesis using callback_ok [OF assms(2) usb_step.serial] callback_mux by simp
  next
    case (USB_ready dev notify m)
    then show ?thesis using usb_added_ok [OF assms(2)] by blast
  next
    case (USB_gone d)
    have "set (mx_devices (delete_device env d (w_mux w))) \<subseteq> set (mx_devices (w_mux w))"
      by (auto simp: delete_device_def notify_device_remove_def erase_device_def)
    with set_mux_ok [OF assms(2) refining_erase [OF ok(1)] ok(3)] USB_gone show ?thesis by auto
  next
    case (Found serviceName macAddr p addrs interfaceIndex s)
    then show ?thesis
      using wifi_step_ok [OF assms(2), of "\<lambda>_. s"] found_keeps [OF Found(4) ok(1,2) Found(2,3)] by (simp add: on_wifi_def)
  next
    case (Removed ty name)
    then show ?thesis using wifi_step_ok [OF assms(2)] removed_keeps [OF ok(1,2)] by blast
  next
    case (Session p i)
    have "wifi_keeps (w_wifi w) (device_thread_step p i (w_wifi w))"
      by (rule wifi_keeps_frame [OF ok(1,2)]) (simp_all add: device_thread_step_def Let_def)
    with Session show ?thesis using wifi_step_ok [OF assms(2)] by blast
  next
    case Calls
    then show ?thesis using wifi_step_ok [OF assms(2)] calls_keep [OF ok(1,2)] by blast
  next
    case (Reaper iss)
    then show ?thesis using wifi_step_ok [OF assms(2)] reaper_keeps [OF ok(1,2)] by blast
  next
    case (Destroy "is" p)
    have "wifi_keeps (w_wifi w) (wifi_destroy is p (w_wifi w))"
      by (rule wifi_keeps_frame [OF ok(1,2)]) (simp_all add: wifi_destroy_def Let_def)
    with Destroy show ?thesis using wifi_step_ok [OF assms(2)] by blast
  next
    case (Preflight c)
    have "wifi_keeps (w_wifi w) ((w_wifi w)\<lparr>dm_conf := c\<rparr>)" by (rule wifi_keeps_frame [OF ok(1,2)]) simp_all
    with Preflight show ?thesis using wifi_step_ok [OF assms(2), of "\<lambda>s. s\<lparr>dm_conf := c\<rparr>"] by blast
  qed
qed

lemma world_run:
  assumes "(world_step env restart)\<^sup>*\<^sup>* w w'" and "world_ok w"
  shows "refining (w_mux w) (w_mux w') \<and> world_ok w'"
  using assms(1)
proof (induction rule: rtranclp_induct)
  case base
  then show ?case using assms(2) by (simp add: world_ok_def refining_refl)
next
  case (step w1 w2)
  with world_step_keeps [OF step.hyps(2)] refining_trans show ?case by blast
qed

end

section \<open>The daemon refines a registry\<close>

interpretation mdns_world: wifi_restart mdns_request_restart
  by unfold_locales (simp_all add: mdns_request_restart_def Let_def)

interpretation avahi_world: wifi_restart avahi_request_restart
  by unfold_locales (simp_all add: avahi_request_restart_def Let_def)

definition started :: "('z, 'y) world_scheme \<Rightarrow> bool" where
  "started w \<longleftrightarrow> (\<exists>heap pre heartless retry. w_mux w = new_muxer heap pre heartless retry)
     \<and> (\<exists>m. w_usb w = new_usb_manager m)"

lemma started_ok:
  assumes "started w"
  shows "world_ok w" and "registry (w_mux w) = (\<lambda>_. None)"
  using assms new_usb_manager_ok
  by (auto simp: started_def world_ok_def mux_ok_def ids_ok_def new_muxer_def registry_def MAXID_def fun_eq_iff store_ok_def)

lemma world_facts:
  assumes "refining m0 (w_mux w)" and "world_ok w" and "registry m0 = (\<lambda>_. None)"
  shows "reg_step\<^sup>*\<^sup>* (\<lambda>_. None) (registry (w_mux w))
    \<and> (\<forall>d \<in> set (mx_devices (w_mux w)). \<forall>e \<in> set (mx_devices (w_mux w)). dv_id d = dv_id e \<longrightarrow> d = e)
    \<and> (\<forall>d \<in> set (mx_devices (w_mux w)). dv_conntype d = MUXCONN_WIFI \<longrightarrow> wd_dev (wm_devs (w_wifi w) (dv_ptr d)) = d)
    \<and> um_constructing (w_usb w) = ucast ` set (map pending_address (um_pending (w_usb w)))"
proof -
  have reg: "reg_step\<^sup>*\<^sup>* (\<lambda>_. None) (registry (w_mux w))" using assms(1,3) by (simp add: refining_def)
  have ids: "ids_ok (w_mux w)" using assms(2) by (simp add: world_ok_def mux_ok_def)
  have "d = e" if d: "d \<in> set (mx_devices (w_mux w))" "e \<in> set (mx_devices (w_mux w))" "dv_id d = dv_id e" for d e
  proof -
    let ?k = "(dv_serial d, dv_conntype d)" and ?l = "(dv_serial e, dv_conntype e)"
    have "registry (w_mux w) ?k = Some (dv_id d)" "registry (w_mux w) ?l = Some (dv_id d)"
      using d by (auto simp: registry_Some [OF ids] has_key_def)
    then have "?k = ?l" by (rule reg_ok_unique [OF reg_steps_ok [OF reg]])
    then have "has_key ?k d" "has_key ?k e" by (auto simp: has_key_def)
    with has_key_unique [OF ids d(1,2)] show "d = e" by blast
  qed
  with reg assms(2) show ?thesis by (simp add: world_ok_def store_ok_def construction_ok_def)
qed


text \<open>So it does with Avahi.\<close>

lemma avahi_daemon_refines_registry:
  assumes "(world_step env avahi_request_restart)\<^sup>*\<^sup>* w w'" and "started w"
  shows "reg_step\<^sup>*\<^sup>* (\<lambda>_. None) (registry (w_mux w'))
    \<and> (\<forall>d \<in> set (mx_devices (w_mux w')). \<forall>e \<in> set (mx_devices (w_mux w')). dv_id d = dv_id e \<longrightarrow> d = e)"
  using avahi_world.world_run [OF assms(1) started_ok(1) [OF assms(2)]] started_ok(2) [OF assms(2)]
    world_facts [of "w_mux w" w'] by blast

definition ex_world :: "unit mdns_manager_ext world" where
  "ex_world = \<lparr>w_wifi = ex_mdns\<lparr>dm_mux := new_muxer (\<lambda>_. ex_client) False False False\<rparr>,
     w_usb = new_usb_manager ex_muxer, w_clients = ex_managed\<rparr>"


end
