(* ===== verification/Log.thy ===== *)
theory Log
  imports Mux_Prelude
begin

text \<open>
  The log, \<^verbatim>\<open>log.c\<close>: levels, the choice between the system log and the standard streams, and the format string
  that \<open>usbmuxd_log\<close> builds in a buffer of its own before it hands it on.
\<close>

section \<open>State\<close>

datatype loglevel = LL_FATAL | LL_ERROR | LL_WARNING | LL_INFO | LL_NOTICE | LL_DEBUG

fun level_code :: "loglevel \<Rightarrow> nat" where
  "level_code LL_FATAL = 0"
| "level_code LL_ERROR = 1"
| "level_code LL_WARNING = 2"
| "level_code LL_INFO = 3"
| "level_code LL_NOTICE = 4"
| "level_code LL_DEBUG = 5"

datatype log_sink = To_syslog nat | To_stdout | To_stderr

text \<open>
  \<open>lg_level\<close> is \<open>log_level\<close>, \<open>lg_opened\<close> counts how often \<open>openlog\<close> was called without a \<open>closelog\<close>.
\<close>

record logger =
  lg_syslog :: bool
  lg_level :: nat
  lg_opened :: nat
  lg_out :: "(log_sink \<times> string) list"

definition log_enable_syslog :: "logger \<Rightarrow> logger" where
  "log_enable_syslog l =
     (if \<not> lg_syslog l then l\<lparr>lg_opened := Suc (lg_opened l), lg_syslog := True\<rparr> else l)"

definition log_disable_syslog :: "logger \<Rightarrow> logger" where
  "log_disable_syslog l =
     (if lg_syslog l then l\<lparr>lg_opened := lg_opened l - 1, lg_syslog := False\<rparr> else l)"

definition LOG_CRIT :: nat where "LOG_CRIT = 2"
definition LOG_DEBUG :: nat where "LOG_DEBUG = 7"

definition level_to_syslog_level :: "nat \<Rightarrow> nat" where
  "level_to_syslog_level level =
     (let result = level + LOG_CRIT in if result > LOG_DEBUG then LOG_DEBUG else result)"

section \<open>Writing a line\<close>

text \<open>
  A buffer from \<open>malloc\<close>: a string is written with its terminator and an access beyond the end is undefined.
\<close>

definition write_at :: "nat \<Rightarrow> string \<Rightarrow> (nat \<times> string, unit) act" where
  "write_at k str b = (case b of (cap, text) \<Rightarrow>
     if k \<le> length text \<and> k + length str + 1 \<le> cap then (Inr (), (cap, take k text @ str)) else (Inl Trap, b))"

text \<open>\<^verbatim>\<open>%03d\<close> pads with zeros to three digits.\<close>

definition dec03 :: "nat \<Rightarrow> string" where
  "dec03 n = (let s = to_string n in replicate (3 - length s) (CHR ''0'') @ s)"

definition pad2 :: "nat \<Rightarrow> string" where
  "pad2 n = [''0123456789'' ! (n div 10 mod 10), ''0123456789'' ! (n mod 10)]"

record log_time =
  lt_hour :: nat
  lt_minute :: nat
  lt_second :: nat
  lt_usec :: nat

definition newline :: string where "newline = [char_of (10 :: nat)]"

text \<open>What the two branches write into the buffer.\<close>

definition syslog_format :: "nat \<Rightarrow> string \<Rightarrow> string" where
  "syslog_format level fmt = ''['' @ to_string level @ ''] '' @ fmt @ newline"

definition clock :: "log_time \<Rightarrow> string" where
  "clock t = ''['' @ pad2 (lt_hour t) @ '':'' @ pad2 (lt_minute t) @ '':'' @ pad2 (lt_second t)"

definition stream_format :: "log_time \<Rightarrow> nat \<Rightarrow> string \<Rightarrow> string" where
  "stream_format t level fmt =
     ''.'' @ dec03 (lt_usec t div 1000) @ ''][''  @ to_string level @ ''] '' @ fmt @ newline"

definition log_format :: "bool \<Rightarrow> log_time \<Rightarrow> nat \<Rightarrow> string \<Rightarrow> unit res \<times> (nat \<times> string)" where
  "log_format syslog t level fmt =
     (if syslog then write_at 0 (syslog_format level fmt) (20 + length fmt, [])
      else thenE (write_at 0 (clock t)) (\<lambda>_. write_at 9 (stream_format t level fmt)) (20 + length fmt, []))"

text \<open>
  \<open>usbmuxd_log\<close>: \<open>got\<close> says whether the buffer could be allocated, \<open>render\<close> is what \<open>vfprintf\<close> makes of a
  format and the arguments.
\<close>

definition usbmuxd_log :: "bool \<Rightarrow> log_time \<Rightarrow> (string \<Rightarrow> string) \<Rightarrow> loglevel \<Rightarrow> string \<Rightarrow> (logger, unit) act" where
  "usbmuxd_log got t render level fmt l =
     (if \<not> level_code level \<le> lg_level l then (Inr (), l)
      else if \<not> got then (Inr (), l)
      else case log_format (lg_syslog l) t (level_code level) fmt of
        (Inl e, b) \<Rightarrow> (Inl e, l)
      | (Inr u, (cap, fs)) \<Rightarrow>
          let sink = (if lg_syslog l then To_syslog (level_to_syslog_level (level_code level))
                      else if level_code level > level_code LL_WARNING then To_stdout else To_stderr)
          in (Inr (), l\<lparr>lg_out := lg_out l @ [(sink, render fs)]\<rparr>))"

section \<open>Lines fit\<close>

lemma level_code_bound: "level_code level \<le> 5"
  by (cases level) simp_all

lemma dec03_length: "n < 1000 \<Longrightarrow> length (dec03 n) = 3"
  using length_to_string [of n] by (simp add: dec03_def Let_def)

lemma clock_length: "length (clock t) = 9"
  by (simp add: clock_def pad2_def)

lemma stream_format_length:
  "lt_usec t < 1000000 \<Longrightarrow> level < 10 \<Longrightarrow> length (stream_format t level fmt) = 10 + length fmt"
  by (simp add: stream_format_def dec03_length to_string_small newline_def less_mult_imp_div_less)

lemma syslog_format_length: "level < 10 \<Longrightarrow> length (syslog_format level fmt) = 5 + length fmt"
  by (simp add: syslog_format_def to_string_small newline_def)

lemma log_format_fits:
  assumes "lt_usec t < 1000000" and "level < 10"
  shows "log_format syslog t level fmt =
    (Inr (), (20 + length fmt, if syslog then syslog_format level fmt else clock t @ stream_format t level fmt))"
  using stream_format_length [OF assms] syslog_format_length [OF assms(2)] clock_length [of t]
  by (simp add: log_format_def write_at_def thenE_def)

text \<open>
  C36: log lines fit into their buffer. Whatever the format string, the level and the time of day, the line
  with its time, its level and its terminator is written inside the 20 bytes the code adds to the length of
  the format, and on the standard streams it takes every one of them; the line goes to exactly one sink, lines above the
  chosen level to none.
\<close>

theorem log_line_fits:
  assumes "lt_usec t < 1000000"
  shows "usbmuxd_log True t render level fmt l =
    (Inr (), if level_code level \<le> lg_level l
       then l\<lparr>lg_out := lg_out l @ [(if lg_syslog l then To_syslog (level_code level + 2)
           else if level \<in> {LL_FATAL, LL_ERROR, LL_WARNING} then To_stderr else To_stdout,
         render (if lg_syslog l then syslog_format (level_code level) fmt
                 else clock t @ stream_format t (level_code level) fmt))]\<rparr> else l)
    \<and> length (clock t @ stream_format t (level_code level) fmt) + 1 = 20 + length fmt"
proof -
  have code: "level_code level < 10" using level_code_bound [of level] by simp
  have "level_to_syslog_level (level_code level) = level_code level + 2"
    using level_code_bound [of level] by (simp add: level_to_syslog_level_def LOG_CRIT_def LOG_DEBUG_def)
  moreover have "level_code level > level_code LL_WARNING \<longleftrightarrow> level \<notin> {LL_FATAL, LL_ERROR, LL_WARNING}"
    by (cases level) simp_all
  ultimately show ?thesis
    using log_format_fits [OF assms code, of "lg_syslog l" fmt] stream_format_length [OF assms code] clock_length [of t]
    by (simp add: usbmuxd_log_def)
qed

lemma log_line_fits_witness:
  "\<exists>l. usbmuxd_log True \<lparr>lt_hour = 23, lt_minute = 59, lt_second = 60, lt_usec = 999999\<rparr> id LL_ERROR ''x''
      \<lparr>lg_syslog = False, lg_level = 3, lg_opened = 0, lg_out = []\<rparr> = (Inr (), l)
    \<and> lg_out l = [(To_stderr, ''[23:59:60.999][1] x'' @ newline)]"
proof -
  let ?t = "\<lparr>lt_hour = 23, lt_minute = 59, lt_second = 60, lt_usec = 999999\<rparr>"
  have "lt_usec ?t < 1000000" by simp
  from log_line_fits [OF this, of id LL_ERROR "''x''" "\<lparr>lg_syslog = False, lg_level = 3, lg_opened = 0, lg_out = []\<rparr>"]
  show ?thesis
    by (simp add: clock_def stream_format_def pad2_def dec03_def to_string.simps Let_def char_of_def)
qed

text \<open>The system log is opened at most once, and closed as often.\<close>

lemma syslog_once:
  assumes "lg_opened l = (if lg_syslog l then 1 else 0)"
  shows "lg_opened (log_enable_syslog l) = 1" and "lg_opened (log_disable_syslog l) = 0"
  using assms by (simp_all add: log_enable_syslog_def log_disable_syslog_def)

end
