(* ===== verification/Connecting.thy ===== *)
theory Connecting
  imports USB_Device Client_Commands
begin

text \<open>
  A connection from the request to its end: \<open>start_connect\<close> of \<^verbatim>\<open>Devices/USBDevice.cpp\<close> with \<open>connect\<close> of
  \<^verbatim>\<open>TCP.cpp\<close> on the model's own device, bus and client, and who closes the descriptor of the client in the end.
\<close>

section \<open>Connecting\<close>

text \<open>What \<open>connect\<close> does with the client.\<close>

definition client_side :: "'p plist_lib \<Rightarrow> socket \<Rightarrow> client client_ops" where
  "client_side L sock = \<lparr>cl_result_ok = (\<lambda>c. send_result L sock (cl_connectTag c) (result_code RESULT_OK) c),
     cl_take_fd = (\<lambda>c. (cl_fd c, c\<lparr>cl_fd := -1\<rparr>))\<rparr>"

text \<open>
  The whole method; \<open>meanwhile\<close> is what the other threads do to the connection and its device until
  the event \<open>connect\<close> waits for.
\<close>

definition tcp_connect ::
    "'d tcp_dev_ops \<Rightarrow> 'c client_ops \<Rightarrow> (tcp \<times> 'd \<Rightarrow> tcp \<times> 'd) \<Rightarrow> (tcp \<times> 'd \<times> 'c, cn_pc) act" where
  "tcp_connect ops cops meanwhile s =
     (case connect_step ops cops CN_start s of
        (Inl e, s1) \<Rightarrow> (Inl e, s1)
      | (Inr pc, (t, d, c)) \<Rightarrow>
          (case meanwhile (t, d) of
             (t2, d2) \<Rightarrow>
               thenE (connect_step ops cops pc) (\<lambda>pc2. thenE (connect_step ops cops pc2) (connect_step ops cops)) (t2, d2, c)))"

text \<open>
  \<open>start_connect\<close>, with the connection it made; a connection is an object of its own, of which the map of the
  device holds a reference.
\<close>

definition start_connect ::
    "(nat \<Rightarrow> u8) \<Rightarrow> u32 \<Rightarrow> libusb_env \<Rightarrow> client client_ops \<Rightarrow> (tcp \<times> usbdev \<Rightarrow> tcp \<times> usbdev) \<Rightarrow> u16
      \<Rightarrow> (tcp option \<times> usbdev \<times> client, unit) act" where
  "start_connect mem rnd uenv cops meanwhile dport = (\<lambda>(none, d, c).
     case add_connection mem rnd dport d of
       (Inl e, d1) \<Rightarrow> (Inl e, (none, d1, c))
     | (Inr sp, d1) \<Rightarrow>
         (case tcp_connect (usb_ops uenv) cops meanwhile (new_tcp mem rnd sp dport, d1, c) of
            (Inl e, (t, d2, c2)) \<Rightarrow> (Inl e, (Some t, d2, c2))
          | (Inr pc, (t, d2, c2)) \<Rightarrow> (Inr (), (Some t, d2, c2))))"

section \<open>Descriptors\<close>

record descriptors =
  fd_shut :: "int list"
  fd_closed :: "int list"

definition tcp_stopAction :: "tcp \<Rightarrow> descriptors \<Rightarrow> descriptors" where
  "tcp_stopAction t f = (if tc_fd t \<noteq> -1 then f\<lparr>fd_shut := fd_shut f @ [tc_fd t]\<rparr> else f)"

definition client_stopAction :: "client \<Rightarrow> descriptors \<Rightarrow> descriptors" where
  "client_stopAction c f = (if cl_fd c > 0 then f\<lparr>fd_shut := fd_shut f @ [cl_fd c]\<rparr> else f)"

text \<open>\<open>safeClose\<close> of libgeneral closes a descriptor that is not -1 and forgets it.\<close>

definition safeClose :: "int \<Rightarrow> descriptors \<Rightarrow> int \<times> descriptors" where
  "safeClose fd f = (if fd \<noteq> -1 then (-1, f\<lparr>fd_closed := fd_closed f @ [fd]\<rparr>) else (fd, f))"

text \<open>
  The destructor of \<open>TCP\<close>. Of the destructor of \<open>Client\<close> the ends, around what it does to the set of its manager; \<open>running\<close>
  is whether its thread runs.
\<close>

definition tcp_destroy :: "tcp \<Rightarrow> descriptors \<Rightarrow> tcp \<times> descriptors" where
  "tcp_destroy t f =
     (let f1 = (if tc_running t then tcp_stopAction t f else f);
          (fd, f2) = safeClose (tc_fd t) f1
      in (t\<lparr>tc_running := False, tc_payloadBuf := (\<lambda>_. 0), tc_fd := fd\<rparr>, f2))"

definition client_ends :: "bool \<Rightarrow> client \<Rightarrow> descriptors \<Rightarrow> client \<times> descriptors" where
  "client_ends running c f =
     (let f1 = (if running then client_stopAction c f else f);
          (fd, f2) = safeClose (cl_fd c) f1
      in (c\<lparr>cl_fd := fd, cl_mem := (\<lambda>_. 0)\<rparr>, f2))"

section \<open>What connecting does\<close>

lemma send_tcp_fd: "send_tcp ops flags (t, d) = (r, (t', d')) \<Longrightarrow> tc_fd t' = tc_fd t \<and> tc_running t' = tc_running t"
  by (auto simp: send_tcp_def tcp_emit_def upd_stx_def Let_def split: prod.splits)

lemma send_result_out: "send_result L sock tag code c = (r, c') \<Longrightarrow> \<exists>ex. c' = c\<lparr>cl_out := cl_out c @ ex\<rparr>"
  by (auto simp: send_result_def send_plist_pkt_def split: if_splits dest: send_pkt_out)

text \<open>The four ways \<open>connect\<close> ends.\<close>

lemma tcp_connect_cases:
  assumes "tcp_connect ops (client_side L sock) meanwhile (t, d, c) = (r, (t', d', c'))"
  obtains (syn) e where "send_tcp ops TH_SYN (t, d) = (Inl e, (t', d'))" "r = Inl e" "c' = c"
    | (refused) t1 d1 where "send_tcp ops TH_SYN (t, d) = (Inr (), (t1, d1))" "meanwhile (t1, d1) = (t', d')"
        "tc_state t' \<noteq> CONN_CONNECTED" "r = Inl Connect_failed" "c' = c"
    | (unanswered) t1 d1 e where "send_tcp ops TH_SYN (t, d) = (Inr (), (t1, d1))" "meanwhile (t1, d1) = (t', d')"
        "tc_state t' = CONN_CONNECTED" "send_result L sock (cl_connectTag c) (result_code RESULT_OK) c = (Inl e, c')" "r = Inl e"
    | (connected) t1 d1 t2 c2 where "send_tcp ops TH_SYN (t, d) = (Inr (), (t1, d1))" "meanwhile (t1, d1) = (t2, d')"
        "tc_state t2 = CONN_CONNECTED" "send_result L sock (cl_connectTag c) (result_code RESULT_OK) c = (Inr (), c2)"
        "r = Inr CN_done" "t' = t2\<lparr>tc_fd := cl_fd c2, tc_running := True\<rparr>" "c' = c2\<lparr>cl_fd := -1\<rparr>"
proof -
  obtain r1 t1 d1 where s: "send_tcp ops TH_SYN (t, d) = (r1, (t1, d1))" by (metis prod.exhaust)
  obtain t2 d2 where m: "meanwhile (t1, d1) = (t2, d2)" by fastforce
  obtain r2 c2 where o: "send_result L sock (cl_connectTag c) (result_code RESULT_OK) c = (r2, c2)" by fastforce
  show thesis
  proof (cases r1)
    case (Inl e)
    with assms s that(1) show ?thesis by (simp add: tcp_connect_def)
  next
    case (Inr u)
    note run = s [unfolded Inr]
    show ?thesis
    proof (cases "tc_state t2 = CONN_CONNECTED")
      case False
      with assms run m that(2) show ?thesis by (simp add: tcp_connect_def thenE_def)
    next
      case True
      show ?thesis
      proof (cases r2)
        case (Inl e)
        with True assms run m o that(3) show ?thesis by (simp add: tcp_connect_def thenE_def client_side_def)
      next
        case (Inr v)
        with True assms run m o that(4) show ?thesis by (simp add: tcp_connect_def thenE_def client_side_def)
      qed
    qed
  qed
qed

lemma send_result_fd: "send_result L sock tag code c = (r, c') \<Longrightarrow> cl_fd c' = cl_fd c"
  by (auto dest: send_result_out)

definition dispose :: "tcp option \<Rightarrow> descriptors \<Rightarrow> descriptors" where
  "dispose t f = (case t of None \<Rightarrow> f | Some t \<Rightarrow> snd (tcp_destroy t f))"

lemma closed_by_destructors:
  "fd_closed (dispose t f) = fd_closed f @ (case t of None \<Rightarrow> [] | Some t \<Rightarrow> if tc_fd t = -1 then [] else [tc_fd t])"
  "fd_closed (snd (client_ends running c f)) = fd_closed f @ (if cl_fd c = -1 then [] else [cl_fd c])"
  by (simp_all add: dispose_def tcp_destroy_def client_ends_def safeClose_def tcp_stopAction_def client_stopAction_def
      split: option.split)

lemma start_connect_cases:
  assumes "start_connect mem rnd uenv (client_side L sock) meanwhile dport (None, d, c) = (r, (t', d', c'))"
  obtains (none) e where "add_connection mem rnd dport d = (Inl e, d')" "r = Inl e" "t' = None" "c' = c"
    | (conn) sp d1 rc t where "add_connection mem rnd dport d = (Inr sp, d1)" "t' = Some t"
        "tcp_connect (usb_ops uenv) (client_side L sock) meanwhile (new_tcp mem rnd sp dport, d1, c) = (rc, (t, d', c'))"
        "r = map_sum id (\<lambda>_. ()) rc"
  using assms by (auto simp: start_connect_def split: prod.splits sum.splits)

text \<open>
  C12: the descriptor of a client has one owner. A request that succeeds hands the descriptor to the
  connection, whose loop then runs on it, and takes it from the client; one that fails, at whatever point, leaves it
  with the client and the connection without one. So it is closed exactly once when both
  destructors have run, in either order.
\<close>

theorem descriptor_has_one_owner:
  assumes "start_connect mem rnd uenv (client_side L sock) meanwhile dport (None, d, c) = (r, (t', d', c'))"
    and "cl_fd c \<ge> 0"
    and "\<forall>t d. tc_fd (fst (meanwhile (t, d))) = tc_fd t \<and> tc_running (fst (meanwhile (t, d))) = tc_running t"
  shows "(r = Inr () \<longrightarrow> cl_fd c' = -1 \<and> (\<exists>t. t' = Some t \<and> tc_fd t = cl_fd c \<and> tc_running t))
    \<and> (r \<noteq> Inr () \<longrightarrow> cl_fd c' = cl_fd c \<and> (\<forall>t. t' = Some t \<longrightarrow> tc_fd t = -1 \<and> \<not> tc_running t))
    \<and> fd_closed (snd (client_ends running c' (dispose t' f))) = fd_closed f @ [cl_fd c]
    \<and> fd_closed (dispose t' (snd (client_ends running c' f))) = fd_closed f @ [cl_fd c]"
proof -
  have "(r = Inr () \<longrightarrow> cl_fd c' = -1 \<and> (\<exists>t. t' = Some t \<and> tc_fd t = cl_fd c \<and> tc_running t))
    \<and> (r \<noteq> Inr () \<longrightarrow> cl_fd c' = cl_fd c \<and> (\<forall>t. t' = Some t \<longrightarrow> tc_fd t = -1 \<and> \<not> tc_running t))"
    using assms(1)
  proof (cases rule: start_connect_cases)
    case (none e)
    then show ?thesis by simp
  next
    case (conn sp d1 rc t)
    have new: "tc_fd (new_tcp mem rnd sp dport) = -1" "\<not> tc_running (new_tcp mem rnd sp dport)" by (simp_all add: new_tcp_def)
    have mw: "tc_fd y = tc_fd x" "tc_running y = tc_running x" if "meanwhile (x, a) = (y, b)" for x y a b
      using assms(3) that by (metis fst_conv)+
    from conn(3) show ?thesis
    proof (cases rule: tcp_connect_cases)
      case (syn e)
      with send_tcp_fd [OF syn(1)] new conn show ?thesis by simp
    next
      case (refused t1 dd)
      with send_tcp_fd [OF refused(1)] mw [OF refused(2)] new conn show ?thesis by simp
    next
      case (unanswered t1 dd e)
      with send_tcp_fd [OF unanswered(1)] mw [OF unanswered(2)] send_result_fd [OF unanswered(4)] new conn show ?thesis by simp
    next
      case (connected t1 dd t2 c2)
      with send_result_fd [OF connected(4)] conn show ?thesis by simp
    qed
  qed
  then show ?thesis using assms(2) by (cases "r = Inr ()"; cases t') (auto simp: closed_by_destructors)
qed


section \<open>The devices the muxer knows\<close>

text \<open>
  What \<open>start_connect\<close> of a device is for the muxer: a device in the network cannot be connected to, a USB device is
  taken from \<open>devs\<close>, the state of all devices at the time of the request.
\<close>

definition device_connect ::
    "(nat \<Rightarrow> u8) \<Rightarrow> u32 \<Rightarrow> libusb_env \<Rightarrow> (tcp \<times> usbdev \<Rightarrow> tcp \<times> usbdev) \<Rightarrow> (nat \<Rightarrow> usbdev) \<Rightarrow> 'p plist_lib \<Rightarrow> socket
      \<Rightarrow> device \<Rightarrow> u16 \<Rightarrow> (client, unit) act" where
  "device_connect mem rnd uenv meanwhile devs L sock dev dport c =
     (case dv_conntype dev of
        MUXCONN_USB \<Rightarrow> (case start_connect mem rnd uenv (client_side L sock) meanwhile dport (None, devs (dv_ptr dev), c) of
                          (r, (t, d, c')) \<Rightarrow> (r, c'))
      | _ \<Rightarrow> (Inl Not_implemented, c))"


section \<open>Concrete runs\<close>

text \<open>The device answers the first segment, on a receiver's thread, while \<open>connect\<close> waits.\<close>

definition ex_synack :: tcphdr where
  "ex_synack = tcphdr_zero\<lparr>th_flags := TH_SYN OR TH_ACK, th_seq := 100, th_ack := 11, th_win := 512\<rparr>"

definition ex_meanwhile :: "tcp \<times> usbdev \<Rightarrow> tcp \<times> usbdev" where
  "ex_meanwhile s = snd (handle_input_step (usb_ops USB_Link.ex_env) (\<lambda>_ _ bs. int (length bs)) 0 ex_synack [] HI_enter s)"

lemma ex_meanwhile_keeps:
  "tc_fd (fst (ex_meanwhile (t, d))) = tc_fd t \<and> tc_running (fst (ex_meanwhile (t, d))) = tc_running t"
  by (cases "tc_state t")
    (auto simp: ex_meanwhile_def ex_synack_def hi_handshake_def send_ack_nolock_def tcp_emit_def upd_stx_def tcp_kill_def
        TH_SYN_def TH_ACK_def TH_RST_def Let_def split: prod.splits sum.splits if_splits)

lemma ex_port: "add_connection (\<lambda>_. 0) 10 62078 ex_dev = (Inr 6, ex_dev\<lparr>ud_nextPort := 6, ud_conns := [(5, ex_tcp), (6, new_tcp (\<lambda>_. 0) 10 6 62078)]\<rparr>)"
  by (simp add: add_connection_def ex_dev_eval MAX_CONNS_def find_port.simps)

definition ex_working :: "usbdev \<Rightarrow> bool" where
  "ex_working d \<longleftrightarrow> md_version (ul_muxdev d) = 2 \<and> ul_wMaxPacketSize d = 512"

lemma ex_send:
  assumes "ex_working d"
  obtains d' where "send_packet USB_Link.ex_env MUX_PROTO_TCP [] (Some h) d = (Inr (), d')" "ex_working d'"
  using assms by (simp add: send_packet_eval USB_Link.ex_env_def ex_working_def)

lemma ex_answered:
  assumes "ex_working d" and "tc_state t = CONN_CONNECTING" and "stx_acked (tc_stx t) \<noteq> 101"
  obtains t' d' where "ex_meanwhile (t, d) = (t', d')" "tc_state t' = CONN_CONNECTED"
proof -
  let ?t = "upd_stx (\<lambda>s. s\<lparr>stx_seq := stx_seq s + 1, stx_ack := 101, stx_inWin := scaled_window ex_synack, stx_pktForwarded := 101\<rparr>) t"
  obtain d' where "send_packet USB_Link.ex_env MUX_PROTO_TCP [] (Some (tcp_header ?t TH_ACK (stx_seq (tc_stx ?t)))) d = (Inr (), d')"
    using ex_send [OF assms(1)] by blast
  then show ?thesis
    using that assms(2,3)
    by (simp add: ex_meanwhile_def hi_handshake_def send_ack_nolock_def tcp_emit_def usb_ops_def ex_synack_def Let_def upd_stx_def
        split: if_splits)
qed

lemma ex_started:
  "\<exists>t d c. start_connect (\<lambda>_. 0) 10 USB_Link.ex_env (client_side (me_plist ex_mux_env) ex_socket) ex_meanwhile 62078
     (None, ex_dev, ex_client) = (Inr (), (t, d, c))"
proof -
  let ?d = "ex_dev\<lparr>ud_nextPort := 6, ud_conns := [(5, ex_tcp), (6, new_tcp (\<lambda>_. 0) 10 6 62078)]\<rparr>"
  let ?t = "new_tcp (\<lambda>_. 0) 10 6 62078"
  have "ex_working ?d" by (simp add: ex_working_def ex_dev_eval)
  then obtain d1 where d1: "send_packet USB_Link.ex_env MUX_PROTO_TCP [] (Some (tcp_header ?t TH_SYN (stx_seq (tc_stx ?t)))) ?d = (Inr (), d1)"
    and w: "ex_working d1" by (rule ex_send)
  let ?t1 = "upd_stx (\<lambda>s. s\<lparr>stx_acked := stx_ack s\<rparr>) ?t"
  have syn: "send_tcp (usb_ops USB_Link.ex_env) TH_SYN (?t, ?d) = (Inr (), (?t1, d1))"
    using d1 by (simp add: send_tcp_def tcp_emit_def usb_ops_def Let_def)
  obtain t2 d2 where m: "ex_meanwhile (?t1, d1) = (t2, d2)" "tc_state t2 = CONN_CONNECTED"
    by (rule ex_answered [OF w, of ?t1]) (simp_all add: upd_stx_def new_tcp_def)
  have "\<exists>c. send_result (me_plist ex_mux_env) ex_socket 0 (result_code RESULT_OK) ex_client = (Inr (), c)"
    by (simp add: send_result_def send_pkt_def writeData_def sock_send_def ex_socket_def ex_client_def new_client_def Let_def)
  then obtain c where c: "send_result (me_plist ex_mux_env) ex_socket (cl_connectTag ex_client) (result_code RESULT_OK) ex_client = (Inr (), c)"
    by (auto simp: ex_client_def new_client_def)
  show ?thesis
    using m c by (simp add: start_connect_def ex_port tcp_connect_def syn thenE_def client_side_def)
qed

lemma descriptor_has_one_owner_witness:
  "\<exists>t d c. start_connect (\<lambda>_. 0) 10 USB_Link.ex_env (client_side (me_plist ex_mux_env) ex_socket) ex_meanwhile 62078
     (None, ex_dev, ex_client) = (Inr (), (t, d, c))
   \<and> cl_fd c = -1 \<and> fd_closed (snd (client_ends True c (dispose t \<lparr>fd_shut = [], fd_closed = []\<rparr>))) = [9]"
proof -
  obtain t d c where run: "start_connect (\<lambda>_. 0) 10 USB_Link.ex_env (client_side (me_plist ex_mux_env) ex_socket) ex_meanwhile 62078
     (None, ex_dev, ex_client) = (Inr (), (t, d, c))" using ex_started by blast
  have fd: "cl_fd ex_client = 9" by (simp add: ex_client_def new_client_def)
  have "\<forall>t d. tc_fd (fst (ex_meanwhile (t, d))) = tc_fd t \<and> tc_running (fst (ex_meanwhile (t, d))) = tc_running t"
    using ex_meanwhile_keeps by blast
  from descriptor_has_one_owner [OF run _ this, of True "\<lparr>fd_shut = [], fd_closed = []\<rparr>"] fd run show ?thesis by auto
qed

text \<open>
  A client that is gone when the answer is due: the connection stays with the device, established, and nobody asked to close it.
\<close>

definition ex_deaf :: socket where "ex_deaf fd taken data = -1"

lemma unanswered_connection_stays:
  "\<exists>e t d c. start_connect (\<lambda>_. 0) 10 USB_Link.ex_env (client_side (me_plist ex_mux_env) ex_deaf) (\<lambda>(t, d). (t\<lparr>tc_state := CONN_CONNECTED\<rparr>, d)) 62078
     (None, ex_dev, ex_client) = (Inl e, (Some t, d, c))
   \<and> tc_state t = CONN_CONNECTED \<and> map_of (ud_conns d) 6 \<noteq> None \<and> ul_reapConnections d = [] \<and> \<not> link_condemned d"
proof -
  let ?d = "ex_dev\<lparr>ud_nextPort := 6, ud_conns := [(5, ex_tcp), (6, new_tcp (\<lambda>_. 0) 10 6 62078)]\<rparr>"
  let ?t = "new_tcp (\<lambda>_. 0) 10 6 62078" and ?h = "tcp_header (new_tcp (\<lambda>_. 0) 10 6 62078) TH_SYN 10"
  have "ex_working ?d" by (simp add: ex_working_def ex_dev_eval)
  then obtain d1 where d1: "send_packet USB_Link.ex_env MUX_PROTO_TCP [] (Some ?h) ?d = (Inr (), d1)" by (rule ex_send)
  have reap: "ul_reapConnections d1 = []" using send_packet_reap [OF d1] by (simp add: ex_dev_eval)
  have "usblink.more d1 = usblink.more ?d" by (rule send_packet_more [OF d1])
  then have conns: "ud_conns d1 = ud_conns ?d"
    by (metis usbdev.select_convs(2) usbdev.surjective usblink.select_convs(8) usblink.surjective)
  have "\<not> link_condemned d1"
    using d1 by (simp add: send_packet_eval USB_Link.ex_env_def ex_dev_eval link_condemned_def) auto
  moreover have "send_tcp (usb_ops USB_Link.ex_env) TH_SYN (?t, ?d) = (Inr (), (upd_stx (\<lambda>s. s\<lparr>stx_acked := stx_ack s\<rparr>) ?t, d1))"
    using d1 by (simp add: send_tcp_def tcp_emit_def usb_ops_def Let_def new_tcp_def)
  moreover obtain c where "send_result (me_plist ex_mux_env) ex_deaf (cl_connectTag ex_client) (result_code RESULT_OK) ex_client = (Inl Send_failed, c)"
    by (simp add: send_result_def send_pkt_def writeData_def sock_send_def ex_deaf_def ex_client_def new_client_def Let_def struct_sizes)
  ultimately show ?thesis
    using reap conns by (simp add: start_connect_def ex_port tcp_connect_def thenE_def client_side_def upd_stx_def new_tcp_def)
qed


definition ex_usb_device :: device where
  "ex_usb_device = (hd (mx_devices ex_muxer))\<lparr>dv_conntype := MUXCONN_USB\<rparr>"


end
