(* ===== verification/Spec2Isabelle.thy ===== *)
theory Spec2Isabelle
  imports TCP_Sender Shutdown Preflight Daemon Log Connecting
begin

text \<open>
  usbmuxd2 is a daemon that lets local programs (clients) open TCP connections to ports of iOS devices that are
  attached by USB or found in the network. This development models its sources under
  \<^verbatim>\<open>src/usbmuxd2\<close> in executable definitions, one theory per component, and proves what makes each component
  correct. Paths below are relative to that directory.

  \<^bold>\<open>Parts of the program and how they interact.\<close> \<^verbatim>\<open>main.cpp\<close> reads options, detaches, takes the instance
  lock and starts the managers. \<^verbatim>\<open>Manager/ClientManager.cpp\<close> accepts clients; each client
  (\<^verbatim>\<open>Client.cpp\<close>) has a thread that gathers messages and answers them through the muxer (\<^verbatim>\<open>Muxer.cpp\<close>) and
  the configuration store (\<^verbatim>\<open>sysconf/sysconf.cpp\<close>). \<^verbatim>\<open>Manager/USBDeviceManager.cpp\<close> takes up USB devices; a
  device (\<^verbatim>\<open>Devices/USBDevice.cpp\<close>, \<^verbatim>\<open>Devices/USBDevice_receiver.cpp\<close>) speaks the mux protocol, in which every
  connection a client asked for is a TCP stream (\<^verbatim>\<open>TCP.cpp\<close>) of its own.
  \<^verbatim>\<open>Manager/WIFIDeviceManager-mDNS.cpp\<close> and \<^verbatim>\<open>Manager/WIFIDeviceManager-avahi.cpp\<close> find devices in the network,
  whose heartbeat a session keeps (\<^verbatim>\<open>Devices/WIFIDevice.cpp\<close>, \<^verbatim>\<open>Devices/WIFIConnectionSession.cpp\<close>). The muxer
  knows all devices and clients and tells the clients of devices that come and go; a device that comes is paired
  by \<^verbatim>\<open>sysconf/preflight.cpp\<close>.

  \<^bold>\<open>Which theory holds what.\<close>
  \<^item> \<open>Mux_Prelude\<close>: integers of the C++ code as words, the exceptions as values of \<open>muxerr\<close>, the
    state-and-exception sequencing \<open>thenE\<close> of \<open>('s, 'a) act\<close>, byte order, and shared facts. An exception
    leaves the state as it was where it was thrown: that is how leaked locks and half-done updates show.
  \<^item> \<open>Wire_Format\<close>: the headers of \<^verbatim>\<open>usbmuxd2-proto.h\<close> and \<^verbatim>\<open>Devices/USBDevice.hpp\<close> and their bytes.
  \<^item> \<open>USB_Link\<close>: \<open>send_packet\<close> and the transfers; what is on the bus reads back as what was sent, and the transmit
    numbers are consecutive. \<open>USB_Device\<close>: received transfers, the handshake, the order of packets among the
    receivers, ports, the reaper and \<open>deconstruct\<close>.
  \<^item> \<open>Link_Interface\<close>: the locale \<open>tcp_link\<close>, what a connection needs of its device; interpreted as \<open>usb\<close> in
    \<open>USB_Link\<close> on \<open>send_packet\<close> and \<open>addReapConnection\<close>.
  \<^item> \<open>TCP_Conn\<close>: every method of \<open>TCP\<close>, cut where it takes or gives back a lock or waits for an event.
    \<open>TCP_System\<close>: the interleavings of these sections by all threads of a connection (\<open>conn_step\<close>), with the invariant
    of the stream towards the client. \<open>TCP_Sender\<close>: the same for the stream towards the device.
  \<^item> \<open>Plist_Lib\<close>: libplist as a record of functions with its documented laws (\<open>plist_laws\<close>), and a
    concrete instance that satisfies them. \<open>Sysconf\<close>: records, settings and the cache of MAC addresses on a list of files.
  \<^item> \<open>Muxer\<close>: devices, identifiers, notifications and lists. \<open>Muxer_Registry\<close>: the abstract registry and the
    refinement of it by the muxer.
  \<^item> \<open>Client\<close>: gathering and sending. \<open>Client_Commands\<close>: \<open>processData\<close> with all commands and the client's thread.
    \<open>Client_Manager\<close>: the accept loop, reaping and the end of the service.
  \<^item> \<open>Connecting\<close>: \<open>start_connect\<close> with the whole of \<open>connect\<close> on the modelled device, bus and client, the owner of the
    client's descriptor, and the device's part of what the muxer takes as a parameter.
  \<^item> \<open>USB_Manager\<close>: hotplug, the choice of an interface, the two control transfers of a construction and the
    receive transfers.
  \<^item> \<open>WIFI_Session\<close>: a device in the network with its session's thread as a machine whose steps are the stretches
    between two waits or library calls. \<open>WIFI_Manager\<close>: what both discoveries do with a service, the reaper and the calls of the
    muxer. \<open>WIFI_Backend\<close>: the locale \<open>wifi_backend\<close>, a handler of events that ends and keeps the devices in order;
    interpreted as \<open>mdns\<close> in \<open>MDNS_Manager\<close> and as \<open>avahi\<close> in \<open>Avahi_Manager\<close>, the two discoveries with
    their loops and restarts.
  \<^item> \<open>Preflight\<close>: the pairing script as a program over what it owns, and its effect on the records.
  \<^item> \<open>Startup\<close>: the command line over the configuration, the instance lock, detaching, privileges and the ends of \<open>main\<close>.
  \<^item> \<open>Daemon\<close>: all managers on one muxer and one configuration; a step of the daemon is one turn of one thread. The
    locale \<open>wifi_restart\<close> is what the reaper needs of a backend's restart, interpreted on both backends.
  \<^item> \<open>Children\<close>: the clients or devices of a manager as reference-counted objects. \<open>own_step\<close> are the steps of the
    reaper, of destructors and of the destructor of the manager, \<open>env_step\<close> what the rest of the daemon does with
    references; every manager waits for its objects in the same way.
  \<^item> \<open>Client_Lifetime\<close>, \<open>USB_Lifetime\<close>, \<open>WIFI_Lifetime\<close>: constructors, \<open>stopAction\<close> and destructors of the
    managers; \<open>USB_Lifetime\<close> also holds the constructor, the receivers and the destructor of a USB device, with
    \<open>body_step\<close> for the life of its receive transfers. \<open>WIFI_Lifetime\<close> maps a manager to a family of \<open>Children\<close>.
  \<^item> \<open>Shutdown\<close>: signal handlers, what \<open>main\<close> waits for, and the clean-up with the destructor of the muxer.
    \<open>Log\<close>: \<^verbatim>\<open>log.c\<close>.

  \<^bold>\<open>What the lemmas show.\<close> Invariants by induction over runs: of a connection (bytes reach the client and the device once,
  complete and in order), of identifiers and ports, of the devices under construction, of a session. Functional
  behaviour on every branch: handshake, commands, accepting, notifications, discovery and unpairing. Round trips:
  packets and records. Refinement: the muxer alone, and then the whole daemon, as a registry in which an
  identifier stands for one device, and the wait for the WIFI devices as the wait of a family. Ends: the search for an
  identifier, \<open>deconstruct\<close>, the stop of a session, and the destructor of a manager, by a measure on the objects that are left.
  Lifetimes: no object outlives its manager, and what keeps one alive keeps the destructor waiting.
  Errors: what a failed start, a failed initialisation or a message that is too short leads to. Where a theorem
  shows something the code did not mean to do, its text says so.

  \<^bold>\<open>Loops, bounds and inputs.\<close> Loops over data are structural or have a measure. The search for an identifier may not
  end in the code, so \<open>fresh_id\<close> is a \<open>partial_function\<close> and \<open>fresh_id_terminates\<close> shows when it ends; so is
  \<open>drain_wake\<close>, the read of the wake-up pipe, for which \<open>None\<close> is a read that waits for ever. A loop that waits for the
  outside world takes the list of what it is given, one element a turn, so a theorem about all lists is about all
  runs; no other fuel is used. A session that is told to stop needs four more steps of its thread at most. Integers of the code keep their width where they can wrap; counters the code
  compares as mathematical numbers and identifiers (\<open>int\<close> in the code, bounded by \<open>MAXID\<close>) are integers.
  Pointers are natural numbers and the objects are in a store where they are shared.

  \<^bold>\<open>Code that is not in the repository\<close> (libusb, libplist, libimobiledevice, Bonjour, Avahi, the kernel) is a
  parameter: a record of functions or the values it returned, with the laws a theorem uses among its hypotheses.

  \<^bold>\<open>Not modelled.\<close> The texts of exceptions and of log messages; the exception classes of \<^verbatim>\<open>MUXException.hpp\<close> and the base
  classes \<^verbatim>\<open>Manager/DeviceManager.cpp\<close> and \<^verbatim>\<open>Devices/Device.cpp\<close>, which have no behaviour of their own; the usage text
  and the resource limits in \<open>main\<close>; the declarations of the Bonjour API in \<^verbatim>\<open>Manager/WIFIDeviceManager-mDNS.hpp\<close>; the
  callbacks with which libplist and Avahi allocate. Starting a thread is a flag, what it does are steps or turns.
  Nodes of libplist are not tracked as memory outside \<open>Preflight\<close>. Loops and events of libgeneral are not in the
  repository: \<open>stopLoop\<close> is taken to call \<open>stopAction\<close> on a loop that runs and to wait for its thread.
\<close>

end
